(* ===== verification/Prelude.thy ===== *)
theory Prelude
  imports Main
begin

text \<open>
  Shared vocabulary of the development.

  SQLite tables are lists of rows in rowid order. The SQL statements the sources use
  become four list functions: \<open>upd_where\<close> (UPDATE .. WHERE), \<open>del_where\<close> (DELETE ..
  WHERE), \<open>sel_where\<close> (SELECT .. WHERE, in rowid order) and \<open>sel_one\<close> (QueryRow).
  The lemmas on them below carry most proofs about the journal; the collection
  \<open>table_simps\<close> gathers the rewriting rules.
\<close>

named_theorems table_simps \<open>rewrite rules for table updates, deletions and selections\<close>

section \<open>Tables\<close>

definition upd_where :: "('r \<Rightarrow> bool) \<Rightarrow> ('r \<Rightarrow> 'r) \<Rightarrow> 'r list \<Rightarrow> 'r list" where
  "upd_where p f rs = map (\<lambda>r. if p r then f r else r) rs"

definition del_where :: "('r \<Rightarrow> bool) \<Rightarrow> 'r list \<Rightarrow> 'r list" where
  "del_where p rs = filter (\<lambda>r. \<not> p r) rs"

definition sel_where :: "('r \<Rightarrow> bool) \<Rightarrow> 'r list \<Rightarrow> 'r list" where
  "sel_where p rs = filter p rs"

definition sel_one :: "('r \<Rightarrow> bool) \<Rightarrow> 'r list \<Rightarrow> 'r option" where
  "sel_one p rs = find p rs"

text \<open>COUNT and EXISTS over a selection.\<close>

definition cnt_where :: "('r \<Rightarrow> bool) \<Rightarrow> 'r list \<Rightarrow> nat" where
  "cnt_where p rs = length (filter p rs)"

lemma upd_where_Nil [simp]: "upd_where p f [] = []"
  by (simp add: upd_where_def)

lemma upd_where_Cons [simp]:
  "upd_where p f (r # rs) = (if p r then f r else r) # upd_where p f rs"
  by (simp add: upd_where_def)

lemma length_upd_where [simp]: "length (upd_where p f rs) = length rs"
  by (simp add: upd_where_def)

lemma set_upd_where [table_simps]:
  "set (upd_where p f rs) = (\<lambda>r. if p r then f r else r) ` set rs"
  by (simp add: upd_where_def)

lemma in_upd_where_iff:
  "x \<in> set (upd_where p f rs) \<longleftrightarrow> (x \<in> set rs \<and> \<not> p x) \<or> (\<exists>r \<in> set rs. p r \<and> x = f r)"
  by (auto simp: set_upd_where)

lemma map_upd_where_same [simp]:
  "(\<And>r. p r \<Longrightarrow> g (f r) = g r) \<Longrightarrow> map g (upd_where p f rs) = map g rs"
  by (simp add: upd_where_def)

lemma upd_where_none: "\<forall>r \<in> set rs. \<not> p r \<Longrightarrow> upd_where p f rs = rs"
  by (induction rs) auto

lemma del_where_Nil [simp]: "del_where p [] = []"
  by (simp add: del_where_def)

lemma del_where_Cons [simp]:
  "del_where p (r # rs) = (if p r then del_where p rs else r # del_where p rs)"
  by (simp add: del_where_def)

lemma set_del_where [table_simps]: "set (del_where p rs) = {r \<in> set rs. \<not> p r}"
  by (simp add: del_where_def)

lemma del_where_none: "\<forall>r \<in> set rs. \<not> p r \<Longrightarrow> del_where p rs = rs"
  by (simp add: del_where_def)

lemma distinct_map_del_where [intro]:
  "distinct (map g rs) \<Longrightarrow> distinct (map g (del_where p rs))"
  by (simp add: del_where_def distinct_map_filter)

lemma sorted_map_del_where [intro]:
  "sorted (map g rs) \<Longrightarrow> sorted (map g (del_where p rs))"
  by (simp add: del_where_def sorted_filter)

lemma sel_where_Nil [simp]: "sel_where p [] = []"
  by (simp add: sel_where_def)

lemma sel_where_Cons [simp]:
  "sel_where p (r # rs) = (if p r then r # sel_where p rs else sel_where p rs)"
  by (simp add: sel_where_def)

lemma set_sel_where [table_simps]: "set (sel_where p rs) = {r \<in> set rs. p r}"
  by (simp add: sel_where_def)

lemma distinct_map_sel_where [intro]:
  "distinct (map g rs) \<Longrightarrow> distinct (map g (sel_where p rs))"
  by (simp add: sel_where_def distinct_map_filter)

lemma sel_one_Nil [simp]: "sel_one p [] = None"
  by (simp add: sel_one_def)

lemma sel_one_Cons [simp]: "sel_one p (r # rs) = (if p r then Some r else sel_one p rs)"
  by (simp add: sel_one_def)

lemma sel_one_append:
  "sel_one p (xs @ ys) = (case sel_one p xs of Some r \<Rightarrow> Some r | None \<Rightarrow> sel_one p ys)"
  by (induction xs) auto

lemma sel_one_SomeD: "sel_one p rs = Some r \<Longrightarrow> r \<in> set rs \<and> p r"
  by (induction rs) (auto split: if_splits)

lemma sel_one_None_iff [table_simps]: "sel_one p rs = None \<longleftrightarrow> (\<forall>r \<in> set rs. \<not> p r)"
  by (induction rs) auto

lemma sel_one_upd_where:
  "(\<And>r. p (f r) = p r) \<Longrightarrow> (\<And>r. q r \<Longrightarrow> p (f r) = p r) \<Longrightarrow>
   sel_one p (upd_where q f rs) = map_option (\<lambda>r. if q r then f r else r) (sel_one p rs)"
  by (induction rs) auto

text \<open>Lookup by a key column.\<close>

lemma sel_one_key_Some:
  assumes "distinct (map k rs)" and "r \<in> set rs"
  shows "sel_one (\<lambda>x. k x = k r) rs = Some r"
  using assms by (induction rs) (auto simp: image_iff)

lemma sel_one_key_iff:
  assumes "distinct (map k rs)"
  shows "sel_one (\<lambda>x. k x = a) rs = Some r \<longleftrightarrow> r \<in> set rs \<and> k r = a"
  using assms sel_one_key_Some sel_one_SomeD by fastforce

lemma key_unique:
  "distinct (map k rs) \<Longrightarrow> x \<in> set rs \<Longrightarrow> y \<in> set rs \<Longrightarrow> k x = k y \<Longrightarrow> x = y"
  by (auto simp: distinct_map inj_on_def)

lemma cnt_where_0_iff [simp]: "cnt_where p rs = 0 \<longleftrightarrow> (\<forall>r \<in> set rs. \<not> p r)"
  by (simp add: cnt_where_def filter_empty_conv)

lemma cnt_where_pos_iff [simp]: "0 < cnt_where p rs \<longleftrightarrow> (\<exists>r \<in> set rs. p r)"
  by (simp add: cnt_where_def filter_empty_conv)

lemma cnt_where_Nil [simp]: "cnt_where p [] = 0"
  by (simp add: cnt_where_def)

lemma cnt_where_Cons [simp]:
  "cnt_where p (r # rs) = (if p r then Suc (cnt_where p rs) else cnt_where p rs)"
  by (simp add: cnt_where_def)

section \<open>Results\<close>

text \<open>
  A call that can fail returns \<open>'e + 'a\<close>, the error on the left. \<open>is_ok\<close> says that the
  call returned a value.
\<close>

abbreviation is_ok :: "'e + 'a \<Rightarrow> bool" where
  "is_ok r \<equiv> \<not> isl r"

lemma is_ok_iff: "is_ok r \<longleftrightarrow> (\<exists>v. r = Inr v)"
  by (cases r) auto

end
