(* ===== verification/GoStd.thy ===== *)
theory GoStd
  imports Prelude
begin

text \<open>
  The parts of Go's standard library that the modelled sources call: \<open>strings.Split\<close> and
  its relatives, \<open>path.Clean\<close>, \<open>Dir\<close>, \<open>Base\<close>, \<open>Join\<close> and \<open>filepath.Abs\<close> on
  slash-separated (Unix) paths, and the conversions of \<open>time.Time\<close>. Strings are byte
  strings, as Go's are.

  A \<open>time.Time\<close> is the number of nanoseconds since the Unix epoch; a \<open>time.Duration\<close> is
  a number of nanoseconds. The zero time is the value \<open>IsZero\<close> recognises.
\<close>

section \<open>strings\<close>

fun split_on :: "char \<Rightarrow> string \<Rightarrow> string list" where
  "split_on c [] = [[]]"
| "split_on c (x # xs) =
     (if x = c then [] # split_on c xs
      else (case split_on c xs of [] \<Rightarrow> [[x]] | s # ss \<Rightarrow> (x # s) # ss))"

fun join_on :: "char \<Rightarrow> string list \<Rightarrow> string" where
  "join_on c [] = []"
| "join_on c [s] = s"
| "join_on c (s # t # ss) = s @ c # join_on c (t # ss)"

lemma split_on_nonempty [simp]: "split_on c s \<noteq> []"
  by (cases s) (auto split: list.splits)

lemma split_on_free: "t \<in> set (split_on c s) \<Longrightarrow> c \<notin> set t"
proof (induction s arbitrary: t)
  case Nil
  then show ?case by simp
next
  case (Cons x xs)
  then show ?case
    by (cases "split_on c xs") (auto split: if_splits)
qed

lemma join_split [simp]: "join_on c (split_on c s) = s"
proof (induction s)
  case Nil
  then show ?case by simp
next
  case (Cons x xs)
  obtain t ts where "split_on c xs = t # ts" by (cases "split_on c xs") auto
  with Cons show ?case by (cases ts) auto
qed

lemma split_on_no_sep: "c \<notin> set s \<Longrightarrow> split_on c s = [s]"
  by (induction s) auto

lemma split_on_append_sep: "split_on c (s @ c # t) = split_on c s @ split_on c t"
proof (induction s)
  case Nil
  then show ?case by simp
next
  case (Cons x xs)
  then show ?case
    by (cases "split_on c xs") (auto)
qed

lemma split_join:
  "ss \<noteq> [] \<Longrightarrow> \<forall>s \<in> set ss. c \<notin> set s \<Longrightarrow> split_on c (join_on c ss) = ss"
  by (induction c ss rule: join_on.induct) (auto simp: split_on_no_sep split_on_append_sep)

definition has_prefix :: "string \<Rightarrow> string \<Rightarrow> bool" where
  "has_prefix s p \<longleftrightarrow> take (length p) s = p"

definition has_suffix :: "string \<Rightarrow> string \<Rightarrow> bool" where
  "has_suffix s t \<longleftrightarrow> length t \<le> length s \<and> drop (length s - length t) s = t"

definition trim_suffix :: "string \<Rightarrow> string \<Rightarrow> string" where
  "trim_suffix s t = (if has_suffix s t then take (length s - length t) s else s)"

lemma has_prefix_append [simp]: "has_prefix (p @ s) p"
  by (simp add: has_prefix_def)

lemma has_suffix_append [simp]: "has_suffix (s @ t) t"
  by (simp add: has_suffix_def)

lemma trim_suffix_append [simp]: "trim_suffix (s @ t) t = s"
  by (simp add: trim_suffix_def)

lemma has_suffix_iff: "has_suffix s t \<longleftrightarrow> (\<exists>r. s = r @ t)"
proof
  assume "has_suffix s t"
  then have "s = take (length s - length t) s @ t"
    unfolding has_suffix_def by (metis append_take_drop_id)
  then show "\<exists>r. s = r @ t" by blast
qed auto

text \<open>\<open>strings.Contains\<close>.\<close>

fun str_contains :: "string \<Rightarrow> string \<Rightarrow> bool" where
  "str_contains [] t = (t = [])"
| "str_contains (c # s) t = (has_prefix (c # s) t \<or> str_contains s t)"

lemma str_contains_iff: "str_contains s t \<longleftrightarrow> (\<exists>u v. s = u @ t @ v)"
proof (induction s)
  case Nil
  then show ?case by simp
next
  case (Cons c s)
  show ?case
  proof
    assume "str_contains (c # s) t"
    then consider "has_prefix (c # s) t" | "str_contains s t" by auto
    then show "\<exists>u v. c # s = u @ t @ v"
    proof cases
      case 1
      then have "c # s = [] @ t @ drop (length t) (c # s)"
        unfolding has_prefix_def by (metis append_take_drop_id append_Nil)
      then show ?thesis by blast
    next
      case 2
      then obtain u v where "s = u @ t @ v" using Cons by auto
      then have "c # s = (c # u) @ t @ v" by simp
      then show ?thesis by blast
    qed
  next
    assume "\<exists>u v. c # s = u @ t @ v"
    then obtain u v where uv: "c # s = u @ t @ v" by blast
    show "str_contains (c # s) t"
    proof (cases u)
      case Nil
      with uv have "has_prefix (c # s) t" by simp
      then show ?thesis by simp
    next
      case (Cons d u')
      with uv have "s = u' @ t @ v" by simp
      with \<open>str_contains s t \<longleftrightarrow> _\<close> have "str_contains s t" by blast
      then show ?thesis by simp
    qed
  qed
qed

section \<open>path and filepath (Unix)\<close>

abbreviation sep :: char where "sep \<equiv> CHR ''/''"

text \<open>
  \<open>path.Clean\<close>: process the segments left to right on a stack (last segment first);
  empty and \<open>.\<close> segments are dropped, \<open>..\<close> pops, stays in front of an unrooted path and
  disappears at the root.
\<close>

fun clean_step :: "bool \<Rightarrow> string list \<Rightarrow> string \<Rightarrow> string list" where
  "clean_step rooted st seg =
     (if seg = [] \<or> seg = ''.'' then st
      else if seg = ''..'' then
        (case st of
           [] \<Rightarrow> if rooted then [] else [''..'']
         | t # ts \<Rightarrow> if t = ''..'' then ''..'' # st else ts)
      else seg # st)"

definition clean_segs :: "bool \<Rightarrow> string list \<Rightarrow> string list" where
  "clean_segs rooted segs = rev (foldl (clean_step rooted) [] segs)"

definition is_abs :: "string \<Rightarrow> bool" where
  "is_abs p \<longleftrightarrow> (case p of [] \<Rightarrow> False | c # _ \<Rightarrow> c = sep)"

definition path_clean :: "string \<Rightarrow> string" where
  "path_clean p =
     (let rooted = is_abs p; segs = clean_segs rooted (split_on sep p) in
      if rooted then sep # join_on sep segs
      else if segs = [] then ''.'' else join_on sep segs)"

text \<open>\<open>filepath.Join\<close>: empty elements are skipped, the rest is joined and cleaned.\<close>

definition path_join :: "string list \<Rightarrow> string" where
  "path_join elems =
     (let es = filter (\<lambda>e. e \<noteq> []) elems in
      if es = [] then [] else path_clean (join_on sep es))"

definition path_dir :: "string \<Rightarrow> string" where
  "path_dir p = path_clean (rev (dropWhile (\<lambda>c. c \<noteq> sep) (rev p)))"

definition path_base :: "string \<Rightarrow> string" where
  "path_base p =
     (if p = [] then ''.'' else
      let q = rev (dropWhile (\<lambda>c. c = sep) (rev p));
          b = rev (takeWhile (\<lambda>c. c \<noteq> sep) (rev q))
      in if b = [] then ''/'' else b)"

text \<open>
  \<open>filepath.Abs\<close>: the working directory is only needed for a relative path. It is absolute; the
  model keeps it without its leading slash, and \<open>None\<close> stands for a failing \<open>os.Getwd\<close>.
\<close>

definition path_abs :: "string option \<Rightarrow> string \<Rightarrow> string option" where
  "path_abs cwd p =
     (if is_abs p then Some (path_clean p)
      else (case cwd of None \<Rightarrow> None | Some d \<Rightarrow> Some (path_join [sep # d, p])))"

text \<open>A path segment that cleaning keeps as it is.\<close>

definition ok_seg :: "string \<Rightarrow> bool" where
  "ok_seg s \<longleftrightarrow> s \<noteq> [] \<and> s \<noteq> ''.'' \<and> s \<noteq> ''..'' \<and> sep \<notin> set s"

definition abs_path :: "string list \<Rightarrow> string" where
  "abs_path segs = sep # join_on sep segs"

lemma foldl_clean_ok:
  "\<forall>s \<in> set segs. ok_seg s \<Longrightarrow> foldl (clean_step b) st segs = rev segs @ st"
  by (induction segs arbitrary: st) (auto simp: ok_seg_def)

lemma clean_segs_ok: "\<forall>s \<in> set segs. ok_seg s \<Longrightarrow> clean_segs b segs = segs"
  by (simp add: clean_segs_def foldl_clean_ok)

lemma foldl_clean_rooted:
  assumes "\<forall>s \<in> set segs. sep \<notin> set s" and "\<forall>s \<in> set st. ok_seg s"
  shows "\<forall>s \<in> set (foldl (clean_step True) st segs). ok_seg s"
  using assms
proof (induction segs arbitrary: st)
  case Nil
  then show ?case by simp
next
  case (Cons x xs)
  have "\<forall>s \<in> set (clean_step True st x). ok_seg s"
    using Cons.prems by (auto simp: ok_seg_def split: list.splits)
  with Cons show ?case by simp
qed

lemma clean_segs_rooted:
  assumes "\<forall>s \<in> set segs. sep \<notin> set s"
  shows "\<forall>s \<in> set (clean_segs True segs). ok_seg s"
  using foldl_clean_rooted [OF assms, of "[]"] by (simp add: clean_segs_def)

text \<open>A cleaned absolute path is \<open>/\<close> followed by good segments.\<close>

lemma path_clean_abs_form:
  assumes "is_abs p"
  obtains segs where "path_clean p = abs_path segs" and "\<forall>s \<in> set segs. ok_seg s"
proof
  show "path_clean p = abs_path (clean_segs True (split_on sep p))"
    using assms by (simp add: path_clean_def abs_path_def)
  show "\<forall>s \<in> set (clean_segs True (split_on sep p)). ok_seg s"
    by (rule clean_segs_rooted) (auto dest: split_on_free)
qed

lemma is_abs_abs_path [simp]: "is_abs (abs_path segs)"
  by (simp add: is_abs_def abs_path_def)

lemma split_abs_path:
  "\<forall>s \<in> set segs. ok_seg s \<Longrightarrow>
   split_on sep (abs_path segs) = [] # (if segs = [] then [[]] else segs)"
  by (auto simp: abs_path_def ok_seg_def split_join)

lemma clean_segs_empty_head: "clean_segs b ([] # segs) = clean_segs b segs"
  by (simp add: clean_segs_def)

lemma path_clean_abs_path [simp]:
  assumes "\<forall>s \<in> set segs. ok_seg s"
  shows "path_clean (abs_path segs) = abs_path segs"
proof (cases "segs = []")
  case True
  then show ?thesis by (simp add: path_clean_def abs_path_def is_abs_def clean_segs_def)
next
  case False
  with assms show ?thesis
    by (simp add: path_clean_def split_abs_path clean_segs_empty_head clean_segs_ok)
       (simp add: abs_path_def)
qed

lemma path_clean_idem_abs: "is_abs p \<Longrightarrow> path_clean (path_clean p) = path_clean p"
  by (erule path_clean_abs_form) simp


lemma abs_path_snoc:
  "abs_path (segs @ [s]) = (if segs = [] then sep # s else abs_path segs @ sep # s)"
proof -
  have "segs \<noteq> [] \<Longrightarrow> join_on sep (segs @ [s]) = join_on sep segs @ sep # s"
    by (induction sep segs rule: join_on.induct) auto
  then show ?thesis by (simp add: abs_path_def)
qed

lemma path_join_abs_path:
  assumes "\<forall>s \<in> set segs. ok_seg s" and "ok_seg t"
  shows "path_join [abs_path segs, t] = abs_path (segs @ [t])"
proof -
  have t: "t \<noteq> []" "sep \<notin> set t" using assms(2) by (auto simp: ok_seg_def)
  have sp: "split_on sep (abs_path segs @ sep # t) =
      [] # (if segs = [] then [[]] else segs) @ [t]"
    using assms(1) t by (simp add: split_on_append_sep split_abs_path split_on_no_sep)
  have "clean_segs True (split_on sep (abs_path segs @ sep # t)) = segs @ [t]"
    using assms by (auto simp: sp clean_segs_empty_head clean_segs_ok)
  moreover have "is_abs (abs_path segs @ sep # t)"
    by (simp add: abs_path_def is_abs_def)
  ultimately have "path_clean (abs_path segs @ sep # t) = abs_path (segs @ [t])"
    by (simp add: path_clean_def abs_path_def)
  then show ?thesis using t by (simp add: path_join_def) (simp add: abs_path_def)
qed

lemma path_dir_abs_path:
  assumes "\<forall>s \<in> set segs. ok_seg s" and "ok_seg t"
  shows "path_dir (abs_path (segs @ [t])) = abs_path segs"
proof -
  have t: "sep \<notin> set t" using assms(2) by (simp add: ok_seg_def)
  have dw: "rev (dropWhile (\<lambda>c. c \<noteq> sep) (rev (q @ sep # t))) = q @ [sep]" for q
    using t by (simp add: dropWhile_append)
  show ?thesis
  proof (cases "segs = []")
    case True
    with dw [of "[]"] show ?thesis
      by (simp add: path_dir_def abs_path_snoc path_clean_def is_abs_def clean_segs_def abs_path_def)
  next
    case False
    have "split_on sep (abs_path segs @ [sep]) = [] # segs @ [[]]"
      using assms(1) False by (simp add: split_on_append_sep [of sep _ "[]", simplified] split_abs_path)
    moreover have "clean_segs True (segs @ [[]]) = segs"
      using assms(1) by (simp add: clean_segs_def foldl_clean_ok)
    moreover have "is_abs (abs_path segs @ [sep])" by (simp add: abs_path_def is_abs_def)
    ultimately have "path_clean (abs_path segs @ [sep]) = abs_path segs"
      by (simp add: path_clean_def clean_segs_empty_head) (simp add: abs_path_def)
    with False dw show ?thesis by (simp add: path_dir_def abs_path_snoc)
  qed
qed

lemma path_base_abs_path:
  assumes "ok_seg t"
  shows "path_base (abs_path (segs @ [t])) = t"
proof -
  have t: "sep \<notin> set t" "t \<noteq> []" using assms by (auto simp: ok_seg_def)
  obtain t' l where tl: "t = t' @ [l]" using t(2) by (cases t rule: rev_cases) auto
  have l: "l \<noteq> sep" using t(1) tl by auto
  have "path_base (q @ sep # t) = t" for q
    using t l by (simp add: path_base_def tl takeWhile_append)
  from this [of "[]"] this [of "abs_path segs"] show ?thesis
    by (simp add: abs_path_snoc)
qed

text \<open>The three facts about a file directly below a cleaned absolute directory.\<close>

lemma path_below:
  assumes "is_abs d" and "ok_seg t"
  shows path_below_abs: "path_abs cwd (path_join [path_clean d, t]) = Some (path_join [path_clean d, t])"
    and path_below_dir: "path_dir (path_join [path_clean d, t]) = path_clean d"
    and path_below_base: "path_base (path_join [path_clean d, t]) = t"
proof -
  obtain segs where d: "path_clean d = abs_path segs" and ok: "\<forall>s \<in> set segs. ok_seg s"
    using assms(1) by (rule path_clean_abs_form)
  have j: "path_join [path_clean d, t] = abs_path (segs @ [t])"
    using d ok assms(2) by (simp add: path_join_abs_path)
  have ok': "\<forall>s \<in> set (segs @ [t]). ok_seg s" using ok assms(2) by auto
  show "path_abs cwd (path_join [path_clean d, t]) = Some (path_join [path_clean d, t])"
    using ok' by (simp only: j path_abs_def) simp
  show "path_dir (path_join [path_clean d, t]) = path_clean d"
    using path_dir_abs_path [OF ok assms(2)] by (simp add: j [unfolded d] d)
  show "path_base (path_join [path_clean d, t]) = t"
    using assms(2) by (simp only: j path_base_abs_path)
qed

lemma path_abs_form:
  assumes "path_abs cwd p = Some a"
  obtains segs where "a = abs_path segs" and "\<forall>s \<in> set segs. ok_seg s"
proof (cases "is_abs p")
  case True
  then show ?thesis using assms path_clean_abs_form [OF True] that by (auto simp: path_abs_def)
next
  case False
  then obtain d where "a = path_join [sep # d, p]"
    using assms by (auto simp: path_abs_def split: option.splits)
  then have "a = path_clean (join_on sep (filter (\<lambda>e. e \<noteq> []) [sep # d, p]))"
    by (simp add: path_join_def)
  moreover have "is_abs (join_on sep (filter (\<lambda>e. e \<noteq> []) [sep # d, p]))"
    by (auto simp: is_abs_def)
  ultimately show ?thesis using path_clean_abs_form that by metis
qed

lemma path_abs_idem: "path_abs cwd p = Some a \<Longrightarrow> path_abs cwd' a = Some a"
  by (erule path_abs_form) (simp add: path_abs_def)

section \<open>time\<close>

type_synonym gotime = int      \<comment> \<open>nanoseconds since the Unix epoch\<close>
type_synonym duration = int    \<comment> \<open>nanoseconds\<close>

abbreviation Millisecond :: duration where "Millisecond \<equiv> 1000000"
abbreviation Second :: duration where "Second \<equiv> 1000000000"
abbreviation Minute :: duration where "Minute \<equiv> 60000000000"

definition zero_time :: gotime where
  "zero_time = -62135596800 * Second"

definition time_unix :: "gotime \<Rightarrow> int" where
  "time_unix t = t div Second"

definition time_unix_milli :: "gotime \<Rightarrow> int" where
  "time_unix_milli t = t div Millisecond"

lemma time_unix_milli_mono: "s \<le> t \<Longrightarrow> time_unix_milli s \<le> time_unix_milli t"
  by (simp add: time_unix_milli_def zdiv_mono1)

end
