(* ===== verification/ProxyRules.thy ===== *)
theory ProxyRules
  imports GoStd
begin

text \<open>
  \<open>internal/net/proxy/rules.go\<close>: parsing of Clash-style rule lines and the first-match
  router with its two implementations, \<open>Outbound\<close> (used for dialling) and \<open>Explain\<close>
  (used for diagnostics).

  Letter case and white space are those of ASCII. The IP address functions of package
  \<open>net\<close> and the GeoIP hook are parameters (\<open>netlib\<close>): no statement depends on how they
  read an address. Dereferencing the nil \<open>cidr\<close> of a rule is a panic, \<open>None\<close>.
\<close>

section \<open>Case mapping and trimming\<close>

definition to_lower_char :: "char \<Rightarrow> char" where
  "to_lower_char c =
     (let n = of_char c :: nat in if 65 \<le> n \<and> n \<le> 90 then char_of (n + 32) else c)"

definition to_upper_char :: "char \<Rightarrow> char" where
  "to_upper_char c =
     (let n = of_char c :: nat in if 97 \<le> n \<and> n \<le> 122 then char_of (n - 32) else c)"

abbreviation to_lower :: "string \<Rightarrow> string" where "to_lower \<equiv> map to_lower_char"
abbreviation to_upper :: "string \<Rightarrow> string" where "to_upper \<equiv> map to_upper_char"

definition is_space :: "char \<Rightarrow> bool" where
  "is_space c = (let n = of_char c :: nat in n = 32 \<or> (9 \<le> n \<and> n \<le> 13))"

definition trim_space :: "string \<Rightarrow> string" where
  "trim_space s = rev (dropWhile is_space (rev (dropWhile is_space s)))"

definition equal_fold :: "string \<Rightarrow> string \<Rightarrow> bool" where
  "equal_fold s t \<longleftrightarrow> to_lower s = to_lower t"

section \<open>Rules\<close>

datatype RuleKind =
    Domain | DomainSuffix | DomainKeyword | IPCIDR | GeoIP | Final | UnknownKind string

fun kind_of_string :: "string \<Rightarrow> RuleKind" where
  "kind_of_string s =
     (if s = ''DOMAIN'' then Domain
      else if s = ''DOMAIN-SUFFIX'' then DomainSuffix
      else if s = ''DOMAIN-KEYWORD'' then DomainKeyword
      else if s = ''IP-CIDR'' then IPCIDR
      else if s = ''GEOIP'' then GeoIP
      else if s = ''FINAL'' then Final
      else UnknownKind s)"

record 'cidr Rule =
  Kind :: RuleKind
  Match :: string
  ruleOutbound :: string
  cidr :: "'cidr option"

record ('ip, 'cidr) netlib =
  ParseIP :: "string \<Rightarrow> 'ip option"
  ParseCIDR :: "string \<Rightarrow> 'cidr option"
  Contains :: "'cidr \<Rightarrow> 'ip \<Rightarrow> bool"

datatype rule_error = MalformedRule | EmptyMatch | BadCIDR | FinalArity | UnknownRule

definition Parse :: "('ip, 'cidr) netlib \<Rightarrow> string \<Rightarrow> rule_error + 'cidr Rule" where
  "Parse net line =
     (let parts = map trim_space (split_on (CHR '','') (trim_space line)) in
      if length parts = 2 \<and> equal_fold (parts ! 0) ''FINAL'' then
        Inr \<lparr>Kind = Final, Match = [], ruleOutbound = parts ! 1, cidr = None\<rparr>
      else if length parts \<noteq> 3 then Inl MalformedRule
      else
        (let r = \<lparr>Kind = kind_of_string (to_upper (parts ! 0)), Match = to_lower (parts ! 1),
                  ruleOutbound = parts ! 2, cidr = None\<rparr>
         in case Kind r of
              Domain \<Rightarrow> if Match r = [] then Inl EmptyMatch else Inr r
            | DomainSuffix \<Rightarrow> if Match r = [] then Inl EmptyMatch else Inr r
            | DomainKeyword \<Rightarrow> if Match r = [] then Inl EmptyMatch else Inr r
            | GeoIP \<Rightarrow> Inr (r\<lparr>Match := to_upper (Match r)\<rparr>)
            | IPCIDR \<Rightarrow>
                (case ParseCIDR net (Match r) of
                   None \<Rightarrow> Inl BadCIDR
                 | Some n \<Rightarrow> Inr (r\<lparr>cidr := Some n\<rparr>))
            | Final \<Rightarrow> Inl FinalArity
            | UnknownKind _ \<Rightarrow> Inl UnknownRule))"

record 'ip Target =
  Host :: string
  targetIP :: "'ip option"

record ('ip, 'cidr) Router =
  rules :: "'cidr Rule list"
  geoIP :: "('ip \<Rightarrow> string) option"
  DefaultOutbound :: string

fun parse_lines :: "('ip, 'cidr) netlib \<Rightarrow> string list \<Rightarrow> rule_error + 'cidr Rule list" where
  "parse_lines net [] = Inr []"
| "parse_lines net (l # ls) =
     (if trim_space l = [] \<or> has_prefix (trim_space l) ''#'' then parse_lines net ls
      else (case Parse net l of
              Inl e \<Rightarrow> Inl e
            | Inr r \<Rightarrow>
                (case parse_lines net ls of Inl e \<Rightarrow> Inl e | Inr rs \<Rightarrow> Inr (r # rs))))"

definition NewRouter :: "('ip, 'cidr) netlib \<Rightarrow> string list \<Rightarrow> rule_error + ('ip, 'cidr) Router" where
  "NewRouter net lines =
     (case parse_lines net lines of
        Inl e \<Rightarrow> Inl e
      | Inr rs \<Rightarrow> Inr \<lparr>rules = rs, geoIP = None, DefaultOutbound = ''direct''\<rparr>)"

section \<open>Routing\<close>

definition norm_host :: "string \<Rightarrow> string" where
  "norm_host h = to_lower (trim_suffix h ''.'')"

definition target_ip :: "('ip, 'cidr) netlib \<Rightarrow> 'ip Target \<Rightarrow> 'ip option" where
  "target_ip net t =
     (case targetIP t of None \<Rightarrow> ParseIP net (norm_host (Host t)) | Some ip \<Rightarrow> Some ip)"

text \<open>The loop of \<open>Outbound\<close>, with its inlined \<open>switch\<close>.\<close>

fun outbound_loop ::
  "('ip, 'cidr) netlib \<Rightarrow> ('ip \<Rightarrow> string) option \<Rightarrow> string \<Rightarrow> 'ip option \<Rightarrow> string
   \<Rightarrow> 'cidr Rule list \<Rightarrow> string option" where
  "outbound_loop net geo host ip dflt [] = Some dflt"
| "outbound_loop net geo host ip dflt (rule # rs) =
     (case Kind rule of
        Domain \<Rightarrow>
          if host = Match rule then Some (ruleOutbound rule)
          else outbound_loop net geo host ip dflt rs
      | DomainSuffix \<Rightarrow>
          if host = Match rule \<or> has_suffix host (''.'' @ Match rule) then Some (ruleOutbound rule)
          else outbound_loop net geo host ip dflt rs
      | DomainKeyword \<Rightarrow>
          if str_contains host (Match rule) then Some (ruleOutbound rule)
          else outbound_loop net geo host ip dflt rs
      | IPCIDR \<Rightarrow>
          (case ip of
             None \<Rightarrow> outbound_loop net geo host ip dflt rs
           | Some a \<Rightarrow>
               (case cidr rule of
                  None \<Rightarrow> None
                | Some n \<Rightarrow> if Contains net n a then Some (ruleOutbound rule)
                            else outbound_loop net geo host ip dflt rs))
      | GeoIP \<Rightarrow>
          (case (ip, geo) of
             (Some a, Some g) \<Rightarrow>
               if g a = Match rule then Some (ruleOutbound rule)
               else outbound_loop net geo host ip dflt rs
           | _ \<Rightarrow> outbound_loop net geo host ip dflt rs)
      | Final \<Rightarrow> Some (ruleOutbound rule)
      | UnknownKind _ \<Rightarrow> outbound_loop net geo host ip dflt rs)"

definition Outbound :: "('ip, 'cidr) netlib \<Rightarrow> ('ip, 'cidr) Router \<Rightarrow> 'ip Target \<Rightarrow> string option" where
  "Outbound net r t =
     outbound_loop net (geoIP r) (norm_host (Host t)) (target_ip net t) (DefaultOutbound r) (rules r)"

definition router_match ::
  "('ip, 'cidr) netlib \<Rightarrow> ('ip, 'cidr) Router \<Rightarrow> 'cidr Rule \<Rightarrow> string \<Rightarrow> 'ip option \<Rightarrow> bool option" where
  "router_match net r rule host ip =
     (case Kind rule of
        Domain \<Rightarrow> Some (host = Match rule)
      | DomainSuffix \<Rightarrow> Some (host = Match rule \<or> has_suffix host (''.'' @ Match rule))
      | DomainKeyword \<Rightarrow> Some (str_contains host (Match rule))
      | IPCIDR \<Rightarrow>
          (case ip of
             None \<Rightarrow> Some False
           | Some a \<Rightarrow> (case cidr rule of None \<Rightarrow> None | Some n \<Rightarrow> Some (Contains net n a)))
      | GeoIP \<Rightarrow>
          (case (ip, geoIP r) of
             (Some a, Some g) \<Rightarrow> Some (g a = Match rule)
           | _ \<Rightarrow> Some False)
      | Final \<Rightarrow> Some True
      | UnknownKind _ \<Rightarrow> Some False)"

text \<open>\<open>Explain\<close>: the outer option is a panic, the inner one the returned pointer.\<close>

fun explain_loop ::
  "('ip, 'cidr) netlib \<Rightarrow> ('ip, 'cidr) Router \<Rightarrow> string \<Rightarrow> 'ip option \<Rightarrow> 'cidr Rule list
   \<Rightarrow> 'cidr Rule option option" where
  "explain_loop net r host ip [] = Some None"
| "explain_loop net r host ip (rule # rs) =
     (case router_match net r rule host ip of
        None \<Rightarrow> None
      | Some True \<Rightarrow> Some (Some rule)
      | Some False \<Rightarrow> explain_loop net r host ip rs)"

definition Explain ::
  "('ip, 'cidr) netlib \<Rightarrow> ('ip, 'cidr) Router \<Rightarrow> 'ip Target \<Rightarrow> 'cidr Rule option option" where
  "Explain net r t = explain_loop net r (norm_host (Host t)) (target_ip net t) (rules r)"

lemma outbound_explain_loop:
  "outbound_loop net (geoIP r) host ip d rs =
   map_option (\<lambda>e. case e of None \<Rightarrow> d | Some rule \<Rightarrow> ruleOutbound rule) (explain_loop net r host ip rs)"
proof (induction rs)
  case (Cons rule rs)
  then show ?case
    by (cases "Kind rule"; cases ip; cases "cidr rule"; cases "geoIP r")
      (simp_all add: router_match_def)
qed simp

text \<open>
  The diagnostic \<open>Explain\<close> reports the rule the dialler really uses: \<open>Outbound\<close> is the
  outbound of the rule \<open>Explain\<close> returns, or the default outbound when it returns none,
  and the two panic on the same inputs.
\<close>

lemma Outbound_Explain:
  "Outbound net r t =
   map_option (\<lambda>e. case e of None \<Rightarrow> DefaultOutbound r | Some rule \<Rightarrow> ruleOutbound rule) (Explain net r t)"
  by (simp add: Outbound_def Explain_def outbound_explain_loop)

section \<open>Routers built from rule lines\<close>

text \<open>What a parsed rule satisfies; in particular a CIDR rule carries its network.\<close>

definition rule_ok :: "'cidr Rule \<Rightarrow> bool" where
  "rule_ok r \<longleftrightarrow>
     (Kind r = IPCIDR \<longrightarrow> cidr r \<noteq> None) \<and>
     (Kind r \<in> {Domain, DomainSuffix, DomainKeyword} \<longrightarrow> Match r \<noteq> []) \<and>
     (\<forall>s. Kind r \<noteq> UnknownKind s)"

lemma Parse_ok: "Parse net line = Inr r \<Longrightarrow> rule_ok r"
  by (auto simp: Parse_def Let_def rule_ok_def split: if_splits RuleKind.splits option.splits)

lemma router_match_total: "rule_ok rule \<Longrightarrow> router_match net r rule host ip \<noteq> None"
  by (auto simp: router_match_def rule_ok_def split: RuleKind.splits option.splits)

text \<open>
  A line of the configuration that applies to a target: it is neither blank nor a comment, and the rule it is
  parsed to matches.
\<close>

definition line_applies ::
  "('ip, 'cidr) netlib \<Rightarrow> ('ip, 'cidr) Router \<Rightarrow> 'ip Target \<Rightarrow> string \<Rightarrow> bool" where
  "line_applies net r t l \<longleftrightarrow>
     trim_space l \<noteq> [] \<and> \<not> has_prefix (trim_space l) ''#'' \<and>
     (case Parse net l of
        Inl e \<Rightarrow> False
      | Inr rule \<Rightarrow> router_match net r rule (norm_host (Host t)) (target_ip net t) = Some True)"

lemma explain_lines:
  assumes "parse_lines net ls = Inr rs"
  shows "explain_loop net r (norm_host (Host t)) (target_ip net t) rs =
    Some (map_option (\<lambda>l. projr (Parse net l)) (find (line_applies net r t) ls))"
  using assms
proof (induction ls arbitrary: rs)
  case (Cons l ls)
  show ?case
  proof (cases "trim_space l = [] \<or> has_prefix (trim_space l) ''#''")
    case True
    then show ?thesis using Cons by (auto simp: line_applies_def)
  next
    case False
    then obtain rule rs' where p: "Parse net l = Inr rule" "parse_lines net ls = Inr rs'" "rs = rule # rs'"
      using Cons.prems by (auto split: sum.splits)
    obtain m where "router_match net r rule (norm_host (Host t)) (target_ip net t) = Some m"
      using router_match_total [OF Parse_ok [OF p(1)]] by blast
    then show ?thesis using False p Cons.IH [OF p(2)] by (cases m) (simp_all add: line_applies_def)
  qed
qed simp

text \<open>
  C38: a router built from configuration lines never panics and follows the lines in their order: for
  every target it returns the outbound of the rule on the first line that applies to the target, or the
  default outbound \<open>direct\<close> when no line does. The GeoIP hook is whatever the caller installs afterwards.
\<close>

theorem router_first_match:
  assumes "NewRouter net lines = Inr r0" and "r = r0\<lparr>geoIP := g\<rparr>"
  shows "case find (line_applies net r t) lines of
      None \<Rightarrow> Outbound net r t = Some ''direct''
    | Some l \<Rightarrow> \<exists>rule. Parse net l = Inr rule \<and> Outbound net r t = Some (ruleOutbound rule)"
proof -
  obtain rs where rs: "parse_lines net lines = Inr rs" "rules r = rs" "DefaultOutbound r = ''direct''"
    using assms by (auto simp: NewRouter_def split: sum.splits)
  have "\<exists>rule. Parse net l = Inr rule" if "find (line_applies net r t) lines = Some l" for l
  proof -
    have "line_applies net r t l" using that by (auto simp: find_Some_iff)
    then show ?thesis by (cases "Parse net l") (simp_all add: line_applies_def)
  qed
  then show ?thesis
    using explain_lines [OF rs(1), of r t] by (auto simp: Outbound_Explain Explain_def rs(2,3) split: option.split)
qed

text \<open>The built-in rule set.\<close>

definition DefaultRules :: "string list" where
  "DefaultRules =
     [''DOMAIN-SUFFIX,googleapis.com,proxy'',
      ''DOMAIN-SUFFIX,googleusercontent.com,proxy'',
      ''DOMAIN-SUFFIX,google.com,proxy'',
      ''DOMAIN-SUFFIX,graph.microsoft.com,proxy'',
      ''DOMAIN-SUFFIX,microsoftonline.com,proxy'',
      ''DOMAIN-SUFFIX,sharepoint.com,proxy'',
      ''DOMAIN-SUFFIX,1drv.com,proxy'',
      ''DOMAIN-SUFFIX,live.com,proxy'',
      ''DOMAIN-SUFFIX,dropboxapi.com,proxy'',
      ''DOMAIN-SUFFIX,dropboxusercontent.com,proxy'',
      ''DOMAIN-SUFFIX,dropbox.com,proxy'',
      ''DOMAIN-SUFFIX,box.com,proxy'',
      ''DOMAIN-SUFFIX,boxcloud.com,proxy'',
      ''DOMAIN-SUFFIX,amazonaws.com,proxy'',
      ''GEOIP,CN,direct'',
      ''FINAL,direct'']"

definition no_net :: "(unit, unit) netlib" where
  "no_net = \<lparr>ParseIP = \<lambda>_. None, ParseCIDR = \<lambda>_. None, Contains = \<lambda>_ _. False\<rparr>"

definition two_rules :: "string list" where
  "two_rules = [''# overseas'', '' domain-suffix , Box.com, proxy'', ''FINAL,direct'']"

lemma two_rules_router:
  "NewRouter no_net two_rules =
   Inr \<lparr>rules = [\<lparr>Kind = DomainSuffix, Match = ''box.com'', ruleOutbound = ''proxy'', cidr = None\<rparr>,
               \<lparr>Kind = Final, Match = [], ruleOutbound = ''direct'', cidr = None\<rparr>],
       geoIP = None, DefaultOutbound = ''direct''\<rparr>"
  by code_simp

theorem router_first_match_witness:
  "\<exists>r. NewRouter no_net two_rules = Inr r \<and>
     Outbound no_net r \<lparr>Host = ''API.box.com.'', targetIP = None\<rparr> = Some ''proxy'' \<and>
     Outbound no_net r \<lparr>Host = ''sandbox.com'', targetIP = None\<rparr> = Some ''direct''"
proof -
  let ?r = "\<lparr>rules = [\<lparr>Kind = DomainSuffix, Match = ''box.com'', ruleOutbound = ''proxy'', cidr = None\<rparr>,
      \<lparr>Kind = Final, Match = [], ruleOutbound = ''direct'', cidr = None\<rparr>],
    geoIP = None, DefaultOutbound = ''direct''\<rparr> :: (unit, unit) Router"
  let ?t = "\<lparr>Host = ''API.box.com.'', targetIP = None\<rparr> :: unit Target"
    and ?u = "\<lparr>Host = ''sandbox.com'', targetIP = None\<rparr> :: unit Target"
  have "find (line_applies no_net ?r ?t) two_rules = Some '' domain-suffix , Box.com, proxy''"
    "find (line_applies no_net ?r ?u) two_rules = Some ''FINAL,direct''" by code_simp+
  moreover have "Parse no_net '' domain-suffix , Box.com, proxy'' =
      Inr \<lparr>Kind = DomainSuffix, Match = ''box.com'', ruleOutbound = ''proxy'', cidr = None\<rparr>"
    "Parse no_net ''FINAL,direct'' = Inr \<lparr>Kind = Final, Match = [], ruleOutbound = ''direct'', cidr = None\<rparr>" by code_simp+
  moreover have "?r = ?r\<lparr>geoIP := None\<rparr>" by simp
  note router_first_match [OF two_rules_router this, of ?t] router_first_match [OF two_rules_router this, of ?u]
  ultimately show ?thesis using two_rules_router by auto
qed

end
