(* ===== verification/PathGlob.thy ===== *)
theory PathGlob
  imports GoStd
begin

text \<open>
  \<open>internal/pathglob\<close>: the \<open>**\<close> glob dialect that the index rules and the trigger rules
  share. \<open>path.Match\<close> of Go's standard library, which matches one segment, is modelled
  first, on UTF-8 byte strings; the properties below do not depend on its details.
\<close>

section \<open>path.Match\<close>

text \<open>\<open>utf8.DecodeRuneInString\<close>: the rune and its width; 65533 is \<open>RuneError\<close>.\<close>

definition cont_byte :: "nat \<Rightarrow> bool" where
  "cont_byte b \<longleftrightarrow> 128 \<le> b \<and> b \<le> 191"

definition rune_bytes :: "nat list \<Rightarrow> nat \<times> nat" where
  "rune_bytes bs =
     (case bs of
        [] \<Rightarrow> (65533, 0)
      | b0 # r0 \<Rightarrow>
          if b0 < 128 then (b0, 1)
          else if 194 \<le> b0 \<and> b0 \<le> 223 then
            (case r0 of b1 # _ \<Rightarrow>
               if cont_byte b1 then ((b0 - 192) * 64 + (b1 - 128), 2) else (65533, 1)
             | _ \<Rightarrow> (65533, 1))
          else if 224 \<le> b0 \<and> b0 \<le> 239 then
            (case r0 of b1 # b2 # _ \<Rightarrow>
               if cont_byte b1 \<and> cont_byte b2 \<and> (b0 = 224 \<longrightarrow> 160 \<le> b1) \<and> (b0 = 237 \<longrightarrow> b1 \<le> 159)
               then ((b0 - 224) * 4096 + (b1 - 128) * 64 + (b2 - 128), 3) else (65533, 1)
             | _ \<Rightarrow> (65533, 1))
          else if 240 \<le> b0 \<and> b0 \<le> 244 then
            (case r0 of b1 # b2 # b3 # _ \<Rightarrow>
               if cont_byte b1 \<and> cont_byte b2 \<and> cont_byte b3 \<and> (b0 = 240 \<longrightarrow> 144 \<le> b1) \<and>
                  (b0 = 244 \<longrightarrow> b1 \<le> 143)
               then ((b0 - 240) * 262144 + (b1 - 128) * 4096 + (b2 - 128) * 64 + (b3 - 128), 4)
               else (65533, 1)
             | _ \<Rightarrow> (65533, 1))
          else (65533, 1))"

definition decode_rune :: "string \<Rightarrow> nat \<times> nat" where
  "decode_rune s = rune_bytes (map of_char (take 4 s))"

text \<open>\<open>getEsc\<close>: a possibly escaped character of a class; \<open>None\<close> is \<open>ErrBadPattern\<close>.\<close>

definition get_esc :: "string \<Rightarrow> (nat \<times> string) option" where
  "get_esc chunk =
     (case chunk of
        [] \<Rightarrow> None
      | c # cs \<Rightarrow>
          if c = CHR ''-'' \<or> c = CHR '']'' then None
          else
            (let body = (if c = CHR 0x5C then cs else chunk) in
             if body = [] then None
             else (let (r, n) = decode_rune body; rest = drop (max 1 n) body in
                   if (r = 65533 \<and> n = 1) \<or> rest = [] then None else Some (r, rest))))"

lemma get_esc_shorter: "get_esc chunk = Some (r, rest) \<Longrightarrow> length rest < length chunk"
  by (auto simp: get_esc_def Let_def split: list.splits if_splits prod.splits)

text \<open>The ranges of a class: whether one of them holds the rune, and the rest of the chunk.\<close>

function class_ranges :: "nat \<Rightarrow> nat \<Rightarrow> bool \<Rightarrow> string \<Rightarrow> (bool \<times> string) option" where
  "class_ranges r nrange found chunk =
     (case chunk of
        c # cs \<Rightarrow>
          if c = CHR '']'' \<and> nrange > 0 then Some (found, cs)
          else
            (case get_esc chunk of
               None \<Rightarrow> None
             | Some (lo, rest) \<Rightarrow>
                 (case rest of
                    d # ds \<Rightarrow>
                      if d = CHR ''-'' then
                        (case get_esc ds of
                           None \<Rightarrow> None
                         | Some (hi, rest') \<Rightarrow>
                             class_ranges r (Suc nrange) (found \<or> (lo \<le> r \<and> r \<le> hi)) rest')
                      else class_ranges r (Suc nrange) (found \<or> (lo \<le> r \<and> r \<le> lo)) rest
                  | [] \<Rightarrow> None))
      | [] \<Rightarrow> None)"
  by pat_completeness auto
termination
  by (relation "measure (\<lambda>(r, n, f, chunk). length chunk)") (auto dest!: get_esc_shorter)

declare class_ranges.simps [simp del]

lemma class_ranges_shorter:
  "class_ranges r n f chunk = Some (b, rest) \<Longrightarrow> length rest < length chunk"
proof (induction r n f chunk rule: class_ranges.induct)
  case (1 r n f chunk)
  obtain c cs where chunk: "chunk = c # cs"
    using 1(3) by (cases chunk) (auto simp: class_ranges.simps)
  show ?case
  proof (cases "c = CHR '']'' \<and> n > 0")
    case True
    then show ?thesis using 1(3) chunk by (simp add: class_ranges.simps)
  next
    case False
    then obtain lo d ds where esc: "get_esc chunk = Some (lo, d # ds)"
      using 1(3) chunk
      by (subst (asm) class_ranges.simps) (auto split: option.splits list.splits)
    have step: "class_ranges r n f chunk =
        (if d = CHR ''-'' then
           (case get_esc ds of None \<Rightarrow> None
            | Some (hi, rest') \<Rightarrow> class_ranges r (Suc n) (f \<or> (lo \<le> r \<and> r \<le> hi)) rest')
         else class_ranges r (Suc n) (f \<or> (lo \<le> r \<and> r \<le> lo)) (d # ds))"
      using False esc chunk by (subst class_ranges.simps) auto
    show ?thesis
    proof (cases "d = CHR ''-''")
      case True
      then obtain hi rest' where hi: "get_esc ds = Some (hi, rest')"
        using 1(3) step by (auto split: option.splits)
      have "class_ranges r (Suc n) (f \<or> (lo \<le> r \<and> r \<le> hi)) rest' = Some (b, rest)"
        using 1(3) step True hi by simp
      then have "length rest < length rest'"
        using 1(1) chunk False esc True hi by blast
      then show ?thesis
        using get_esc_shorter [OF hi] get_esc_shorter [OF esc] by simp
    next
      case noRange: False
      have "class_ranges r (Suc n) (f \<or> (lo \<le> r \<and> r \<le> lo)) (d # ds) = Some (b, rest)"
        using 1(3) step noRange by simp
      then have "length rest < length (d # ds)"
        using 1(2) chunk False esc noRange by blast
      then show ?thesis using get_esc_shorter [OF esc] by simp
    qed
  qed
qed

text \<open>
  \<open>matchChunk\<close>: the chunk against a prefix of the string. The outer \<open>None\<close> is
  \<open>ErrBadPattern\<close>, the inner one a failed match; \<open>None\<close> for the string means that the match has
  already failed and only the syntax of the chunk is still checked.
\<close>

function match_chunk :: "string \<Rightarrow> string option \<Rightarrow> string option option" where
  "match_chunk chunk s0 =
     (let s = (if s0 = Some [] \<and> chunk \<noteq> [] then None else s0) in
      case chunk of
        [] \<Rightarrow> Some s
      | c # cs \<Rightarrow>
          if c = CHR ''['' then
            (let r = (case s of None \<Rightarrow> 0 | Some t \<Rightarrow> fst (decode_rune t));
                 s' = map_option (\<lambda>t. drop (snd (decode_rune t)) t) s;
                 negated = (cs \<noteq> [] \<and> hd cs = CHR ''^'');
                 body = (if negated then tl cs else cs) in
             case class_ranges r 0 False body of
               None \<Rightarrow> None
             | Some (found, rest) \<Rightarrow> match_chunk rest (if found = negated then None else s'))
          else if c = CHR ''?'' then
            match_chunk cs
              (case s of None \<Rightarrow> None
               | Some t \<Rightarrow> if hd t = CHR ''/'' then None else Some (drop (snd (decode_rune t)) t))
          else if c = CHR 0x5C \<and> cs = [] then None
          else
            (let lit = (if c = CHR 0x5C then hd cs else c);
                 rest = (if c = CHR 0x5C then tl cs else cs) in
             match_chunk rest
               (case s of None \<Rightarrow> None | Some t \<Rightarrow> if hd t = lit then Some (tl t) else None)))"
  by pat_completeness auto
termination
  by (relation "measure (\<lambda>(chunk, s). length chunk)")
    (auto dest!: class_ranges_shorter split: if_splits)

declare match_chunk.simps [simp del]

text \<open>\<open>scanChunk\<close> without its leading stars: up to the next star outside a class.\<close>

fun scan_body :: "bool \<Rightarrow> string \<Rightarrow> string \<times> string" where
  "scan_body inrange [] = ([], [])"
| "scan_body inrange (c # cs) =
     (if c = CHR 0x5C then
        (case cs of
           [] \<Rightarrow> ([c], [])
         | d # ds \<Rightarrow> (let (a, b) = scan_body inrange ds in (c # d # a, b)))
      else if c = CHR ''*'' \<and> \<not> inrange then ([], c # cs)
      else
        (let inr = (if c = CHR ''['' then True else if c = CHR '']'' then False else inrange);
             (a, b) = scan_body inr cs in
         (c # a, b)))"

definition scan_chunk :: "string \<Rightarrow> bool \<times> string \<times> string" where
  "scan_chunk p =
     (p \<noteq> [] \<and> hd p = CHR ''*'', scan_body False (dropWhile (\<lambda>c. c = CHR ''*'') p))"

text \<open>The retry behind a star: the first offset at which the chunk matches.\<close>

fun star_retry :: "string \<Rightarrow> bool \<Rightarrow> string \<Rightarrow> string option" where
  "star_retry chunk isLast [] = None"
| "star_retry chunk isLast (c # cs) =
     (if c = CHR ''/'' then None
      else
        (case match_chunk chunk (Some cs) of
           Some (Some t) \<Rightarrow> if isLast \<and> t \<noteq> [] then star_retry chunk isLast cs else Some t
         | Some None \<Rightarrow> star_retry chunk isLast cs
         | None \<Rightarrow> None))"

text \<open>
  \<open>path.Match\<close>, reduced to what its caller reads: matched without an error. Each round consumes at
  least one byte of the pattern, so its length is enough fuel.
\<close>

fun path_match_loop :: "nat \<Rightarrow> string \<Rightarrow> string \<Rightarrow> bool" where
  "path_match_loop 0 pattern name \<longleftrightarrow> pattern = [] \<and> name = []"
| "path_match_loop (Suc fuel) pattern name \<longleftrightarrow>
     (if pattern = [] then name = []
      else
        (let (star, chunk, rest) = scan_chunk pattern in
         if star \<and> chunk = [] then CHR ''/'' \<notin> set name
         else
           (case match_chunk chunk (Some name) of
              None \<Rightarrow> False
            | Some m \<Rightarrow>
                (case m of
                   Some t \<Rightarrow>
                     if t = [] \<or> rest \<noteq> [] then path_match_loop fuel rest t
                     else if star then
                       (case star_retry chunk (rest = []) name of
                          Some t' \<Rightarrow> path_match_loop fuel rest t' | None \<Rightarrow> False)
                     else False
                 | None \<Rightarrow>
                     if star then
                       (case star_retry chunk (rest = []) name of
                          Some t' \<Rightarrow> path_match_loop fuel rest t' | None \<Rightarrow> False)
                     else False))))"

definition path_match :: "string \<Rightarrow> string \<Rightarrow> bool" where
  "path_match pattern name = path_match_loop (length pattern) pattern name"

section \<open>The glob dialect\<close>

abbreviation star2 :: string where
  "star2 \<equiv> ''**''"

definition splitGlob :: "string \<Rightarrow> string list" where
  "splitGlob s = filter (\<lambda>seg. seg \<noteq> []) (split_on sep s)"

function matchSegments :: "string list \<Rightarrow> string list \<Rightarrow> bool" where
  "matchSegments pat parts =
     (case pat of
        [] \<Rightarrow> parts = []
      | p # ps \<Rightarrow>
          if p = star2 then
            (let pat' = dropWhile (\<lambda>q. q = star2) ps in
             if pat' = [] then True
             else list_ex (\<lambda>i. matchSegments pat' (drop i parts)) [0..<Suc (length parts)])
          else
            (case parts of
               [] \<Rightarrow> False
             | q # qs \<Rightarrow> if \<not> path_match p q then False else matchSegments ps qs))"
  by pat_completeness auto
termination
  by (relation "measure (\<lambda>(pat, parts). length pat)")
    (auto simp: le_imp_less_Suc [OF length_dropWhile_le])

declare matchSegments.simps [simp del]

definition Match :: "string \<Rightarrow> string \<Rightarrow> bool" where
  "Match pattern p = matchSegments (splitGlob pattern) (splitGlob p)"

fun MatchAny :: "string list \<Rightarrow> string \<Rightarrow> bool" where
  "MatchAny [] p = False"
| "MatchAny (pat # patterns) p = (if Match pat p then True else MatchAny patterns p)"

function prefixSegments :: "string list \<Rightarrow> string list \<Rightarrow> bool" where
  "prefixSegments pat parts =
     (if parts = [] then True
      else
        (case pat of
           [] \<Rightarrow> False
         | p # ps \<Rightarrow>
             if p = star2 then
               (let pat' = dropWhile (\<lambda>q. q = star2) ps in
                list_ex (\<lambda>i. prefixSegments pat' (drop i parts)) [0..<Suc (length parts)])
             else if \<not> path_match p (hd parts) then False
             else prefixSegments ps (tl parts)))"
  by pat_completeness auto
termination
  by (relation "measure (\<lambda>(pat, parts). length pat)")
    (auto simp: le_imp_less_Suc [OF length_dropWhile_le])

declare prefixSegments.simps [simp del]

definition MayMatchBelow :: "string \<Rightarrow> string \<Rightarrow> bool" where
  "MayMatchBelow pattern dir = prefixSegments (splitGlob pattern) (splitGlob dir)"

section \<open>What a pattern means\<close>

text \<open>The documented meaning: a double star stands for any run of whole segments.\<close>

inductive glob_rel :: "string list \<Rightarrow> string list \<Rightarrow> bool" where
  glob_nil: "glob_rel [] []"
| glob_seg: "p \<noteq> star2 \<Longrightarrow> path_match p q \<Longrightarrow> glob_rel ps qs \<Longrightarrow> glob_rel (p # ps) (q # qs)"
| glob_star: "glob_rel ps qs \<Longrightarrow> glob_rel (star2 # ps) (xs @ qs)"

inductive_simps glob_rel_Nil [simp]: "glob_rel [] qs"
inductive_simps glob_rel_Cons: "glob_rel (p # ps) qs"

lemma glob_rel_seg:
  "p \<noteq> star2 \<Longrightarrow> glob_rel (p # ps) qs \<longleftrightarrow> (\<exists>q qs'. qs = q # qs' \<and> path_match p q \<and> glob_rel ps qs')"
  by (auto simp: glob_rel_Cons)

lemma glob_rel_star:
  "glob_rel (star2 # ps) qs \<longleftrightarrow> (\<exists>xs ys. qs = xs @ ys \<and> glob_rel ps ys)"
  by (auto simp: glob_rel_Cons)

lemma glob_rel_star_drop:
  "glob_rel (star2 # ps) qs \<longleftrightarrow> (\<exists>i \<le> length qs. glob_rel ps (drop i qs))"
proof
  assume "glob_rel (star2 # ps) qs"
  then obtain xs ys where "qs = xs @ ys" "glob_rel ps ys" by (auto simp: glob_rel_star)
  then show "\<exists>i \<le> length qs. glob_rel ps (drop i qs)" by (auto intro!: exI [of _ "length xs"])
next
  assume "\<exists>i \<le> length qs. glob_rel ps (drop i qs)"
  then show "glob_rel (star2 # ps) qs"
    unfolding glob_rel_star by (metis append_take_drop_id)
qed

lemma glob_rel_star_star: "glob_rel (star2 # star2 # ps) qs \<longleftrightarrow> glob_rel (star2 # ps) qs"
  unfolding glob_rel_star by (metis append.assoc append_Nil)

lemma glob_rel_star_collapse:
  "glob_rel (star2 # dropWhile (\<lambda>q. q = star2) ps) qs \<longleftrightarrow> glob_rel (star2 # ps) qs"
  by (induction ps) (auto simp: glob_rel_star_star)

lemma list_ex_upto: "list_ex P [0..<Suc n] \<longleftrightarrow> (\<exists>i \<le> n. P i)"
  by (auto simp: list_ex_iff less_Suc_eq_le simp del: upt_Suc)

lemma matchSegments_glob_rel: "matchSegments pat parts \<longleftrightarrow> glob_rel pat parts"
proof (induction pat parts rule: matchSegments.induct)
  case (1 pat parts)
  show ?case
  proof (cases pat)
    case Nil
    then show ?thesis by (simp add: matchSegments.simps)
  next
    case (Cons p ps)
    show ?thesis
    proof (cases "p = star2")
      case star: True
      let ?pat = "dropWhile (\<lambda>q. q = star2) ps"
      show ?thesis
      proof (cases "?pat = []")
        case True
        have "glob_rel (star2 # []) parts" by (auto simp: glob_rel_star)
        then have "glob_rel pat parts"
          using glob_rel_star_collapse [of ps parts] True star Cons by simp
        then show ?thesis using Cons star True by (simp add: matchSegments.simps)
      next
        case False
        have IH: "matchSegments ?pat (drop i parts) = glob_rel ?pat (drop i parts)"
          if "i \<le> length parts" for i
          using 1(1) [OF Cons star refl False, of i] that by (auto simp: less_Suc_eq_le simp del: upt_Suc)
        have "matchSegments pat parts \<longleftrightarrow> (\<exists>i \<le> length parts. matchSegments ?pat (drop i parts))"
          using Cons star False
          by (subst matchSegments.simps) (auto simp: list_ex_upto simp del: upt_Suc)
        also have "\<dots> \<longleftrightarrow> glob_rel (star2 # ?pat) parts"
          using IH by (auto simp: glob_rel_star_drop)
        finally show ?thesis using glob_rel_star_collapse Cons star by simp
      qed
    next
      case False
      then show ?thesis
        using Cons 1(2) [OF Cons False]
        by (subst matchSegments.simps) (auto simp: glob_rel_seg split: list.splits)
    qed
  qed
qed

text \<open>A path segment, and the patterns whose every segment some name matches.\<close>

definition good_seg :: "string \<Rightarrow> bool" where
  "good_seg s \<longleftrightarrow> s \<noteq> [] \<and> sep \<notin> set s"

definition matchable :: "string list \<Rightarrow> bool" where
  "matchable pat \<longleftrightarrow> (\<forall>p \<in> set pat. p \<noteq> star2 \<longrightarrow> (\<exists>q. good_seg q \<and> path_match p q))"

lemma matchable_Cons [simp]:
  "matchable (p # ps) \<longleftrightarrow> (p \<noteq> star2 \<longrightarrow> (\<exists>q. good_seg q \<and> path_match p q)) \<and> matchable ps"
  by (auto simp: matchable_def)

lemma matchable_dropWhile: "matchable ps \<Longrightarrow> matchable (dropWhile P ps)"
  by (auto simp: matchable_def dest: set_dropWhileD)

lemma matchable_glob_rel: "matchable pat \<Longrightarrow> \<exists>rest. list_all good_seg rest \<and> glob_rel pat rest"
proof (induction pat)
  case Nil
  show ?case by (rule exI [of _ "[]"]) simp
next
  case (Cons p ps)
  then obtain rest where rest: "list_all good_seg rest" "glob_rel ps rest" by auto
  show ?case
  proof (cases "p = star2")
    case True
    then show ?thesis using rest glob_star [OF rest(2), of "[]"] by auto
  next
    case False
    then obtain q where "good_seg q" "path_match p q" using Cons.prems by auto
    then show ?thesis
      using rest False by (intro exI [of _ "q # rest"]) (simp add: glob_seg)
  qed
qed

lemma prefixSegments_star:
  "prefixSegments (star2 # ps) parts"
proof (cases "parts = []")
  case True
  then show ?thesis by (simp add: prefixSegments.simps)
next
  case False
  have "prefixSegments (dropWhile (\<lambda>q. q = star2) ps) (drop (length parts) parts)"
    by (simp add: prefixSegments.simps)
  then show ?thesis
    using False by (subst prefixSegments.simps) (auto simp: list_ex_upto simp del: upt_Suc drop_all)
qed

lemma prefixSegments_seg:
  "p \<noteq> star2 \<Longrightarrow>
   prefixSegments (p # ps) (q # qs) \<longleftrightarrow> path_match p q \<and> prefixSegments ps qs"
  by (subst prefixSegments.simps) auto

lemma prefixSegments_Nil2 [simp]: "prefixSegments pat []"
  by (simp add: prefixSegments.simps)

lemma prefixSegments_Nil1 [simp]: "prefixSegments [] parts \<longleftrightarrow> parts = []"
  by (simp add: prefixSegments.simps)

lemma prefixSegments_sound: "glob_rel pat (parts @ rest) \<Longrightarrow> prefixSegments pat parts"
proof (induction pat arbitrary: parts)
  case (Cons p ps)
  then show ?case
    by (cases "p = star2"; cases parts)
      (auto simp: prefixSegments_star prefixSegments_seg glob_rel_seg)
qed simp

lemma prefixSegments_complete:
  "prefixSegments pat parts \<Longrightarrow> matchable pat \<Longrightarrow>
   \<exists>rest. list_all good_seg rest \<and> glob_rel pat (parts @ rest)"
proof (induction pat arbitrary: parts)
  case Nil
  show ?case using Nil by (intro exI [of _ "[]"]) simp
next
  case (Cons p ps)
  show ?case
  proof (cases "p = star2")
    case True
    obtain rest where "list_all good_seg rest" "glob_rel ps rest"
      using Cons.prems matchable_glob_rel [of ps] by auto
    then show ?thesis using True by (auto simp: glob_rel_star)
  next
    case False
    show ?thesis
    proof (cases parts)
      case Nil
      then show ?thesis using matchable_glob_rel [OF Cons.prems(2)] by simp
    next
      case (Cons q qs)
      then show ?thesis
        using Cons.prems Cons.IH [of qs] False by (auto simp: prefixSegments_seg intro: glob_seg)
    qed
  qed
qed

lemma splitGlob_below:
  "list_all good_seg rest \<Longrightarrow>
   splitGlob (dir @ concat (map (Cons sep) rest)) = splitGlob dir @ rest"
proof (induction rest rule: rev_induct)
  case (snoc s rest)
  then show ?case
    using split_on_append_sep [of sep "dir @ concat (map (Cons sep) rest)" s]
    by (simp add: splitGlob_def good_seg_def split_on_no_sep)
qed simp

section \<open>Properties\<close>

text \<open>
  C39. A pattern matches a path exactly when the path is cut into runs that the pattern's segments
  describe: one segment per ordinary pattern segment, any run of whole segments per double star.
\<close>

theorem Match_meaning:
  "Match pattern p \<longleftrightarrow> glob_rel (splitGlob pattern) (splitGlob p)"
  by (simp add: Match_def matchSegments_glob_rel)

text \<open>
  C40. When every segment of the pattern is satisfiable, \<open>MayMatchBelow\<close> is exact: it answers yes
  precisely when some path at or below the directory matches. The answer no is right for every
  pattern, so a subtree change is never missed.
\<close>

theorem MayMatchBelow_exact:
  "(\<not> MayMatchBelow pattern dir \<longrightarrow>
      (\<forall>rest. list_all good_seg rest \<longrightarrow> \<not> Match pattern (dir @ concat (map (Cons sep) rest)))) \<and>
   (matchable (splitGlob pattern) \<longrightarrow>
      (MayMatchBelow pattern dir \<longleftrightarrow>
         (\<exists>rest. list_all good_seg rest \<and> Match pattern (dir @ concat (map (Cons sep) rest)))))"
  unfolding MayMatchBelow_def Match_def matchSegments_glob_rel
  by (metis (no_types, lifting) splitGlob_below prefixSegments_sound prefixSegments_complete)

theorem MayMatchBelow_exact_witness:
  "(\<exists>rest. list_all good_seg rest \<and>
      Match ''/work/**/*.md'' (''/work/inbox'' @ concat (map (Cons sep) rest))) \<and>
   \<not> Match ''/work/inbox/*.md'' (''/work/inbox/sub'' @ concat (map (Cons sep) [''a.md'']))"
proof -
  have seg: "path_match ''work'' ''work''" "path_match ''*.md'' ''a.md''" "good_seg ''work''"
    "good_seg ''a.md''"
    by code_simp+
  have "matchable (splitGlob ''/work/**/*.md'')"
    using seg by (auto simp: splitGlob_def matchable_def)
  moreover have "MayMatchBelow ''/work/**/*.md'' ''/work/inbox''" by code_simp
  moreover have "\<not> MayMatchBelow ''/work/inbox/*.md'' ''/work/inbox/sub''" by code_simp
  moreover have "list_all good_seg [''a.md'']" using seg by simp
  ultimately show ?thesis
    using MayMatchBelow_exact [of "''/work/**/*.md''" "''/work/inbox''"]
      MayMatchBelow_exact [of "''/work/inbox/*.md''" "''/work/inbox/sub''"] by blast
qed

end
