(* ===== verification/Paging.thy ===== *)
theory Paging
  imports "HOL-Library.List_Lexorder" "HOL-Library.Char_ord" Prelude
begin

text \<open>
  Pages by stable cursor. \<open>Journal.ListActive\<close> and \<open>Journal.ListCopyJobs\<close> page through a table
  in the order of the primary key: a page holds the next rows after a cursor, and a page that is
  not the last gives the key of its last row as the next cursor. The contract below fixes that
  shape once; a full scan by any client then ends and has seen every row exactly once, in order.
\<close>

text \<open>The page both operations build from the rows after the cursor.\<close>

definition page_of :: "('r \<Rightarrow> string) \<Rightarrow> nat \<Rightarrow> 'r list \<Rightarrow> 'r list \<times> string" where
  "page_of key limit rs =
     (if length rs > limit then (take limit rs, key (rs ! (limit - 1))) else (rs, []))"

text \<open>
  A client that asks for page after page until the cursor is empty, or a call fails. It returns
  nothing (\<open>None\<close>) as long as the number of calls it may make does not bring it to that point.
\<close>

fun scan :: "(string \<Rightarrow> 'e + 'r list \<times> string) \<Rightarrow> nat \<Rightarrow> string \<Rightarrow> ('e + 'r list) option" where
  "scan page 0 cursor = None"
| "scan page (Suc fuel) cursor =
     (case page cursor of
        Inl e \<Rightarrow> Some (Inl e)
      | Inr (rs, next) \<Rightarrow>
          if next = [] then Some (Inr rs) else map_option (map_sum id (append rs)) (scan page fuel next))"

locale cursor_paging =
  fixes invar :: "'q \<Rightarrow> bool"
    and rows :: "'q \<Rightarrow> 'r list"
    and key :: "'r \<Rightarrow> string"
    and page :: "'q \<Rightarrow> nat \<Rightarrow> string \<Rightarrow> 'r list \<times> string"
  assumes rows_sorted: "invar q \<Longrightarrow> sorted_wrt (<) (map key (rows q))"
    and key_nonempty: "invar q \<Longrightarrow> r \<in> set (rows q) \<Longrightarrow> key r \<noteq> []"
    and page_law: "invar q \<Longrightarrow> 1 \<le> limit \<Longrightarrow>
      page q limit cursor = page_of key limit (filter (\<lambda>r. cursor < key r) (rows q))"
begin

lemma filter_after_cut:
  assumes "sorted_wrt (<) (map key (xs @ r # ys))"
  shows "filter (\<lambda>x. key r < key x) (xs @ r # ys) = ys"
proof -
  have "\<forall>x \<in> set xs. key x < key r" "\<forall>y \<in> set ys. key r < key y"
    using assms by (auto simp: sorted_wrt_append)
  then show ?thesis by (auto simp: filter_empty_conv filter_id_conv dest: less_not_sym)
qed

lemma filter_after_suffix:
  assumes "sorted_wrt (<) (map key rs)" "filter (\<lambda>x. cursor < key x) rs = us @ r # vs"
  shows "filter (\<lambda>x. key r < key x) rs = vs"
proof -
  let ?F = "filter (\<lambda>x. cursor < key x) rs"
  have cr: "cursor < key r"
  proof -
    have "r \<in> set ?F" using assms(2) by simp
    then show ?thesis by simp
  qed
  have "filter (\<lambda>x. key r < key x) rs = filter (\<lambda>x. key r < key x) ?F"
    using cr by (auto simp: filter_filter intro!: filter_cong)
  moreover have "sorted_wrt (<) (map key ?F)"
    using assms(1) by (simp add: sorted_wrt_map sorted_wrt_filter)
  ultimately show ?thesis using assms(2) filter_after_cut by metis
qed

lemma scan_after:
  assumes inv: "invar q" and lim: "1 \<le> limit"
    and fuel: "length (filter (\<lambda>r. cursor < key r) (rows q)) < fuel"
  shows "scan (\<lambda>c. Inr (page q limit c)) fuel cursor = Some (Inr (filter (\<lambda>r. cursor < key r) (rows q)))"
  using fuel
proof (induction fuel arbitrary: cursor)
  case (Suc fuel)
  let ?F = "filter (\<lambda>r. cursor < key r) (rows q)"
  show ?case
  proof (cases "length ?F > limit")
    case False
    then show ?thesis using page_law [OF inv lim, of cursor] by (simp add: page_of_def)
  next
    case True
    let ?r = "?F ! (limit - 1)"
    have len: "limit - 1 < length ?F" using True by simp
    have cut: "?F = take (limit - 1) ?F @ ?r # drop limit ?F"
      using id_take_nth_drop [OF len] lim by simp
    have next_rows: "filter (\<lambda>x. key ?r < key x) (rows q) = drop limit ?F"
      by (rule filter_after_suffix [OF rows_sorted [OF inv] cut])
    have "?r \<in> set (rows q)" using nth_mem [OF len] by simp
    then have ne: "key ?r \<noteq> []" using key_nonempty [OF inv] by blast
    have "length (drop limit ?F) < fuel" using Suc.prems lim True by simp
    then show ?thesis
      using Suc.IH [of "key ?r"] next_rows page_law [OF inv lim, of cursor] True ne by (simp add: page_of_def)
  qed
qed simp

text \<open>A scan from the start ends, and returns the table.\<close>

lemma scan_complete:
  assumes inv: "invar q" and lim: "1 \<le> limit"
  shows "scan (\<lambda>c. Inr (page q limit c)) (Suc (length (rows q))) [] = Some (Inr (rows q))"
proof -
  have "filter (\<lambda>r. [] < key r) (rows q) = rows q"
    using key_nonempty [OF inv] by (force simp: filter_id_conv neq_Nil_conv)
  then show ?thesis using scan_after [OF inv lim, of "[]" "Suc (length (rows q))"] by simp
qed

end

end
