(* ===== verification/OsFS.thy ===== *)
theory OsFS
  imports "HOL-Library.Word" "HOL-Library.List_Lexorder" "HOL-Library.Char_ord" GoStd
begin

text \<open>
  The environment of one call and the file system the journal works on.

  The record \<open>env\<close> holds what a call cannot choose: whether a string is a canonical UUID
  (\<open>github.com/google/uuid\<close>), the digests of Go's hash packages, the clock, the faults of the
  database and of the operating system, and whether the context has ended. Every operation takes
  it as its first argument, so a theorem over all environments covers every fault.

  The file system maps absolute clean paths to nodes. A node has an inode number, so hard links
  and \<open>os.SameFile\<close> are as in the system; an inode's bytes live in a separate map, so an open
  file keeps them after an unlink. Directories on the way to a path are not symbolic links; a
  symbolic link as the last component is followed by \<open>os_stat\<close> and not by \<open>os_lstat\<close>.
\<close>

type_synonym byte = "8 word"

section \<open>Environment\<close>

datatype HashType = HashMD5 | HashSHA1 | HashSHA256 | HashSliceMD5 | HashPreSHA1 | HashCRC32C

type_synonym Hashes = "HashType \<rightharpoonup> string"

text \<open>
  How a database call ends: well, refused at BEGIN, with a failing statement, or with a failing
  COMMIT. The statement fault comes before any effect on files, the commit fault after them.
\<close>

datatype dbfault = DBOk | DBBegin | DBStmt | DBCommit

datatype oscall =
    CStat | CLstat | COpen | CSync | CClose | CRead | CReadDir | CRemove | CRename | CLink
  | CTruncate | CCreate

record env =
  uuid_ok :: "string \<Rightarrow> bool"          \<comment> \<open>\<open>uuid.Parse\<close> succeeds and prints the string again\<close>
  digest :: "HashType \<Rightarrow> byte list \<Rightarrow> string"   \<comment> \<open>lower-case hexadecimal digest\<close>
  now :: gotime
  dbf :: "nat \<Rightarrow> dbfault"              \<comment> \<open>outcome of the n-th database call\<close>
  osfail :: "oscall \<Rightarrow> string \<Rightarrow> bool"
  ctx_err :: bool
  cleanup_fault :: "string \<Rightarrow> bool"   \<comment> \<open>\<open>Journal.uploadCleanupFault\<close>\<close>
  space_ok :: "string \<Rightarrow> int \<Rightarrow> bool"    \<comment> \<open>\<open>Options.ReserveSpace\<close> admits the write\<close>

text \<open>The environment after the first \<open>n\<close> database calls of an operation.\<close>

definition after :: "nat \<Rightarrow> env \<Rightarrow> env" where
  "after n env = env\<lparr>dbf := \<lambda>k. dbf env (n + k)\<rparr>"

lemma after_simps [simp]:
  "uuid_ok (after n env) = uuid_ok env" "digest (after n env) = digest env"
  "now (after n env) = now env" "dbf (after n env) k = dbf env (n + k)"
  "osfail (after n env) = osfail env" "ctx_err (after n env) = ctx_err env"
  "cleanup_fault (after n env) = cleanup_fault env" "space_ok (after n env) = space_ok env"
  by (simp_all add: after_def)

text \<open>An environment in which nothing fails.\<close>

definition calm :: "env \<Rightarrow> bool" where
  "calm env \<longleftrightarrow> (\<forall>n. dbf env n = DBOk) \<and> (\<forall>c p. \<not> osfail env c p) \<and> \<not> ctx_err env \<and>
     (\<forall>s. \<not> cleanup_fault env s)"

lemma calm_after [simp]: "calm env \<Longrightarrow> calm (after n env)"
  by (simp add: calm_def)

lemma calmD [simp, dest]:
  assumes "calm env"
  shows "dbf env n = DBOk" "\<not> osfail env c p" "\<not> ctx_err env" "\<not> cleanup_fault env s"
  using assms by (simp_all add: calm_def)

section \<open>Nodes\<close>

datatype fkind = KReg | KDir | KSym string | KOther

type_synonym fnode = "nat \<times> fkind"   \<comment> \<open>inode number and kind\<close>

datatype oserr = ENOENT | EIO

record osfs =
  os_cwd :: "string option"
  os_names :: "(string \<times> fnode) list"
  os_data :: "nat \<Rightarrow> byte list"

record fileinfo =
  fi_ino :: nat
  fi_kind :: fkind
  fi_size :: int

definition is_regular :: "fileinfo \<Rightarrow> bool" where
  "is_regular i \<longleftrightarrow> fi_kind i = KReg"

definition same_file :: "fileinfo \<Rightarrow> fileinfo \<Rightarrow> bool" where
  "same_file a b \<longleftrightarrow> fi_ino a = fi_ino b"

definition filepath_abs :: "osfs \<Rightarrow> string \<Rightarrow> string option" where
  "filepath_abs fs p = path_abs (os_cwd fs) p"

definition os_lookup :: "osfs \<Rightarrow> string \<Rightarrow> fnode option" where
  "os_lookup fs p = (case filepath_abs fs p of None \<Rightarrow> None | Some a \<Rightarrow> map_of (os_names fs) a)"

definition node_info :: "osfs \<Rightarrow> fnode \<Rightarrow> fileinfo" where
  "node_info fs n = \<lparr>fi_ino = fst n, fi_kind = snd n, fi_size = int (length (os_data fs (fst n)))\<rparr>"

text \<open>Following symbolic links from an absolute path; the kernel gives up after 40 of them.\<close>

fun follow :: "nat \<Rightarrow> osfs \<Rightarrow> string \<Rightarrow> fnode option" where
  "follow fuel fs a =
     (case map_of (os_names fs) a of
        None \<Rightarrow> None
      | Some (i, k) \<Rightarrow>
          (case k of
             KSym t \<Rightarrow>
               (case fuel of
                  0 \<Rightarrow> None
                | Suc f \<Rightarrow> follow f fs (if is_abs t then path_clean t else path_join [path_dir a, t]))
           | _ \<Rightarrow> Some (i, k)))"

declare follow.simps [simp del]

definition resolve :: "osfs \<Rightarrow> string \<Rightarrow> fnode option" where
  "resolve fs p = (case filepath_abs fs p of None \<Rightarrow> None | Some a \<Rightarrow> follow 40 fs a)"

definition os_lstat :: "env \<Rightarrow> osfs \<Rightarrow> string \<Rightarrow> oserr + fileinfo" where
  "os_lstat env fs p =
     (if osfail env CLstat p then Inl EIO
      else (case os_lookup fs p of None \<Rightarrow> Inl ENOENT | Some n \<Rightarrow> Inr (node_info fs n)))"

definition os_stat :: "env \<Rightarrow> osfs \<Rightarrow> string \<Rightarrow> oserr + fileinfo" where
  "os_stat env fs p =
     (if osfail env CStat p then Inl EIO
      else (case resolve fs p of None \<Rightarrow> Inl ENOENT | Some n \<Rightarrow> Inr (node_info fs n)))"

text \<open>\<open>os.Open\<close> of a file, and the bytes an open file gives.\<close>

definition os_open :: "env \<Rightarrow> osfs \<Rightarrow> string \<Rightarrow> oserr + nat" where
  "os_open env fs p =
     (if osfail env COpen p then Inl EIO
      else (case resolve fs p of None \<Rightarrow> Inl ENOENT | Some n \<Rightarrow> Inr (fst n)))"

definition os_readdir :: "env \<Rightarrow> osfs \<Rightarrow> string \<Rightarrow> oserr + (string \<times> fnode) list" where
  "os_readdir env fs d =
     (if osfail env CReadDir d then Inl EIO
      else
        (case resolve fs d of
           None \<Rightarrow> Inl ENOENT
         | Some (i, k) \<Rightarrow>
             if k \<noteq> KDir then Inl EIO
             else
               Inr (sort_key fst
                 (map (\<lambda>(p, n). (path_base p, n))
                   (filter (\<lambda>(p, n). Some (path_dir p) = filepath_abs fs d \<and> Some p \<noteq> filepath_abs fs d)
                     (os_names fs))))))"

text \<open>Only the database looks at how many calls came before.\<close>

lemma os_after [simp]:
  "os_lstat (after n env) = os_lstat env" "os_stat (after n env) = os_stat env"
  "os_open (after n env) = os_open env" "os_readdir (after n env) = os_readdir env"
  by (simp_all add: fun_eq_iff os_lstat_def os_stat_def os_open_def os_readdir_def)

section \<open>Changes\<close>

definition del_name :: "string \<Rightarrow> osfs \<Rightarrow> osfs" where
  "del_name a fs = fs\<lparr>os_names := filter (\<lambda>(p, n). p \<noteq> a) (os_names fs)\<rparr>"

definition set_name :: "string \<Rightarrow> fnode \<Rightarrow> osfs \<Rightarrow> osfs" where
  "set_name a n fs = fs\<lparr>os_names := (a, n) # filter (\<lambda>(p, n). p \<noteq> a) (os_names fs)\<rparr>"

definition set_data :: "nat \<Rightarrow> byte list \<Rightarrow> osfs \<Rightarrow> osfs" where
  "set_data i bs fs = fs\<lparr>os_data := (os_data fs)(i := bs)\<rparr>"

definition os_remove :: "env \<Rightarrow> osfs \<Rightarrow> string \<Rightarrow> oserr option \<times> osfs" where
  "os_remove env fs p =
     (if osfail env CRemove p then (Some EIO, fs)
      else
        (case filepath_abs fs p of
           None \<Rightarrow> (Some ENOENT, fs)
         | Some a \<Rightarrow>
             (case map_of (os_names fs) a of
                None \<Rightarrow> (Some ENOENT, fs)
              | Some (i, k) \<Rightarrow>
                  if k = KDir \<and> (\<exists>(q, n) \<in> set (os_names fs). path_dir q = a \<and> q \<noteq> a)
                  then (Some EIO, fs)
                  else (None, del_name a fs))))"

text \<open>
  \<open>rename(2)\<close> replaces the destination; it does nothing when both names are links to one inode.
\<close>

definition os_rename :: "env \<Rightarrow> osfs \<Rightarrow> string \<Rightarrow> string \<Rightarrow> oserr option \<times> osfs" where
  "os_rename env fs p q =
     (if osfail env CRename p then (Some EIO, fs)
      else
        (case (filepath_abs fs p, filepath_abs fs q) of
           (Some a, Some b) \<Rightarrow>
             (case map_of (os_names fs) a of
                None \<Rightarrow> (Some ENOENT, fs)
              | Some n \<Rightarrow>
                  (case map_of (os_names fs) b of
                     Some (i, k) \<Rightarrow>
                       if i = fst n then (None, fs)
                       else if k = KDir then (Some EIO, fs)
                       else (None, set_name b n (del_name a fs))
                   | None \<Rightarrow>
                       if map_option snd (map_of (os_names fs) (path_dir b)) \<noteq> Some KDir
                       then (Some ENOENT, fs)
                       else (None, set_name b n (del_name a fs))))
         | _ \<Rightarrow> (Some ENOENT, fs)))"

definition os_link :: "env \<Rightarrow> osfs \<Rightarrow> string \<Rightarrow> string \<Rightarrow> oserr option \<times> osfs" where
  "os_link env fs p q =
     (if osfail env CLink p then (Some EIO, fs)
      else
        (case (filepath_abs fs p, filepath_abs fs q) of
           (Some a, Some b) \<Rightarrow>
             (case map_of (os_names fs) a of
                None \<Rightarrow> (Some ENOENT, fs)
              | Some n \<Rightarrow>
                  if map_of (os_names fs) b \<noteq> None \<or> snd n = KDir then (Some EIO, fs)
                  else if map_option snd (map_of (os_names fs) (path_dir b)) \<noteq> Some KDir
                  then (Some ENOENT, fs)
                  else (None, set_name b n fs))
         | _ \<Rightarrow> (Some ENOENT, fs)))"

text \<open>\<open>os.OpenFile(p, O_CREATE|O_RDWR|O_EXCL)\<close>: a new inode with no bytes.\<close>

definition fresh_ino :: "osfs \<Rightarrow> nat" where
  "fresh_ino fs = Suc (foldr (\<lambda>(p, i, k) m. max i m) (os_names fs) 0)"

definition os_create_excl :: "env \<Rightarrow> osfs \<Rightarrow> string \<Rightarrow> oserr + (nat \<times> osfs)" where
  "os_create_excl env fs p =
     (if osfail env CCreate p then Inl EIO
      else
        (case filepath_abs fs p of
           None \<Rightarrow> Inl ENOENT
         | Some a \<Rightarrow>
             if map_of (os_names fs) a \<noteq> None then Inl EIO
             else if map_option snd (map_of (os_names fs) (path_dir a)) \<noteq> Some KDir then Inl ENOENT
             else (let i = fresh_ino fs in
                   Inr (i, set_data i [] (set_name a (i, KReg) fs)))))"

section \<open>Facts\<close>

lemma map_of_filter_neq: "map_of (filter (\<lambda>(p, n). p \<noteq> a) xs) = (map_of xs)(a := None)"
  by (induction xs) (auto simp: fun_eq_iff)

lemma del_name_simps [simp]:
  "os_cwd (del_name a fs) = os_cwd fs" "os_data (del_name a fs) = os_data fs"
  "map_of (os_names (del_name a fs)) = (map_of (os_names fs))(a := None)"
  by (simp_all add: del_name_def map_of_filter_neq)

lemma set_name_simps [simp]:
  "os_cwd (set_name a n fs) = os_cwd fs" "os_data (set_name a n fs) = os_data fs"
  "map_of (os_names (set_name a n fs)) = (map_of (os_names fs))(a \<mapsto> n)"
  by (auto simp: set_name_def map_of_filter_neq)

lemma set_data_simps [simp]:
  "os_cwd (set_data i bs fs) = os_cwd fs" "os_names (set_data i bs fs) = os_names fs"
  "os_data (set_data i bs fs) = (os_data fs)(i := bs)"
  by (simp_all add: set_data_def)

lemma filepath_abs_cong: "os_cwd fs = os_cwd fs' \<Longrightarrow> filepath_abs fs p = filepath_abs fs' p"
  by (simp add: filepath_abs_def)

lemma filepath_abs_idem: "filepath_abs fs p = Some a \<Longrightarrow> filepath_abs fs' a = Some a"
  unfolding filepath_abs_def by (rule path_abs_idem)

lemma os_remove_cwd [simp]: "os_cwd (snd (os_remove env fs p)) = os_cwd fs"
  by (simp add: os_remove_def split: option.split prod.split)

lemma os_remove_data [simp]: "os_data (snd (os_remove env fs p)) = os_data fs"
  by (simp add: os_remove_def split: option.split prod.split)

text \<open>A removal takes away at most the one name it was asked for.\<close>

lemma os_remove_other:
  "filepath_abs fs p \<noteq> Some q \<Longrightarrow>
   map_of (os_names (snd (os_remove env fs p))) q = map_of (os_names fs) q"
  by (auto simp: os_remove_def split: option.split prod.split)

lemma os_remove_fail: "fst (os_remove env fs p) \<noteq> None \<Longrightarrow> snd (os_remove env fs p) = fs"
  by (auto simp: os_remove_def split: option.splits prod.splits if_splits)

lemma os_remove_ok:
  "fst (os_remove env fs p) = None \<Longrightarrow>
   \<exists>a n. filepath_abs fs p = Some a \<and> map_of (os_names fs) a = Some n \<and>
         snd (os_remove env fs p) = del_name a fs"
  by (auto simp: os_remove_def split: option.splits prod.splits if_splits)

text \<open>More fuel gives the same node.\<close>

lemma follow_mono: "follow f fs a = Some n \<Longrightarrow> f \<le> g \<Longrightarrow> follow g fs a = Some n"
proof (induction f arbitrary: g a)
  case 0
  then show ?case
    by (subst (asm) follow.simps; subst follow.simps) (auto split: option.splits fkind.splits)
next
  case (Suc f)
  then obtain g' where g: "g = Suc g'" "f \<le> g'" by (cases g) auto
  show ?case
    using Suc.prems(1) Suc.IH [OF _ g(2)] unfolding g
    by (subst (asm) follow.simps; subst follow.simps) (auto split: option.splits fkind.splits)
qed

text \<open>
  Taking away one name does not change where another path leads, unless that path led to the same
  inode.
\<close>

lemma follow_del_name_Some:
  assumes "follow f fs p = Some n" "f \<le> g" "\<And>m. follow g fs a = Some m \<Longrightarrow> fst m \<noteq> fst n"
  shows "follow f (del_name a fs) p = Some n"
  using assms
proof (induction f arbitrary: p)
  case 0
  then have "p \<noteq> a" using follow_mono by blast
  then show ?case
    using 0(1) by (subst (asm) follow.simps; subst follow.simps) (auto split: option.splits fkind.splits)
next
  case (Suc f)
  then have "p \<noteq> a" using follow_mono by blast
  then show ?case
    using Suc
    by (subst (asm) (3) follow.simps; subst follow.simps) (auto split: option.splits fkind.splits)
qed

lemma follow_del_name_None: "follow f fs p = None \<Longrightarrow> follow f (del_name a fs) p = None"
proof (induction f arbitrary: p)
  case 0
  then show ?case
    by (subst (asm) follow.simps; subst follow.simps) (auto split: option.splits fkind.splits)
next
  case (Suc f)
  then show ?case
    by (subst (asm) (2) follow.simps; subst follow.simps) (auto split: option.splits fkind.splits)
qed

lemma follow_regular: "map_of (os_names fs) a = Some (i, KReg) \<Longrightarrow> follow f fs a = Some (i, KReg)"
  by (subst follow.simps) simp

lemma filepath_abs_del_name [simp]: "filepath_abs (del_name a fs) p = filepath_abs fs p"
  by (simp add: filepath_abs_def)

lemma resolve_del_name:
  assumes "\<And>m. follow 40 fs a = Some m \<Longrightarrow> map_option fst (resolve fs p) \<noteq> Some (fst m)"
  shows "resolve (del_name a fs) p = resolve fs p"
proof (cases "filepath_abs fs p")
  case None
  then show ?thesis by (simp add: resolve_def)
next
  case (Some b)
  show ?thesis
  proof (cases "follow 40 fs b")
    case None
    then show ?thesis using Some follow_del_name_None by (simp add: resolve_def)
  next
    case n: (Some n)
    then have "follow 40 (del_name a fs) b = Some n"
      using assms Some by (intro follow_del_name_Some [where g = 40]) (auto simp: resolve_def)
    then show ?thesis using Some n by (simp add: resolve_def)
  qed
qed

end
