(* ===== verification/JournalDB.thy ===== *)
theory JournalDB
  imports OsFS
begin

text \<open>
  The state of the upload journal (\<open>internal/journal\<close>): the Go structs, the SQLite tables and
  the \<open>Journal\<close> value itself, with transactions and the guards that most operations share.

  A table is the list of its rows in rowid order. JSON columns hold the value they encode. The
  struct \<open>Upload\<close> carries times in nanoseconds; the row \<open>urow\<close> stores \<open>next_retry_at\<close> in
  milliseconds and \<open>created_at\<close> in seconds, and \<open>scanUpload\<close> converts back.
\<close>

section \<open>Uploads\<close>

datatype State =
    StatePending | StateUploading | StateDone | StateDead
  | StateCancelling | StateCancelled | StatePurging
  | StateEmpty | StateOther string   \<comment> \<open>the empty string and any other string\<close>

record Upload =
  u_ID :: string
  u_StagingID :: string
  u_Remote :: string
  u_RemoteParentID :: string
  u_Name :: string
  u_BlobPath :: string
  u_Size :: int
  u_Hashes :: Hashes
  u_State :: State
  u_Attempt :: int
  u_NextRetryAt :: gotime
  u_LastError :: string
  u_ExpectedVersion :: string
  u_Session :: "string \<rightharpoonup> string"
  u_Ino :: nat
  u_CreatedAt :: gotime
  u_Tombstone :: bool
  u_NeedsPublish :: bool
  u_MetaIdentity :: string
  u_MountPrefix :: string
  u_MountRootID :: string
  u_AccountBinding :: string

record Part =
  p_Index :: int
  p_ETag :: string
  p_State :: string

text \<open>A row of the table \<open>uploads\<close>.\<close>

record urow =
  r_rowid :: nat
  r_id :: string
  r_remote :: string
  r_remote_parent_id :: string
  r_name :: string
  r_blob_path :: string
  r_size :: int
  r_hashes :: Hashes
  r_state :: State
  r_attempt :: int
  r_next_retry_at :: int
  r_last_error :: string
  r_expected_version :: string
  r_session :: "string \<rightharpoonup> string"
  r_ino :: nat
  r_created_at :: int
  r_tombstone :: bool
  r_needs_publish :: bool
  r_meta_identity :: string
  r_mount_prefix :: string
  r_mount_root_id :: string
  r_account_binding :: string
  r_done_at :: int

definition unixMilli :: "gotime \<Rightarrow> int" where
  "unixMilli t = (if t = zero_time then 0 else time_unix_milli t)"

definition fromUnixMilli :: "int \<Rightarrow> gotime" where
  "fromUnixMilli ms = (if ms = 0 then zero_time else ms * Millisecond)"

definition scanUpload :: "urow \<Rightarrow> Upload" where
  "scanUpload r =
     \<lparr>u_ID = r_id r, u_StagingID = [], u_Remote = r_remote r,
      u_RemoteParentID = r_remote_parent_id r, u_Name = r_name r, u_BlobPath = r_blob_path r,
      u_Size = r_size r, u_Hashes = r_hashes r, u_State = r_state r, u_Attempt = r_attempt r,
      u_NextRetryAt = fromUnixMilli (r_next_retry_at r), u_LastError = r_last_error r,
      u_ExpectedVersion = r_expected_version r, u_Session = r_session r, u_Ino = r_ino r,
      u_CreatedAt = r_created_at r * Second, u_Tombstone = r_tombstone r,
      u_NeedsPublish = r_needs_publish r, u_MetaIdentity = r_meta_identity r,
      u_MountPrefix = r_mount_prefix r, u_MountRootID = r_mount_root_id r,
      u_AccountBinding = r_account_binding r\<rparr>"

lemma scanUpload_simps [simp]:
  "u_ID (scanUpload r) = r_id r" "u_State (scanUpload r) = r_state r"
  "u_BlobPath (scanUpload r) = r_blob_path r" "u_Size (scanUpload r) = r_size r"
  "u_Tombstone (scanUpload r) = r_tombstone r" "u_Remote (scanUpload r) = r_remote r"
  "u_Ino (scanUpload r) = r_ino r" "u_Hashes (scanUpload r) = r_hashes r"
  "u_Session (scanUpload r) = r_session r" "u_Attempt (scanUpload r) = r_attempt r"
  "u_Name (scanUpload r) = r_name r" "u_RemoteParentID (scanUpload r) = r_remote_parent_id r"
  by (simp_all add: scanUpload_def)

text \<open>The side tables of an upload.\<close>

record part_row =
  pt_upload :: string
  pt_part :: Part

record dead_row =
  dl_upload :: string
  dl_reason :: string
  dl_moved_at :: int

record cancel_row =
  uc_upload :: string
  uc_revision :: int

record history_row =
  rh_upload :: string
  rh_revision :: int
  rh_snapshot :: "Upload \<times> Part list"

text \<open>A row of \<open>upload_cleanup\<close> and of \<open>upload_discarded\<close>.\<close>

record cleanup_row =
  cl_upload :: string
  cl_meta_identity :: string
  cl_blob_path :: string

section \<open>Copies\<close>

record CopySpec =
  cs_MetaIdentity :: string
  cs_TargetParentIno :: nat
  cs_SourceMount :: string
  cs_SourceRootID :: string
  cs_SourceAccountBinding :: string
  cs_TargetMount :: string
  cs_TargetRootID :: string
  cs_TargetAccountBinding :: string
  cs_SourcePath :: string
  cs_SourceRemote :: string
  cs_SourceID :: string
  cs_SourceVersion :: string
  cs_Size :: int
  cs_TargetPath :: string
  cs_TargetRemote :: string
  cs_TargetParentID :: string
  cs_Mode :: string

datatype CopyState =
  CopyPreparing | CopyReady | CopySubmitted | CopyFailed | CopyCancelled | CopyPurging

record copy_row =
  cj_id :: string
  cj_spec :: CopySpec
  cj_want :: "HashType list"
  cj_state :: CopyState
  cj_revision :: int
  cj_checkpoint :: int
  cj_crc32c :: string
  cj_target_remote :: string
  cj_target_parent :: string
  cj_target_name :: string
  cj_last_error :: string

record copy_cleanup_row =
  cc_id :: string
  cc_spec :: CopySpec
  cc_want :: "HashType list"
  cc_checkpoint :: int
  cc_crc32c :: string
  cc_revision :: int

record ServerCopySpec =
  sv_MetaIdentity :: string
  sv_TargetMount :: string
  sv_TargetRootID :: string
  sv_TargetAccountBinding :: string
  sv_SourcePath :: string
  sv_SourceRemote :: string
  sv_SourceID :: string
  sv_SourceVersion :: string
  sv_Size :: int
  sv_TargetPath :: string
  sv_TargetRemote :: string
  sv_TargetParentID :: string
  sv_TargetParentIno :: nat
  sv_TargetName :: string

record server_copy_row =
  sc_id :: string
  sc_spec :: ServerCopySpec
  sc_target_remote :: string
  sc_target_parent :: string
  sc_target_name :: string
  sc_last_error :: string

section \<open>The journal\<close>

record jdb =
  uploads :: "urow list"
  upload_parts :: "part_row list"
  dead_letter :: "dead_row list"
  upload_cancellation :: "cancel_row list"
  upload_resume_history :: "history_row list"
  upload_cleanup :: "cleanup_row list"
  upload_discarded :: "cleanup_row list"
  copy_jobs :: "copy_row list"
  copy_cleanup :: "copy_cleanup_row list"
  server_copies :: "server_copy_row list"

datatype Durability = DurabilityPower | DurabilityCrash

record Journal =
  jdb :: jdb
  jos :: osfs
  jdir :: string
  owner :: bool
  durability :: Durability
  stagedObjects :: "string \<rightharpoonup> string"
  stagedRefs :: "string \<Rightarrow> nat"
  copyOpen :: "string set"
  batches :: nat
  commit_rows :: nat

datatype jerr =
    JErrNotFound | ErrInFlight | ErrNotDead | ErrNotPending | ErrCancelled | ErrCannotCancel
  | ErrUploadPurging | ErrUploadCleanupState | ErrUploadCleanupIdentity | ErrUploadCleanupContent
  | ErrResumeChanged | ErrResumeContent
  | ErrCopyBusy | ErrCopyCorrupt | ErrCopyState | ErrCopyCancelled | ErrCopyReferenced
  | ErrServerCopyBusy | ErrLinkSourceChanged
  | ENotOwner | ENeedsID | EBinding | EState State | ECopyID | ECopySpec | ECopyHandle
  | EServerSpec | ECopySize | ECopyTarget | ECopyExists | ELimit | EDb | EOs oserr | ECtx | EClosed | EPerm | EInval | ENoSpace

text \<open>The Go text of the errors that operations store in rows.\<close>

definition cancelled_msg :: string where
  "cancelled_msg =
     ''journal: upload cancelled; retained content and remote result require explicit management''"

definition StagingDir :: "Journal \<Rightarrow> string" where
  "StagingDir j = path_join [jdir j, ''staging'']"

definition ObjectsDir :: "Journal \<Rightarrow> string" where
  "ObjectsDir j = path_join [jdir j, ''objects'']"

definition CopiesDir :: "Journal \<Rightarrow> string" where
  "CopiesDir j = path_join [jdir j, ''copies'']"

definition jabs :: "Journal \<Rightarrow> string \<Rightarrow> string option" where
  "jabs j p = filepath_abs (jos j) p"

definition copyPath :: "env \<Rightarrow> Journal \<Rightarrow> string \<Rightarrow> jerr + string" where
  "copyPath env j uid =
     (if \<not> uuid_ok env uid then Inl ECopyID
      else (case jabs j (path_join [jdir j, ''copies'', uid @ ''.part'']) of
              None \<Rightarrow> Inl (EOs EIO) | Some p \<Rightarrow> Inr p))"

text \<open>The paths of a journal do not depend on its tables.\<close>

lemma jdb_paths [simp]:
  "jabs (j\<lparr>jdb := d\<rparr>) = jabs j" "ObjectsDir (j\<lparr>jdb := d\<rparr>) = ObjectsDir j"
  "CopiesDir (j\<lparr>jdb := d\<rparr>) = CopiesDir j" "StagingDir (j\<lparr>jdb := d\<rparr>) = StagingDir j"
  "copyPath env (j\<lparr>jdb := d\<rparr>) = copyPath env j" "copyPath (after n env) j = copyPath env j"
  by (simp_all add: fun_eq_iff jabs_def ObjectsDir_def CopiesDir_def StagingDir_def copyPath_def)

section \<open>Transactions\<close>

text \<open>
  \<open>Journal.tx\<close>: the function runs on the database; an error of its own, of BEGIN, of a statement
  or of COMMIT leaves the database as it was.
\<close>

definition tx :: "env \<Rightarrow> (jdb \<Rightarrow> jerr + ('a \<times> jdb)) \<Rightarrow> Journal \<Rightarrow> (jerr + 'a) \<times> Journal" where
  "tx env fn j =
     (if dbf env 0 = DBBegin \<or> dbf env 0 = DBStmt then (Inl EDb, j)
      else
        (case fn (jdb j) of
           Inl e \<Rightarrow> (Inl e, j)
         | Inr (a, d) \<Rightarrow> if dbf env 0 = DBCommit then (Inl EDb, j) else (Inr a, j\<lparr>jdb := d\<rparr>)))"

text \<open>
  The same for a function that also changes files: what it did to the files stays, whatever
  becomes of the transaction.
\<close>

definition txf ::
  "env \<Rightarrow> (jdb \<Rightarrow> osfs \<Rightarrow> (jerr + ('a \<times> jdb)) \<times> osfs) \<Rightarrow> Journal \<Rightarrow> (jerr + 'a) \<times> Journal" where
  "txf env fn j =
     (if dbf env 0 = DBBegin \<or> dbf env 0 = DBStmt then (Inl EDb, j)
      else
        (case fn (jdb j) (jos j) of
           (Inl e, fs) \<Rightarrow> (Inl e, j\<lparr>jos := fs\<rparr>)
         | (Inr (a, d), fs) \<Rightarrow>
             if dbf env 0 = DBCommit then (Inl EDb, j\<lparr>jos := fs\<rparr>)
             else (Inr a, j\<lparr>jdb := d, jos := fs\<rparr>)))"

text \<open>A query outside a transaction.\<close>

definition dbq :: "env \<Rightarrow> (jdb \<Rightarrow> jerr + 'a) \<Rightarrow> Journal \<Rightarrow> jerr + 'a" where
  "dbq env q j = (if dbf env 0 = DBOk then q (jdb j) else Inl EDb)"

lemma tx_cases [consumes 1, case_names fail ok]:
  assumes "tx env fn j = (r, j')"
  obtains e where "r = Inl e" "j' = j"
  | a d where "fn (jdb j) = Inr (a, d)" "r = Inr a" "j' = j\<lparr>jdb := d\<rparr>"
  using assms by (cases "fn (jdb j)") (auto simp: tx_def split: if_splits)

lemma tx_calm:
  "dbf env 0 = DBOk \<Longrightarrow>
   tx env fn j = (case fn (jdb j) of Inl e \<Rightarrow> (Inl e, j) | Inr (a, d) \<Rightarrow> (Inr a, j\<lparr>jdb := d\<rparr>))"
  by (cases "fn (jdb j)") (auto simp: tx_def)

lemma tx_snd: "\<exists>d. snd (tx env fn j) = j\<lparr>jdb := d\<rparr>"
proof (cases "tx env fn j")
  case (Pair r j')
  then show ?thesis
  proof (cases rule: tx_cases)
    case (fail e)
    then have "snd (tx env fn j) = j\<lparr>jdb := jdb j\<rparr>" using Pair by simp
    then show ?thesis ..
  next
    case (ok a d)
    then show ?thesis using Pair by auto
  qed
qed

lemma tx_rest [simp]:
  "jos (snd (tx env fn j)) = jos j"
  "jdir (snd (tx env fn j)) = jdir j" "owner (snd (tx env fn j)) = owner j"
  "durability (snd (tx env fn j)) = durability j"
  "stagedObjects (snd (tx env fn j)) = stagedObjects j"
  "stagedRefs (snd (tx env fn j)) = stagedRefs j" "copyOpen (snd (tx env fn j)) = copyOpen j"
proof -
  obtain d where "snd (tx env fn j) = j\<lparr>jdb := d\<rparr>" using tx_snd by blast
  then show
    "jos (snd (tx env fn j)) = jos j"
    "jdir (snd (tx env fn j)) = jdir j" "owner (snd (tx env fn j)) = owner j"
    "durability (snd (tx env fn j)) = durability j"
    "stagedObjects (snd (tx env fn j)) = stagedObjects j"
    "stagedRefs (snd (tx env fn j)) = stagedRefs j" "copyOpen (snd (tx env fn j)) = copyOpen j"
    by simp_all
qed

lemma tx_error: "fst (tx env fn j) = Inl e \<Longrightarrow> snd (tx env fn j) = j"
  by (cases "fn (jdb j)") (auto simp: tx_def split: if_splits)

text \<open>
  An invariant of the database that the function keeps is kept by the transaction.
\<close>

lemma tx_inv:
  assumes "P (jdb j)" and "\<And>a d. fn (jdb j) = Inr (a, d) \<Longrightarrow> P d"
  shows "P (jdb (snd (tx env fn j)))"
  using assms by (cases "fn (jdb j)") (auto simp: tx_def)

lemma txf_inv:
  assumes "P (jdb j)" and "\<And>a d fs. fn (jdb j) (jos j) = (Inr (a, d), fs) \<Longrightarrow> P d"
  shows "P (jdb (snd (txf env fn j)))"
  using assms by (cases "fn (jdb j) (jos j)"; cases "fst (fn (jdb j) (jos j))") (auto simp: txf_def)

section \<open>Rows\<close>

definition row_of :: "jdb \<Rightarrow> string \<Rightarrow> urow option" where
  "row_of d uid = sel_one (\<lambda>r. r_id r = uid) (uploads d)"

definition upd_id :: "string \<Rightarrow> (urow \<Rightarrow> urow) \<Rightarrow> jdb \<Rightarrow> jdb" where
  "upd_id uid f d = d\<lparr>uploads := upd_where (\<lambda>r. r_id r = uid) f (uploads d)\<rparr>"

text \<open>\<open>UNION ALL .. LIMIT 1\<close>: the row's state, else purging for a discarded id.\<close>

definition uploadMutationState :: "jdb \<Rightarrow> string \<Rightarrow> State" where
  "uploadMutationState d uid =
     (case row_of d uid of
        Some r \<Rightarrow> r_state r
      | None \<Rightarrow>
          if (\<exists>c \<in> set (upload_discarded d). cl_upload c = uid) then StatePurging else StateEmpty)"

definition guardNotPurging :: "jdb \<Rightarrow> string \<Rightarrow> jerr option" where
  "guardNotPurging d uid =
     (if uploadMutationState d uid = StatePurging then Some ErrUploadPurging else None)"

definition guardNotCancelled :: "jdb \<Rightarrow> string \<Rightarrow> jerr option" where
  "guardNotCancelled d uid =
     (let state = uploadMutationState d uid in
      if state = StatePurging then Some ErrUploadPurging
      else if state = StateCancelled \<or> state = StateCancelling then Some ErrCancelled
      else None)"

text \<open>\<open>if err := guard; err != nil { return err }\<close>\<close>

definition guarded :: "jerr option \<Rightarrow> (jerr + 'a) \<Rightarrow> jerr + 'a" where
  "guarded g r = (case g of Some e \<Rightarrow> Inl e | None \<Rightarrow> r)"

lemma guarded_simps [simp]: "guarded None r = r" "guarded (Some e) r = Inl e"
  by (simp_all add: guarded_def)

lemma guarded_Inr: "guarded g r = Inr v \<longleftrightarrow> g = None \<and> r = Inr v"
  by (cases g) auto

section \<open>Well-formed journals\<close>

text \<open>
  Primary keys are unique, no id is empty and the rowids ascend. A row is purging exactly when it has a cleanup
  intent, an intent always has its row, and a discarded id never has one.
\<close>

definition upload_inv :: "jdb \<Rightarrow> bool" where
  "upload_inv d \<longleftrightarrow>
     distinct (map r_id (uploads d)) \<and>
     sorted_wrt (<) (map r_rowid (uploads d)) \<and>
     distinct (map cl_upload (upload_cleanup d)) \<and>
     (\<forall>r \<in> set (uploads d).
        r_state r = StatePurging \<longleftrightarrow> r_id r \<in> cl_upload ` set (upload_cleanup d)) \<and>
     cl_upload ` set (upload_cleanup d) \<subseteq> r_id ` set (uploads d) \<and>
     cl_upload ` set (upload_discarded d) \<inter> r_id ` set (uploads d) = {} \<and>
     [] \<notin> r_id ` set (uploads d)"

definition side_inv :: "jdb \<Rightarrow> bool" where
  "side_inv d \<longleftrightarrow>
     distinct (map (\<lambda>p. (pt_upload p, p_Index (pt_part p))) (upload_parts d)) \<and>
     distinct (map dl_upload (dead_letter d)) \<and>
     distinct (map uc_upload (upload_cancellation d)) \<and>
     distinct (map (\<lambda>h. (rh_upload h, rh_revision h)) (upload_resume_history d)) \<and>
     distinct (map cl_upload (upload_discarded d))"

text \<open>Two active copies never share a destination, and neither do two open server copies.\<close>

definition copy_active :: "copy_row \<Rightarrow> bool" where
  "copy_active c \<longleftrightarrow> cj_state c = CopyPreparing \<or> cj_state c = CopyReady"

definition copy_dest :: "copy_row \<Rightarrow> string \<times> string \<times> string" where
  "copy_dest c = (cj_target_remote c, cj_target_parent c, cj_target_name c)"

definition server_dest :: "server_copy_row \<Rightarrow> string \<times> string \<times> string" where
  "server_dest c = (sc_target_remote c, sc_target_parent c, sc_target_name c)"

definition copy_inv :: "jdb \<Rightarrow> bool" where
  "copy_inv d \<longleftrightarrow>
     distinct (map cj_id (copy_jobs d)) \<and>
     distinct (map cc_id (copy_cleanup d)) \<and>
     distinct (map copy_dest (filter copy_active (copy_jobs d))) \<and>
     distinct (map sc_id (server_copies d)) \<and>
     distinct (map server_dest (server_copies d))"

definition db_inv :: "jdb \<Rightarrow> bool" where
  "db_inv d \<longleftrightarrow> upload_inv d \<and> side_inv d \<and> copy_inv d"

definition empty_db :: jdb where
  "empty_db = \<lparr>uploads = [], upload_parts = [], dead_letter = [], upload_cancellation = [],
     upload_resume_history = [], upload_cleanup = [], upload_discarded = [], copy_jobs = [],
     copy_cleanup = [], server_copies = []\<rparr>"

lemma empty_db_inv: "db_inv empty_db"
  by (simp add: db_inv_def upload_inv_def side_inv_def copy_inv_def empty_db_def)

lemma tx_db_inv:
  assumes "db_inv (jdb j)" and "\<And>a d. fn (jdb j) = Inr (a, d) \<Longrightarrow> db_inv (jdb j) \<Longrightarrow> db_inv d"
  shows "db_inv (jdb (snd (tx env fn j)))"
  by (rule tx_inv [where P = db_inv]) (use assms in auto)

lemma txf_db_inv:
  assumes "db_inv (jdb j)"
    and "\<And>a d fs. fn (jdb j) (jos j) = (Inr (a, d), fs) \<Longrightarrow> db_inv (jdb j) \<Longrightarrow> db_inv d"
  shows "db_inv (jdb (snd (txf env fn j)))"
  by (rule txf_inv [where P = db_inv]) (use assms in auto)

lemma upload_inv_ids: "upload_inv d \<Longrightarrow> distinct (map r_id (uploads d))"
  by (simp add: upload_inv_def)

lemma upload_inv_purging:
  "upload_inv d \<Longrightarrow> r \<in> set (uploads d) \<Longrightarrow>
   r_state r = StatePurging \<longleftrightarrow> r_id r \<in> cl_upload ` set (upload_cleanup d)"
  by (simp add: upload_inv_def)

lemma upload_inv_intents: "upload_inv d \<Longrightarrow> cl_upload ` set (upload_cleanup d) \<subseteq> r_id ` set (uploads d)"
  by (simp add: upload_inv_def)

lemma upload_inv_discarded:
  "upload_inv d \<Longrightarrow> cl_upload ` set (upload_discarded d) \<inter> r_id ` set (uploads d) = {}"
  by (simp add: upload_inv_def)

lemma upload_inv_nonempty: "upload_inv d \<Longrightarrow> r \<in> set (uploads d) \<Longrightarrow> r_id r \<noteq> []"
  unfolding upload_inv_def by (metis image_eqI)

lemma row_of_iff:
  "upload_inv d \<Longrightarrow> row_of d uid = Some r \<longleftrightarrow> r \<in> set (uploads d) \<and> r_id r = uid"
  unfolding row_of_def by (simp add: sel_one_key_iff upload_inv_ids)

lemma row_of_SomeD: "row_of d uid = Some r \<Longrightarrow> r \<in> set (uploads d) \<and> r_id r = uid"
  unfolding row_of_def by (rule sel_one_SomeD)

lemma row_of_None_iff: "row_of d uid = None \<longleftrightarrow> uid \<notin> r_id ` set (uploads d)"
  unfolding row_of_def sel_one_None_iff by auto

lemma purging_iff_intent:
  assumes "upload_inv d" "row_of d uid = Some r"
  shows "r_state r = StatePurging \<longleftrightarrow> uid \<in> cl_upload ` set (upload_cleanup d)"
  using assms row_of_SomeD by (fastforce simp: upload_inv_def)

lemma guard_row:
  "guardNotPurging d uid = None \<Longrightarrow> row_of d uid = Some r \<Longrightarrow> r_state r \<noteq> StatePurging"
  by (simp add: guardNotPurging_def uploadMutationState_def split: if_splits)

lemma guard_cancel_row:
  "guardNotCancelled d uid = None \<Longrightarrow> row_of d uid = Some r \<Longrightarrow>
   r_state r \<notin> {StatePurging, StateCancelled, StateCancelling}"
  by (simp add: guardNotCancelled_def uploadMutationState_def Let_def split: if_splits)

lemma guard_cancel_purging: "guardNotCancelled d uid = None \<Longrightarrow> guardNotPurging d uid = None"
  by (simp add: guardNotCancelled_def guardNotPurging_def Let_def split: if_splits)

lemma guard_discarded:
  assumes "upload_inv d" "uid \<in> cl_upload ` set (upload_discarded d)"
  shows "guardNotPurging d uid = Some ErrUploadPurging"
    and "guardNotCancelled d uid = Some ErrUploadPurging"
proof -
  have "row_of d uid = None"
    using assms by (auto simp: row_of_None_iff upload_inv_def)
  then have "uploadMutationState d uid = StatePurging"
    using assms(2) by (auto simp: uploadMutationState_def)
  then show "guardNotPurging d uid = Some ErrUploadPurging"
    and "guardNotCancelled d uid = Some ErrUploadPurging"
    by (simp_all add: guardNotPurging_def guardNotCancelled_def)
qed

text \<open>What an edit of one table leaves alone.\<close>

named_theorems inv_frame \<open>invariants do not read the tables that an edit changes\<close>

lemma upload_inv_frame [inv_frame]:
  "upload_inv (upload_parts_update f d) = upload_inv d"
  "upload_inv (dead_letter_update f2 d) = upload_inv d"
  "upload_inv (upload_cancellation_update f3 d) = upload_inv d"
  "upload_inv (upload_resume_history_update f4 d) = upload_inv d"
  "upload_inv (copy_jobs_update f5 d) = upload_inv d"
  "upload_inv (copy_cleanup_update f6 d) = upload_inv d"
  "upload_inv (server_copies_update f7 d) = upload_inv d"
  by (simp_all add: upload_inv_def)

lemma side_inv_frame [inv_frame]:
  "side_inv (uploads_update f d) = side_inv d"
  "side_inv (upload_cleanup_update f1 d) = side_inv d"
  "side_inv (copy_jobs_update f5 d) = side_inv d"
  "side_inv (copy_cleanup_update f6 d) = side_inv d"
  "side_inv (server_copies_update f7 d) = side_inv d"
  by (simp_all add: side_inv_def)

lemma copy_inv_frame [inv_frame]:
  "copy_inv (uploads_update f d) = copy_inv d"
  "copy_inv (upload_parts_update f1 d) = copy_inv d"
  "copy_inv (dead_letter_update f2 d) = copy_inv d"
  "copy_inv (upload_cancellation_update f3 d) = copy_inv d"
  "copy_inv (upload_resume_history_update f4 d) = copy_inv d"
  "copy_inv (upload_cleanup_update f5 d) = copy_inv d"
  "copy_inv (upload_discarded_update f6 d) = copy_inv d"
  by (simp_all add: copy_inv_def)

lemma upd_id_frame [inv_frame]:
  "side_inv (upd_id uid f d) = side_inv d" "copy_inv (upd_id uid f d) = copy_inv d"
  by (simp_all add: upd_id_def inv_frame)

lemma upd_id_simps [simp]:
  "upload_parts (upd_id uid f d) = upload_parts d" "dead_letter (upd_id uid f d) = dead_letter d"
  "upload_cancellation (upd_id uid f d) = upload_cancellation d"
  "upload_resume_history (upd_id uid f d) = upload_resume_history d"
  "upload_cleanup (upd_id uid f d) = upload_cleanup d"
  "upload_discarded (upd_id uid f d) = upload_discarded d"
  "copy_jobs (upd_id uid f d) = copy_jobs d" "copy_cleanup (upd_id uid f d) = copy_cleanup d"
  "server_copies (upd_id uid f d) = server_copies d"
  "uploads (upd_id uid f d) = upd_where (\<lambda>r. r_id r = uid) f (uploads d)"
  by (simp_all add: upd_id_def)

text \<open>
  An update of one row keeps the invariant when it keeps the keys and does not touch purging,
  neither taking the row there nor away from there.
\<close>

definition keeps_keys :: "(urow \<Rightarrow> urow) \<Rightarrow> bool" where
  "keeps_keys f \<longleftrightarrow> (\<forall>r. r_id (f r) = r_id r \<and> r_rowid (f r) = r_rowid r)"

lemma ids_upd_where: "keeps_keys f \<Longrightarrow> map r_id (upd_where p f rs) = map r_id rs"
  by (rule map_upd_where_same) (simp add: keeps_keys_def)

lemma rowids_upd_where: "keeps_keys f \<Longrightarrow> map r_rowid (upd_where p f rs) = map r_rowid rs"
  by (rule map_upd_where_same) (simp add: keeps_keys_def)

lemma id_set_upd_where: "keeps_keys f \<Longrightarrow> r_id ` set (upd_where p f rs) = r_id ` set rs"
  using arg_cong [OF ids_upd_where, of f set p rs] by simp

lemma row_of_upd_id:
  assumes "keeps_keys f"
  shows "row_of (upd_id uid f d) x = (if x = uid then map_option f (row_of d x) else row_of d x)"
proof -
  have "sel_one (\<lambda>r. r_id r = x) (upd_where (\<lambda>r. r_id r = uid) f rs) =
      (if x = uid then map_option f (sel_one (\<lambda>r. r_id r = x) rs) else sel_one (\<lambda>r. r_id r = x) rs)"
    for rs
    using assms by (induction rs) (auto simp: keeps_keys_def)
  then show ?thesis by (simp add: row_of_def)
qed

lemma upd_where_inv:
  assumes inv: "upload_inv d" and f: "keeps_keys f"
    and st: "\<And>r. r \<in> set (uploads d) \<Longrightarrow> p r \<Longrightarrow>
      (r_state (f r) = StatePurging) = (r_state r = StatePurging)"
  shows "upload_inv (d\<lparr>uploads := upd_where p f (uploads d)\<rparr>)"
proof -
  have "(r_state r = StatePurging) = (r_id r \<in> cl_upload ` set (upload_cleanup d))"
    if "r \<in> set (upd_where p f (uploads d))" for r
    using that inv st f unfolding in_upd_where_iff upload_inv_def keeps_keys_def by metis
  then show ?thesis
    using inv f by (simp add: upload_inv_def ids_upd_where rowids_upd_where id_set_upd_where)
qed

lemma upd_id_inv:
  assumes "upload_inv d" and "keeps_keys f"
    and "\<And>r. row_of d uid = Some r \<Longrightarrow> (r_state (f r) = StatePurging) = (r_state r = StatePurging)"
  shows "upload_inv (upd_id uid f d)"
  unfolding upd_id_def using assms by (intro upd_where_inv) (auto simp: row_of_iff)

text \<open>Deleting rows that are not purging keeps the invariant.\<close>

lemma del_where_inv:
  assumes inv: "upload_inv d"
    and p: "\<And>r. r \<in> set (uploads d) \<Longrightarrow> p r \<Longrightarrow> r_state r \<noteq> StatePurging"
  shows "upload_inv (d\<lparr>uploads := del_where p (uploads d)\<rparr>)"
proof -
  have sub: "set (del_where p (uploads d)) \<subseteq> set (uploads d)" by (auto simp: table_simps)
  have intents: "cl_upload ` set (upload_cleanup d) \<subseteq> r_id ` set (del_where p (uploads d))"
  proof
    fix x assume x: "x \<in> cl_upload ` set (upload_cleanup d)"
    have "x \<in> r_id ` set (uploads d)" using upload_inv_intents [OF inv] x by (rule subsetD)
    then obtain r where r: "r \<in> set (uploads d)" "r_id r = x" by auto
    have "r_state r = StatePurging" using upload_inv_purging [OF inv r(1)] x r(2) by simp
    then have "r \<in> set (del_where p (uploads d))" using p r by (auto simp: table_simps)
    then show "x \<in> r_id ` set (del_where p (uploads d))" using r by blast
  qed
  have rows: "sorted_wrt (<) (map r_rowid (del_where p (uploads d)))"
    using inv by (simp add: upload_inv_def del_where_def sorted_wrt_map sorted_wrt_filter)
  have disc: "cl_upload ` set (upload_discarded d) \<inter> r_id ` set (del_where p (uploads d)) = {}"
    using upload_inv_discarded [OF inv] sub by blast
  have purging: "\<forall>r \<in> set (del_where p (uploads d)).
      r_state r = StatePurging \<longleftrightarrow> r_id r \<in> cl_upload ` set (upload_cleanup d)"
    using upload_inv_purging [OF inv] sub by blast
  have "distinct (map r_id (del_where p (uploads d)))" "distinct (map cl_upload (upload_cleanup d))"
    using inv by (auto simp: upload_inv_def)
  moreover have "[] \<notin> r_id ` set (del_where p (uploads d))"
    using inv sub by (auto simp: upload_inv_def)
  ultimately show ?thesis
    using intents rows disc purging unfolding upload_inv_def by simp
qed

lemma db_invI: "upload_inv d \<Longrightarrow> side_inv d \<Longrightarrow> copy_inv d \<Longrightarrow> db_inv d"
  by (simp add: db_inv_def)

lemma db_invD: "db_inv d \<Longrightarrow> upload_inv d" "db_inv d \<Longrightarrow> side_inv d" "db_inv d \<Longrightarrow> copy_inv d"
  by (simp_all add: db_inv_def)

end
