(* ===== verification/JournalGC.thy ===== *)
theory JournalGC
  imports JournalDB
begin

text \<open>
  Who still needs a payload, and the garbage collection of payloads nobody needs:
  \<open>uploadBlobReferenced\<close>, \<open>uploadCleanupShared\<close> and \<open>checkDiscardedPayload\<close> of
  \<open>cleanup_upload.go\<close>, \<open>checkCopyUploadOwner\<close> of \<open>copy_cleanup.go\<close> and
  \<open>removeBlobIfUnreferenced\<close> of \<open>journal.go\<close>. The main fact is that collecting one
  path never changes the payload of a row that is still in the table.
\<close>

section \<open>References\<close>

fun blob_refs_loop :: "env \<Rightarrow> osfs \<Rightarrow> string \<Rightarrow> fileinfo option \<Rightarrow> urow list \<Rightarrow> jerr + bool" where
  "blob_refs_loop env fs absolutePath info [] = Inr False"
| "blob_refs_loop env fs absolutePath info (r # rs) =
     (let other = r_blob_path r in
      if other = [] then blob_refs_loop env fs absolutePath info rs
      else
        (case filepath_abs fs other of
           None \<Rightarrow> Inl (EOs EIO)
         | Some a \<Rightarrow>
             if a = absolutePath then Inr True
             else
               (case info of
                  None \<Rightarrow> blob_refs_loop env fs absolutePath info rs
                | Some i \<Rightarrow>
                    (case os_stat env fs other of
                       Inr oi \<Rightarrow>
                         if same_file i oi then Inr True
                         else blob_refs_loop env fs absolutePath info rs
                     | Inl e \<Rightarrow>
                         if e = ENOENT then blob_refs_loop env fs absolutePath info rs
                         else Inl (EOs e)))))"

definition uploadBlobReferenced ::
  "env \<Rightarrow> osfs \<Rightarrow> jdb \<Rightarrow> string \<Rightarrow> string \<Rightarrow> fileinfo option \<Rightarrow> jerr + bool" where
  "uploadBlobReferenced env fs d excludeID absolutePath info =
     blob_refs_loop env fs absolutePath info
       (sel_where (\<lambda>r. excludeID = [] \<or> r_id r \<noteq> excludeID) (uploads d))"

text \<open>An answer no clears every row: other path, other inode.\<close>

definition clears :: "osfs \<Rightarrow> string \<Rightarrow> fileinfo option \<Rightarrow> urow \<Rightarrow> bool" where
  "clears fs a info r \<longleftrightarrow>
     r_blob_path r = [] \<or>
     (filepath_abs fs (r_blob_path r) \<noteq> None \<and> filepath_abs fs (r_blob_path r) \<noteq> Some a \<and>
      (\<forall>i. info = Some i \<longrightarrow> map_option fst (resolve fs (r_blob_path r)) \<noteq> Some (fi_ino i)))"

lemma blob_refs_loop_False:
  "blob_refs_loop env fs a info rs = Inr False \<Longrightarrow> r \<in> set rs \<Longrightarrow> clears fs a info r"
proof (induction rs)
  case (Cons q rs)
  show ?case
  proof (cases "r = q")
    case False
    then show ?thesis
      using Cons by (auto simp: Let_def split: if_splits option.splits sum.splits)
  next
    case True
    then show ?thesis
      using Cons.prems(1)
      by (auto simp: clears_def Let_def os_stat_def same_file_def node_info_def
        split: if_splits option.splits sum.splits)
  qed
qed simp

lemma uploadBlobReferenced_False:
  assumes "uploadBlobReferenced env fs d ex a info = Inr False"
    and "r \<in> set (uploads d)" and "ex = [] \<or> r_id r \<noteq> ex"
  shows "clears fs a info r"
  using blob_refs_loop_False [OF assms(1) [unfolded uploadBlobReferenced_def]] assms(2,3)
  by (simp add: table_simps)

text \<open>The copy jobs and cleanup intents that still own a private payload.\<close>

definition copy_refs :: "jdb \<Rightarrow> string \<Rightarrow> nat" where
  "copy_refs d uid =
     cnt_where (\<lambda>c. cj_id c = uid \<and> cj_state c \<noteq> CopySubmitted) (copy_jobs d) +
     cnt_where (\<lambda>c. cc_id c = uid) (copy_cleanup d)"

definition checkCopyUploadOwner :: "env \<Rightarrow> Journal \<Rightarrow> jdb \<Rightarrow> string \<Rightarrow> jerr option" where
  "checkCopyUploadOwner env j d blob =
     (case (jabs j blob, jabs j (CopiesDir j)) of
        (Some p, Some dir) \<Rightarrow>
          if path_dir p \<noteq> dir then None
          else
            (let uid = trim_suffix (path_base p) ''.part'' in
             if copyPath env j uid \<noteq> Inr p then Some ErrCopyCorrupt
             else if cnt_where (\<lambda>c. cj_id c = uid) (copy_jobs d) = 0 then Some ErrCopyState
             else None)
      | _ \<Rightarrow> Some (EOs EIO))"

definition checkDiscardedPayload :: "env \<Rightarrow> Journal \<Rightarrow> jdb \<Rightarrow> string \<Rightarrow> jerr option" where
  "checkDiscardedPayload env j d blob =
     (case jabs j blob of
        None \<Rightarrow> Some (EOs EIO)
      | Some p \<Rightarrow>
          if cnt_where (\<lambda>c. cl_blob_path c = p) (upload_discarded d) = 0 then None
          else
            (case os_lstat env (jos j) p of
               Inl e \<Rightarrow> Some ErrUploadPurging
             | Inr info \<Rightarrow> if is_regular info then None else Some ErrUploadPurging))"

section \<open>Collection\<close>

definition gc_tx :: "env \<Rightarrow> string \<Rightarrow> string \<Rightarrow> jdb \<Rightarrow> osfs \<Rightarrow> (jerr + (unit \<times> jdb)) \<times> osfs" where
  "gc_tx env copyID absBlob d fs =
     (case os_stat env fs absBlob of
        Inl e \<Rightarrow> (Inl (EOs e), fs)
      | Inr info \<Rightarrow>
          (case uploadBlobReferenced env fs d [] absBlob (Some info) of
             Inl e \<Rightarrow> (Inl e, fs)
           | Inr shared \<Rightarrow>
               if shared then (Inr ((), d), fs)
               else if copyID \<noteq> [] \<and> copy_refs d copyID > 0 then (Inr ((), d), fs)
               else
                 (case os_remove env fs absBlob of
                    (Some e, fs') \<Rightarrow> (Inl (EOs e), fs')
                  | (None, fs') \<Rightarrow> (Inr ((), d), fs'))))"

text \<open>
  Which path collection may unlink: one in the objects directory, or the exact private name of a
  copy. The answer is the copy id, empty for an object.
\<close>

definition gc_authority :: "env \<Rightarrow> Journal \<Rightarrow> string \<Rightarrow> (string \<times> string) option" where
  "gc_authority env j blob =
     (case (jabs j (CopiesDir j), jabs j blob, jabs j (ObjectsDir j)) of
        (Some copyDir, Some absBlob, Some objectDir) \<Rightarrow>
          if path_dir absBlob = copyDir then
            (let uid = trim_suffix (path_base absBlob) ''.part'' in
             if copyPath env j uid = Inr absBlob then Some (absBlob, uid) else None)
          else if path_dir absBlob \<noteq> objectDir then None
          else Some (absBlob, [])
      | _ \<Rightarrow> None)"

definition removeBlobIfUnreferenced :: "env \<Rightarrow> Journal \<Rightarrow> string \<Rightarrow> Journal" where
  "removeBlobIfUnreferenced env j blob =
     (if blob = [] then j
      else
        (case gc_authority env j blob of
           None \<Rightarrow> j
         | Some (absBlob, copyID) \<Rightarrow>
             if stagedRefs j absBlob > 0 then j
             else snd (txf env (gc_tx env copyID absBlob) j)))"

section \<open>What collection keeps\<close>

text \<open>The node and the bytes a row's path leads to.\<close>

definition payload :: "osfs \<Rightarrow> urow \<Rightarrow> (fnode \<times> byte list) option" where
  "payload fs r = map_option (\<lambda>n. (n, os_data fs (fst n))) (resolve fs (r_blob_path r))"

lemma gc_tx_db: "fst (gc_tx env cid a d fs) = Inr (u, d') \<Longrightarrow> d' = d"
  by (auto simp: gc_tx_def split: sum.splits if_splits prod.splits option.splits)

text \<open>The file system after collection: unchanged, or one name less that no row needs.\<close>

definition gc_effect :: "jdb \<Rightarrow> (string \<Rightarrow> nat) \<Rightarrow> osfs \<Rightarrow> osfs \<Rightarrow> bool" where
  "gc_effect d staged fs fs' \<longleftrightarrow>
     fs' = fs \<or>
     (\<exists>a n. staged a = 0 \<and> follow 40 fs a = Some n \<and> fs' = del_name a fs \<and>
        (\<forall>r \<in> set (uploads d). clears fs a (Some (node_info fs n)) r))"

lemma gc_tx_effect:
  assumes "filepath_abs fs a = Some a" "staged a = 0"
  shows "gc_effect d staged fs (snd (gc_tx env cid a d fs))"
proof (cases "snd (gc_tx env cid a d fs) = fs")
  case False
  obtain info where info: "os_stat env fs a = Inr info"
    using False by (cases "os_stat env fs a") (auto simp: gc_tx_def)
  have ref: "uploadBlobReferenced env fs d [] a (Some info) = Inr False"
  proof (cases "uploadBlobReferenced env fs d [] a (Some info)")
    case (Inr b)
    then show ?thesis using False info by (cases b) (auto simp: gc_tx_def)
  qed (use False info in \<open>auto simp: gc_tx_def\<close>)
  have rem: "snd (gc_tx env cid a d fs) = snd (os_remove env fs a)"
    using False info ref by (auto simp: gc_tx_def split: prod.split option.split if_splits)
  then have "fst (os_remove env fs a) = None"
    using os_remove_fail [of env fs a] False by fastforce
  then have del: "snd (gc_tx env cid a d fs) = del_name a fs"
    using os_remove_ok [of env fs a] assms(1) rem by auto
  obtain n where "follow 40 fs a = Some n" "info = node_info fs n"
    using info assms(1) by (auto simp: os_stat_def resolve_def split: if_splits option.splits)
  then show ?thesis
    unfolding gc_effect_def using del ref uploadBlobReferenced_False assms(2) by blast
qed (simp add: gc_effect_def)

lemma gc_effect_payload:
  assumes "gc_effect d staged fs fs'" "r \<in> set (uploads d)" "r_blob_path r \<noteq> []"
  shows "payload fs' r = payload fs r"
proof (cases "fs' = fs")
  case False
  then obtain a n where eff: "follow 40 fs a = Some n" "fs' = del_name a fs"
      "clears fs a (Some (node_info fs n)) r"
    using assms(1,2) unfolding gc_effect_def by blast
  then have "resolve fs' (r_blob_path r) = resolve fs (r_blob_path r)"
    using assms(3) by (auto simp: clears_def node_info_def intro: resolve_del_name)
  then show ?thesis using eff by (simp add: payload_def)
qed simp

lemma gc_effect_staged:
  assumes "gc_effect d staged fs fs'" "staged a > 0"
  shows "map_of (os_names fs') a = map_of (os_names fs) a"
  using assms by (auto simp: gc_effect_def)

lemma gc_effect_refl [simp]: "gc_effect d staged fs fs"
  by (simp add: gc_effect_def)

lemma gc_authority_abs: "gc_authority env j blob = Some (a, cid) \<Longrightarrow> filepath_abs fs a = Some a"
  by (auto simp: gc_authority_def jabs_def Let_def split: option.splits if_splits
    intro: filepath_abs_idem)

lemma gc_authority_jdb [simp]:
  "gc_authority (after n env) j = gc_authority env j"
  "gc_authority env (j\<lparr>jdb := d\<rparr>) = gc_authority env j"
  by (intro ext, simp only: gc_authority_def jdb_paths)+

lemma txf_db_same:
  assumes "\<And>a d fs. fn (jdb j) (jos j) = (Inr (a, d), fs) \<Longrightarrow> d = jdb j"
  shows "snd (txf env fn j) = j \<or>
         snd (txf env fn j) = j\<lparr>jos := snd (fn (jdb j) (jos j))\<rparr>"
proof -
  obtain r fs where fn: "fn (jdb j) (jos j) = (r, fs)" by (cases "fn (jdb j) (jos j)")
  show ?thesis
  proof (cases r)
    case (Inr v)
    obtain a d where v: "v = (a, d)" by (cases v)
    then have "d = jdb j" using assms fn Inr by blast
    then show ?thesis using fn Inr v by (simp add: txf_def)
  qed (simp add: txf_def fn)
qed

lemma removeBlob_effect:
  obtains fs where "removeBlobIfUnreferenced env j blob = j\<lparr>jos := fs\<rparr>"
    and "gc_effect (jdb j) (stagedRefs j) (jos j) fs"
proof (cases "removeBlobIfUnreferenced env j blob = j")
  case True
  then have "removeBlobIfUnreferenced env j blob = j\<lparr>jos := jos j\<rparr>" by simp
  then show ?thesis using that gc_effect_refl by blast
next
  case False
  then obtain a cid where auth: "gc_authority env j blob = Some (a, cid)" and st: "stagedRefs j a = 0"
      and run: "removeBlobIfUnreferenced env j blob = snd (txf env (gc_tx env cid a) j)"
    by (auto simp: removeBlobIfUnreferenced_def split: if_splits option.splits)
  have "snd (txf env (gc_tx env cid a) j) = j \<or>
        snd (txf env (gc_tx env cid a) j) = j\<lparr>jos := snd (gc_tx env cid a (jdb j) (jos j))\<rparr>"
    by (rule txf_db_same) (metis gc_tx_db fst_conv)
  then show ?thesis
    using that gc_tx_effect [of "jos j" a "stagedRefs j" "jdb j" env cid,
        OF gc_authority_abs [OF auth] st] run False by metis
qed

lemma removeBlob_jdb [simp]: "jdb (removeBlobIfUnreferenced env j blob) = jdb j"
  by (rule removeBlob_effect [of env j blob]) simp

lemma removeBlob_rest [simp]:
  "jdir (removeBlobIfUnreferenced env j blob) = jdir j"
  "owner (removeBlobIfUnreferenced env j blob) = owner j"
  "durability (removeBlobIfUnreferenced env j blob) = durability j"
  "stagedObjects (removeBlobIfUnreferenced env j blob) = stagedObjects j"
  "stagedRefs (removeBlobIfUnreferenced env j blob) = stagedRefs j"
  "copyOpen (removeBlobIfUnreferenced env j blob) = copyOpen j"
  by (rule removeBlob_effect [of env j blob]; simp)+

lemma removeBlob_payload:
  assumes "r \<in> set (uploads (jdb j))" "r_blob_path r \<noteq> []"
  shows "payload (jos (removeBlobIfUnreferenced env j blob)) r = payload (jos j) r"
  by (rule removeBlob_effect [of env j blob]) (use assms gc_effect_payload in \<open>auto\<close>)

lemma removeBlob_staged:
  assumes "stagedRefs j a > 0"
  shows "map_of (os_names (jos (removeBlobIfUnreferenced env j blob))) a = map_of (os_names (jos j)) a"
  by (rule removeBlob_effect [of env j blob]) (use assms gc_effect_staged in \<open>auto\<close>)

text \<open>Collection does happen: with no fault and no other owner the name goes away.\<close>

lemma blob_refs_loop_clear:
  assumes "calm env" "\<forall>r \<in> set rs. clears fs a info r"
  shows "blob_refs_loop env fs a info rs = Inr False"
  using assms(2)
proof (induction rs)
  case (Cons r rs)
  then have r: "clears fs a info r" and IH: "blob_refs_loop env fs a info rs = Inr False" by auto
  show ?case
  proof (cases "r_blob_path r = []")
    case False
    then obtain b where b: "filepath_abs fs (r_blob_path r) = Some b" "b \<noteq> a"
      and i: "\<And>i. info = Some i \<Longrightarrow> map_option fst (resolve fs (r_blob_path r)) \<noteq> Some (fi_ino i)"
      using r unfolding clears_def by auto
    have stat: "os_stat env fs (r_blob_path r) =
        (case resolve fs (r_blob_path r) of None \<Rightarrow> Inl ENOENT | Some n \<Rightarrow> Inr (node_info fs n))"
      using calmD(2) [OF assms(1)] by (simp add: os_stat_def)
    show ?thesis
    proof (cases info)
      case None
      then show ?thesis using False b IH by simp
    next
      case (Some x)
      then show ?thesis
        using False b IH stat i [OF Some]
        by (cases "resolve fs (r_blob_path r)") (auto simp: same_file_def node_info_def)
    qed
  qed (simp add: IH)
qed simp

lemma removeBlob_releases:
  assumes "calm env" "blob \<noteq> []" and auth: "gc_authority env j blob = Some (a, cid)"
    and st: "stagedRefs j a = 0" and fil: "map_of (os_names (jos j)) a = Some (i, KReg)"
    and own: "\<forall>r \<in> set (uploads (jdb j)). clears (jos j) a (Some (node_info (jos j) (i, KReg))) r"
    and cid: "cid \<noteq> [] \<Longrightarrow> copy_refs (jdb j) cid = 0"
  shows "map_of (os_names (jos (removeBlobIfUnreferenced env j blob))) a = None"
proof -
  have abs: "filepath_abs (jos j) a = Some a" by (rule gc_authority_abs [OF auth])
  have stat: "os_stat env (jos j) a = Inr (node_info (jos j) (i, KReg))"
    using assms(1) abs follow_regular [OF fil] by (simp add: os_stat_def resolve_def)
  have ref: "uploadBlobReferenced env (jos j) (jdb j) [] a (Some (node_info (jos j) (i, KReg))) = Inr False"
    unfolding uploadBlobReferenced_def
    using own by (intro blob_refs_loop_clear [OF assms(1)]) (simp add: table_simps)
  have rem: "os_remove env (jos j) a = (None, del_name a (jos j))"
    using assms(1) abs fil by (simp add: os_remove_def)
  have "gc_tx env cid a (jdb j) (jos j) = (Inr ((), jdb j), del_name a (jos j))"
    using cid by (auto simp: gc_tx_def stat ref rem)
  then show ?thesis
    using assms(1,2) auth st by (simp add: removeBlobIfUnreferenced_def txf_def)
qed

end
