(* ===== verification/JournalQueue.thy ===== *)
theory JournalQueue
  imports "HOL-Library.Product_Lexorder" JournalGC
begin

text \<open>
  The operations of the upload queue: \<open>journal.go\<close>, the group commit of \<open>group.go\<close>,
  cancellation (\<open>cancel.go\<close>), publication (\<open>publication.go\<close>) and paging (\<open>list.go\<close>).
  An operation takes the environment and the journal and returns its result with the journal after
  it. The clock is read once per operation.
\<close>

section \<open>Commit\<close>

definition releaseStagedObject :: "Journal \<Rightarrow> string \<Rightarrow> string \<Rightarrow> Journal" where
  "releaseStagedObject j uid blob =
     (if uid = [] then j
      else
        (case jabs j blob of
           None \<Rightarrow> j
         | Some absBlob \<Rightarrow>
             if stagedObjects j uid \<noteq> Some absBlob then j
             else j\<lparr>stagedObjects := (stagedObjects j)(uid := None),
                    stagedRefs := (stagedRefs j)(absBlob := stagedRefs j absBlob - 1)\<rparr>))"

definition next_rowid :: "urow list \<Rightarrow> nat" where
  "next_rowid rs = Suc (foldr (\<lambda>r m. max (r_rowid r) m) rs 0)"

definition bindings_of :: "Upload \<Rightarrow> string list" where
  "bindings_of u = [u_MetaIdentity u, u_MountPrefix u, u_MountRootID u, u_AccountBinding u]"

definition bad_binding :: "string \<Rightarrow> bool" where
  "bad_binding v \<longleftrightarrow> length v > 8192 \<or> CHR 0x00 \<in> set v"

text \<open>The row an INSERT makes; \<open>tombstone\<close> and \<open>done_at\<close> take their defaults.\<close>

definition new_row :: "nat \<Rightarrow> Upload \<Rightarrow> urow" where
  "new_row rid u =
     \<lparr>r_rowid = rid, r_id = u_ID u, r_remote = u_Remote u,
      r_remote_parent_id = u_RemoteParentID u, r_name = u_Name u, r_blob_path = u_BlobPath u,
      r_size = u_Size u, r_hashes = u_Hashes u, r_state = u_State u, r_attempt = u_Attempt u,
      r_next_retry_at = unixMilli (u_NextRetryAt u), r_last_error = u_LastError u,
      r_expected_version = u_ExpectedVersion u, r_session = u_Session u, r_ino = u_Ino u,
      r_created_at = time_unix (u_CreatedAt u), r_tombstone = False,
      r_needs_publish = u_NeedsPublish u, r_meta_identity = u_MetaIdentity u,
      r_mount_prefix = u_MountPrefix u, r_mount_root_id = u_MountRootID u,
      r_account_binding = u_AccountBinding u, r_done_at = 0\<rparr>"

text \<open>\<open>ON CONFLICT(id) DO UPDATE\<close>: attempts, retry time, session and age stay.\<close>

definition upsert_row :: "Upload \<Rightarrow> urow \<Rightarrow> urow" where
  "upsert_row u r =
     r\<lparr>r_remote := u_Remote u, r_remote_parent_id := u_RemoteParentID u, r_name := u_Name u,
       r_blob_path := u_BlobPath u, r_size := u_Size u, r_hashes := u_Hashes u,
       r_state := u_State u, r_expected_version := u_ExpectedVersion u, r_ino := u_Ino u,
       r_needs_publish := u_NeedsPublish u, r_meta_identity := u_MetaIdentity u,
       r_mount_prefix := u_MountPrefix u, r_mount_root_id := u_MountRootID u,
       r_account_binding := u_AccountBinding u\<rparr>"

definition upsert_upload :: "Upload \<Rightarrow> jdb \<Rightarrow> jdb" where
  "upsert_upload u d =
     (case row_of d (u_ID u) of
        Some r \<Rightarrow> upd_id (u_ID u) (upsert_row u) d
      | None \<Rightarrow> d\<lparr>uploads := uploads d @ [new_row (next_rowid (uploads d)) u]\<rparr>)"

definition insertUploadTx :: "env \<Rightarrow> Journal \<Rightarrow> Upload \<Rightarrow> jdb \<Rightarrow> jerr + (unit \<times> jdb)" where
  "insertUploadTx env j u d =
     guarded (guardNotCancelled d (u_ID u))
      (if u_State u = StatePurging then Inl ErrUploadCleanupState
       else
         guarded (checkCopyUploadOwner env j d (u_BlobPath u))
          (guarded (checkDiscardedPayload env j d (u_BlobPath u))
            (if u_ID u = [] then Inl ENeedsID
             else
               (let u' = u\<lparr>u_State := (if u_State u = StateEmpty then StatePending else u_State u),
                          u_CreatedAt := (if u_CreatedAt u = zero_time then now env else u_CreatedAt u)\<rparr>;
                    bound = length (filter (\<lambda>v. v \<noteq> []) (bindings_of u)) in
                if list_ex bad_binding (bindings_of u) then Inl EBinding
                else if bound \<noteq> 0 \<and> bound \<noteq> length (bindings_of u) then Inl EBinding
                else Inr ((), upsert_upload u' d)))))"

definition syncObjects :: "env \<Rightarrow> Journal \<Rightarrow> jerr option" where
  "syncObjects env j =
     (if durability j = DurabilityCrash then None
      else
        (case os_open env (jos j) (ObjectsDir j) of
           Inl e \<Rightarrow> Some (EOs e)
         | Inr f \<Rightarrow> if osfail env CSync (ObjectsDir j) then Some (EOs EIO) else None))"

fun insert_all :: "env \<Rightarrow> Journal \<Rightarrow> Upload list \<Rightarrow> jdb \<Rightarrow> jerr + (unit \<times> jdb)" where
  "insert_all env j [] d = Inr ((), d)"
| "insert_all env j (u # us) d =
     (case insertUploadTx env j u d of Inl e \<Rightarrow> Inl e | Inr (_, d') \<Rightarrow> insert_all env j us d')"

text \<open>One transaction per row, the verdict of each for its own caller.\<close>

fun commit_each :: "env \<Rightarrow> Upload list \<Rightarrow> Journal \<Rightarrow> jerr option list \<times> Journal" where
  "commit_each env [] j = ([], j)"
| "commit_each env (u # us) j =
     (let (r, j') = tx env (insertUploadTx env j u) j;
          (rs, j'') = commit_each (after 1 env) us j' in
      ((case r of Inl e \<Rightarrow> Some e | Inr _ \<Rightarrow> None) # rs, j''))"

definition commitBatch :: "env \<Rightarrow> Journal \<Rightarrow> Upload list \<Rightarrow> jerr option list \<times> Journal" where
  "commitBatch env j batch =
     (case syncObjects env j of
        Some e \<Rightarrow> (replicate (length batch) (Some e), j)
      | None \<Rightarrow>
          (let (r, j') = tx env (insert_all env j batch) j;
               done = (\<lambda>v. (replicate (length batch) v,
                 j'\<lparr>batches := Suc (batches j'), commit_rows := commit_rows j' + length batch\<rparr>)) in
           case r of
             Inr _ \<Rightarrow> done None
           | Inl e \<Rightarrow> if length batch > 1 then commit_each (after 1 env) batch j' else done (Some e)))"

text \<open>
  \<open>Commit\<close> of a lone writer: its batch has one row. \<open>ctx_err\<close> stands for the context ending while
  the request waits for room in the queue.
\<close>

definition Commit :: "env \<Rightarrow> Journal \<Rightarrow> Upload \<Rightarrow> (jerr + unit) \<times> Journal" where
  "Commit env j u =
     (if u_ID u = [] then (Inl ENeedsID, j)
      else if ctx_err env then (Inl ECtx, j)
      else
        (case commitBatch env j [u] of
           ([None], j') \<Rightarrow> (Inr (), releaseStagedObject j' (u_StagingID u) (u_BlobPath u))
         | ([Some e], j') \<Rightarrow> (Inl e, j')
         | (_, j') \<Rightarrow> (Inl EClosed, j')))"

section \<open>Reading\<close>

definition Get :: "env \<Rightarrow> Journal \<Rightarrow> string \<Rightarrow> jerr + Upload" where
  "Get env j uid =
     dbq env (\<lambda>d. case row_of d uid of None \<Rightarrow> Inl JErrNotFound | Some r \<Rightarrow> Inr (scanUpload r)) j"

definition list_uploads :: "env \<Rightarrow> Journal \<Rightarrow> (urow list \<Rightarrow> urow list) \<Rightarrow> jerr + Upload list" where
  "list_uploads env j sel = dbq env (\<lambda>d. Inr (map scanUpload (sel (uploads d)))) j"

definition Pending :: "env \<Rightarrow> Journal \<Rightarrow> jerr + Upload list" where
  "Pending env j =
     list_uploads env j
       (\<lambda>rs. sort_key r_created_at (sel_where (\<lambda>r. r_state r \<in> {StatePending, StateUploading}) rs))"

definition Dead :: "env \<Rightarrow> Journal \<Rightarrow> jerr + Upload list" where
  "Dead env j =
     list_uploads env j (\<lambda>rs. sort_key r_created_at (sel_where (\<lambda>r. r_state r = StateDead) rs))"

definition AllUploads :: "env \<Rightarrow> Journal \<Rightarrow> jerr + Upload list" where
  "AllUploads env j = list_uploads env j (sort_key r_created_at)"

definition Remotes :: "env \<Rightarrow> Journal \<Rightarrow> jerr + string list" where
  "Remotes env j =
     dbq env (\<lambda>d. Inr (remdups
       (map r_remote (sel_where (\<lambda>r. r_state r \<in> {StatePending, StateUploading}) (uploads d))))) j"

definition ByIno :: "env \<Rightarrow> Journal \<Rightarrow> nat \<Rightarrow> jerr + Upload list" where
  "ByIno env j ino =
     list_uploads env j
       (\<lambda>rs. sort_key r_created_at
         (sel_where (\<lambda>r. r_ino r = ino \<and>
            r_state r \<in> {StatePending, StateUploading, StateCancelling, StateCancelled, StatePurging}) rs))"

definition Unpublished :: "env \<Rightarrow> Journal \<Rightarrow> jerr + Upload list" where
  "Unpublished env j =
     list_uploads env j (sel_where (\<lambda>r. r_needs_publish r \<and> r_state r = StatePending))"

definition ListActive :: "env \<Rightarrow> Journal \<Rightarrow> string \<Rightarrow> int \<Rightarrow> jerr + (Upload list \<times> string)" where
  "ListActive env j cursor limit =
     (if limit < 1 \<or> limit > 1000 then Inl ELimit
      else
        (case list_uploads env j
           (\<lambda>rs. take (nat limit + 1) (sort_key r_id
              (sel_where (\<lambda>r. r_state r \<in> {StatePending, StateUploading, StateDead, StateCancelling,
                 StateCancelled, StatePurging} \<and> r_id r > cursor) rs))) of
           Inl e \<Rightarrow> Inl e
         | Inr rows \<Rightarrow>
             if length rows > nat limit
             then Inr (take (nat limit) rows, u_ID (rows ! (nat limit - 1)))
             else Inr (rows, [])))"

definition rowid_of :: "jdb \<Rightarrow> string \<Rightarrow> nat option" where
  "rowid_of d uid = map_option r_rowid (row_of d uid)"

text \<open>A comparison with the NULL of a missing row is never true.\<close>

definition Superseded :: "env \<Rightarrow> Journal \<Rightarrow> Upload \<Rightarrow> jerr + bool" where
  "Superseded env j u =
     (if u_Ino u = 0 \<or> u_Tombstone u then Inr False
      else dbq env (\<lambda>d. Inr (cnt_where (\<lambda>r. r_remote r = u_Remote u \<and> r_ino r = u_Ino u \<and>
        \<not> r_tombstone r \<and> (case rowid_of d (u_ID u) of None \<Rightarrow> False | Some n \<Rightarrow> r_rowid r > n))
        (uploads d) > 0)) j)"

definition OlderInFlight :: "env \<Rightarrow> Journal \<Rightarrow> Upload \<Rightarrow> jerr + bool" where
  "OlderInFlight env j u =
     (if u_Ino u = 0 \<or> u_Tombstone u then Inr False
      else dbq env (\<lambda>d. Inr (cnt_where (\<lambda>r. r_remote r = u_Remote u \<and> r_ino r = u_Ino u \<and>
        \<not> r_tombstone r \<and> r_state r \<in> {StatePending, StateUploading, StateCancelling} \<and>
        (case rowid_of d (u_ID u) of None \<Rightarrow> False | Some n \<Rightarrow> r_rowid r < n))
        (uploads d) > 0)) j)"

definition Parts :: "env \<Rightarrow> Journal \<Rightarrow> string \<Rightarrow> jerr + Part list" where
  "Parts env j uid =
     dbq env (\<lambda>d. Inr (sort_key p_Index
       (map pt_part (sel_where (\<lambda>p. pt_upload p = uid) (upload_parts d))))) j"

section \<open>Claiming and progress\<close>

fun mark_uploading :: "string list \<Rightarrow> jdb \<Rightarrow> jdb" where
  "mark_uploading [] d = d"
| "mark_uploading (uid # ids) d =
     mark_uploading ids (upd_id uid (\<lambda>r. r\<lparr>r_state := StateUploading\<rparr>) d)"

definition claimable :: "env \<Rightarrow> string \<Rightarrow> urow \<Rightarrow> bool" where
  "claimable env remote r \<longleftrightarrow>
     r_remote r = remote \<and> r_state r = StatePending \<and> r_next_retry_at r \<le> unixMilli (now env) \<and>
     \<not> r_needs_publish r"

text \<open>A negative LIMIT is no limit.\<close>

definition sql_limit :: "int \<Rightarrow> 'a list \<Rightarrow> 'a list" where
  "sql_limit n xs = (if n < 0 then xs else take (nat n) xs)"

definition Claim :: "env \<Rightarrow> Journal \<Rightarrow> string \<Rightarrow> int \<Rightarrow> (jerr + Upload list) \<times> Journal" where
  "Claim env j remote n =
     tx env (\<lambda>d.
       let rows = sql_limit n (sel_where (claimable env remote) (uploads d)) in
       Inr (map (\<lambda>r. (scanUpload r)\<lparr>u_State := StateUploading\<rparr>) rows,
            mark_uploading (map r_id rows) d)) j"

definition Retarget :: "env \<Rightarrow> Journal \<Rightarrow> string \<Rightarrow> string \<Rightarrow> string \<Rightarrow> (jerr + unit) \<times> Journal" where
  "Retarget env j uid parentID name =
     tx env (\<lambda>d.
       guarded (guardNotCancelled d uid)
         (if cnt_where (\<lambda>r. r_id r = uid \<and> r_state r = StatePending) (uploads d) = 0
          then Inl JErrNotFound
          else Inr ((), d\<lparr>uploads := upd_where (\<lambda>r. r_id r = uid \<and> r_state r = StatePending)
                 (\<lambda>r. r\<lparr>r_remote_parent_id := parentID, r_name := name\<rparr>) (uploads d)\<rparr>))) j"

definition SetSession ::
  "env \<Rightarrow> Journal \<Rightarrow> string \<Rightarrow> (string \<rightharpoonup> string) \<Rightarrow> (jerr + unit) \<times> Journal" where
  "SetSession env j uid session =
     tx env (\<lambda>d. guarded (guardNotPurging d uid)
       (Inr ((), upd_id uid (\<lambda>r. r\<lparr>r_session := session\<rparr>) d))) j"

text \<open>\<open>INSERT .. ON CONFLICT(upload_id, idx) DO UPDATE\<close>\<close>

definition put_part :: "string \<Rightarrow> Part \<Rightarrow> part_row list \<Rightarrow> part_row list" where
  "put_part uid p rs =
     (let here = (\<lambda>q. pt_upload q = uid \<and> p_Index (pt_part q) = p_Index p) in
      if cnt_where here rs > 0 then upd_where here (\<lambda>q. q\<lparr>pt_part := p\<rparr>) rs
      else rs @ [\<lparr>pt_upload = uid, pt_part = p\<rparr>])"

definition RecordPart :: "env \<Rightarrow> Journal \<Rightarrow> string \<Rightarrow> Part \<Rightarrow> (jerr + unit) \<times> Journal" where
  "RecordPart env j uid p =
     (let p' = (if p_State p = [] then p\<lparr>p_State := ''done''\<rparr> else p) in
      tx env (\<lambda>d. guarded (guardNotPurging d uid)
        (Inr ((), d\<lparr>upload_parts := put_part uid p' (upload_parts d)\<rparr>))) j)"

section \<open>Finishing\<close>

abbreviation doneHistory :: nat where "doneHistory \<equiv> 200"

definition doneRetention :: duration where
  "doneRetention = 5 * Minute"

definition finished :: "urow \<Rightarrow> bool" where
  "finished r \<longleftrightarrow> r_state r = StateDone \<and> r_done_at r > 0"

text \<open>\<open>ORDER BY done_at DESC, id DESC LIMIT 200\<close>\<close>

definition done_recent :: "jdb \<Rightarrow> string list" where
  "done_recent d =
     map r_id (take doneHistory
       (rev (sort_key (\<lambda>r. (r_done_at r, r_id r)) (sel_where finished (uploads d)))))"

definition prune_victims :: "int \<Rightarrow> jdb \<Rightarrow> string list" where
  "prune_victims before d =
     map r_id (sel_where (\<lambda>r. finished r \<and> r_done_at r < before \<and> r_id r \<notin> set (done_recent d) \<and>
       r_id r \<notin> cl_upload ` set (upload_cleanup d)) (uploads d))"

definition forget_upload :: "string \<Rightarrow> jdb \<Rightarrow> jdb" where
  "forget_upload uid d =
     d\<lparr>uploads := del_where (\<lambda>r. r_id r = uid) (uploads d),
       upload_parts := del_where (\<lambda>p. pt_upload p = uid) (upload_parts d),
       dead_letter := del_where (\<lambda>r. dl_upload r = uid) (dead_letter d),
       upload_cancellation := del_where (\<lambda>r. uc_upload r = uid) (upload_cancellation d),
       upload_resume_history := del_where (\<lambda>r. rh_upload r = uid) (upload_resume_history d)\<rparr>"

fun forget_all :: "string list \<Rightarrow> jdb \<Rightarrow> jdb" where
  "forget_all [] d = d"
| "forget_all (uid # ids) d = forget_all ids (forget_upload uid d)"

definition pruneDoneTx :: "int \<Rightarrow> jdb \<Rightarrow> jdb" where
  "pruneDoneTx before d = forget_all (prune_victims before d) d"

definition finish_row :: "env \<Rightarrow> urow \<Rightarrow> urow" where
  "finish_row env r =
     r\<lparr>r_state := StateDone, r_last_error := [], r_blob_path := [], r_done_at := unixMilli (now env)\<rparr>"

definition succeed_tx :: "env \<Rightarrow> string \<Rightarrow> jdb \<Rightarrow> jerr + (string \<times> jdb)" where
  "succeed_tx env uid d =
     guarded (guardNotCancelled d uid)
       (case row_of d uid of
          None \<Rightarrow> Inl JErrNotFound
        | Some r \<Rightarrow>
            Inr (r_blob_path r,
              pruneDoneTx (unixMilli (now env - doneRetention))
                ((upd_id uid (finish_row env) d)
                   \<lparr>upload_parts := del_where (\<lambda>p. pt_upload p = uid) (upload_parts d)\<rparr>)))"

definition Succeed :: "env \<Rightarrow> Journal \<Rightarrow> string \<Rightarrow> (jerr + unit) \<times> Journal" where
  "Succeed env j uid =
     (case tx env (succeed_tx env uid) j of
        (Inl e, j') \<Rightarrow> (Inl e, j')
      | (Inr blob, j') \<Rightarrow> (Inr (), removeBlobIfUnreferenced (after 1 env) j' blob))"

definition RetryUpload ::
  "env \<Rightarrow> Journal \<Rightarrow> string \<Rightarrow> string option \<Rightarrow> duration \<Rightarrow> (jerr + unit) \<times> Journal" where
  "RetryUpload env j uid cause delay =
     (let msg = (case cause of None \<Rightarrow> [] | Some m \<Rightarrow> m) in
      tx env (\<lambda>d. guarded (guardNotCancelled d uid)
        (Inr ((), upd_id uid (\<lambda>r. r\<lparr>r_state := StatePending, r_attempt := r_attempt r + 1,
            r_next_retry_at := unixMilli (now env + delay), r_last_error := msg\<rparr>) d))) j)"

definition Defer :: "env \<Rightarrow> Journal \<Rightarrow> string \<Rightarrow> duration \<Rightarrow> string \<Rightarrow> (jerr + unit) \<times> Journal" where
  "Defer env j uid delay why =
     tx env (\<lambda>d. guarded (guardNotCancelled d uid)
       (Inr ((), upd_id uid (\<lambda>r. r\<lparr>r_state := StatePending,
           r_next_retry_at := unixMilli (now env + delay), r_last_error := why\<rparr>) d))) j"

text \<open>\<open>INSERT OR REPLACE\<close>\<close>

definition put_dead :: "dead_row \<Rightarrow> dead_row list \<Rightarrow> dead_row list" where
  "put_dead x rs = del_where (\<lambda>r. dl_upload r = dl_upload x) rs @ [x]"

definition Fail :: "env \<Rightarrow> Journal \<Rightarrow> string \<Rightarrow> string option \<Rightarrow> (jerr + unit) \<times> Journal" where
  "Fail env j uid cause =
     (let msg = (case cause of None \<Rightarrow> [] | Some m \<Rightarrow> m) in
      tx env (\<lambda>d. guarded (guardNotCancelled d uid)
        (Inr ((), (upd_id uid (\<lambda>r. r\<lparr>r_state := StateDead, r_last_error := msg\<rparr>) d)
           \<lparr>dead_letter := put_dead \<lparr>dl_upload = uid, dl_reason = msg, dl_moved_at = time_unix (now env)\<rparr>
              (dead_letter d)\<rparr>))) j)"

definition Requeue :: "env \<Rightarrow> Journal \<Rightarrow> string \<Rightarrow> (jerr + unit) \<times> Journal" where
  "Requeue env j uid =
     tx env (\<lambda>d. guarded (guardNotPurging d uid)
       (case row_of d uid of
          None \<Rightarrow> Inl JErrNotFound
        | Some r \<Rightarrow>
            if r_state r = StateUploading then Inl ErrInFlight
            else if r_state r = StateCancelled \<or> r_state r = StateCancelling then Inl ErrCancelled
            else if r_state r \<noteq> StateDead then Inl ErrNotDead
            else Inr ((), (upd_id uid (\<lambda>r. r\<lparr>r_state := StatePending, r_attempt := 0,
                  r_next_retry_at := 0, r_last_error := []\<rparr>) d)
                \<lparr>dead_letter := del_where (\<lambda>x. dl_upload x = uid) (dead_letter d)\<rparr>))) j"

section \<open>Dropping\<close>

definition drop_rows :: "string \<Rightarrow> jdb \<Rightarrow> jdb" where
  "drop_rows uid d =
     d\<lparr>uploads := del_where (\<lambda>r. r_id r = uid) (uploads d),
       upload_parts := del_where (\<lambda>p. pt_upload p = uid) (upload_parts d),
       dead_letter := del_where (\<lambda>x. dl_upload x = uid) (dead_letter d)\<rparr>"

definition drop_idle_tx :: "string \<Rightarrow> bool \<Rightarrow> jdb \<Rightarrow> jerr + (string \<times> jdb)" where
  "drop_idle_tx uid pendingOnly d =
     guarded (guardNotPurging d uid)
       (case row_of d uid of
          None \<Rightarrow> Inl JErrNotFound
        | Some r \<Rightarrow>
            let state = r_state r in
            if state = StateUploading \<or> state = StateCancelling then Inl ErrInFlight
            else if state = StateCancelled then Inl ErrCancelled
            else if pendingOnly \<and> state \<noteq> StatePending then Inl ErrNotPending
            else if state \<noteq> StatePending \<and> state \<noteq> StateDead \<and> state \<noteq> StateDone then Inl (EState state)
            else Inr (r_blob_path r, drop_rows uid d))"

definition dropIdle :: "env \<Rightarrow> Journal \<Rightarrow> string \<Rightarrow> bool \<Rightarrow> (jerr + unit) \<times> Journal" where
  "dropIdle env j uid pendingOnly =
     (case tx env (drop_idle_tx uid pendingOnly) j of
        (Inl e, j') \<Rightarrow> (Inl e, j')
      | (Inr blob, j') \<Rightarrow> (Inr (), removeBlobIfUnreferenced (after 1 env) j' blob))"

definition DropPending :: "env \<Rightarrow> Journal \<Rightarrow> string \<Rightarrow> (jerr + unit) \<times> Journal" where
  "DropPending env j uid = dropIdle env j uid False"

text \<open>The loop of \<open>DropSuperseded\<close>: rows that changed hands since the snapshot are left alone.\<close>

fun drop_ids :: "env \<Rightarrow> string list \<Rightarrow> nat \<Rightarrow> Journal \<Rightarrow> (jerr + nat) \<times> Journal" where
  "drop_ids env [] dropped j = (Inr dropped, j)"
| "drop_ids env (uid # ids) dropped j =
     (case dropIdle env j uid True of
        (Inr _, j') \<Rightarrow> drop_ids (after 2 env) ids (Suc dropped) j'
      | (Inl e, j') \<Rightarrow>
          if e \<in> {JErrNotFound, ErrInFlight, ErrNotPending, ErrCancelled}
          then drop_ids (after 2 env) ids dropped j'
          else (Inl e, j'))"

definition superseded_ids :: "string \<Rightarrow> nat \<Rightarrow> string \<Rightarrow> jdb \<Rightarrow> string list" where
  "superseded_ids remote ino keepID d =
     map r_id (sel_where (\<lambda>r. r_remote r = remote \<and> r_ino r = ino \<and> r_state r = StatePending \<and>
       \<not> r_tombstone r \<and> (case rowid_of d keepID of None \<Rightarrow> False | Some n \<Rightarrow> r_rowid r < n)) (uploads d))"

definition DropSuperseded ::
  "env \<Rightarrow> Journal \<Rightarrow> string \<Rightarrow> nat \<Rightarrow> string \<Rightarrow> (jerr + nat) \<times> Journal" where
  "DropSuperseded env j remote ino keepID =
     (if ino = 0 then (Inr 0, j)
      else
        (case dbq env (\<lambda>d. Inr (superseded_ids remote ino keepID d)) j of
           Inl e \<Rightarrow> (Inl e, j)
         | Inr ids \<Rightarrow> drop_ids (after 1 env) ids 0 j))"

definition drop_tx :: "string \<Rightarrow> jdb \<Rightarrow> jerr + (unit \<times> jdb)" where
  "drop_tx uid d = guarded (guardNotCancelled d uid) (Inr ((), drop_rows uid d))"

definition Drop :: "env \<Rightarrow> Journal \<Rightarrow> string \<Rightarrow> (jerr + unit) \<times> Journal" where
  "Drop env j uid =
     (case Get env j uid of
        Inl e \<Rightarrow> (Inl e, j)
      | Inr u \<Rightarrow>
          (case tx (after 1 env) (drop_tx uid) j of
             (Inl e, j') \<Rightarrow> (Inl e, j')
           | (Inr _, j') \<Rightarrow> (Inr (), removeBlobIfUnreferenced (after 2 env) j' (u_BlobPath u))))"

definition Tombstone :: "env \<Rightarrow> Journal \<Rightarrow> string \<Rightarrow> (jerr + unit) \<times> Journal" where
  "Tombstone env j uid =
     tx env (\<lambda>d. guarded (guardNotCancelled d uid)
       (if cnt_where (\<lambda>r. r_id r = uid) (uploads d) = 0 then Inl JErrNotFound
        else Inr ((), upd_id uid (\<lambda>r. r\<lparr>r_tombstone := True\<rparr>) d))) j"

fun drop_all :: "env \<Rightarrow> string list \<Rightarrow> Journal \<Rightarrow> (jerr + unit) \<times> Journal" where
  "drop_all env [] j = (Inr (), j)"
| "drop_all env (uid # ids) j =
     (case Drop env j uid of
        (Inl e, j') \<Rightarrow> (Inl e, j')
      | (Inr _, j') \<Rightarrow> drop_all (after 3 env) ids j')"

definition Purge :: "env \<Rightarrow> Journal \<Rightarrow> duration \<Rightarrow> (jerr + nat) \<times> Journal" where
  "Purge env j age =
     (let cutoff = time_unix (now env - age) in
      case list_uploads env j (sel_where (\<lambda>r. r_state r = StateDone \<and> r_created_at r < cutoff)) of
        Inl e \<Rightarrow> (Inl e, j)
      | Inr done \<Rightarrow>
          (case drop_all (after 1 env) (map u_ID done) j of
             (Inl e, j') \<Rightarrow> (Inl e, j')
           | (Inr _, j') \<Rightarrow> (Inr (length done), j')))"

section \<open>Cancellation and publication\<close>

text \<open>\<open>INSERT .. ON CONFLICT(upload_id) DO UPDATE SET revision=revision+1\<close>\<close>

definition bump_revision :: "string \<Rightarrow> cancel_row list \<Rightarrow> cancel_row list" where
  "bump_revision uid rs =
     (if cnt_where (\<lambda>r. uc_upload r = uid) rs > 0
      then upd_where (\<lambda>r. uc_upload r = uid) (\<lambda>r. r\<lparr>uc_revision := uc_revision r + 1\<rparr>) rs
      else rs @ [\<lparr>uc_upload = uid, uc_revision = 1\<rparr>])"

definition stop_state :: "State \<Rightarrow> State option" where
  "stop_state s =
     (if s = StateCancelled \<or> s = StateCancelling then Some s
      else if s = StatePending \<or> s = StateDead then Some StateCancelled
      else if s = StateUploading then Some StateCancelling
      else None)"

definition RequestCancel :: "env \<Rightarrow> Journal \<Rightarrow> string \<Rightarrow> (jerr + State) \<times> Journal" where
  "RequestCancel env j uid =
     (if \<not> owner j then (Inl ENotOwner, j)
      else
        tx env (\<lambda>d.
          case row_of d uid of
            None \<Rightarrow> Inl JErrNotFound
          | Some r \<Rightarrow>
              if r_tombstone r \<or> r_state r = StateDone then Inl ErrCannotCancel
              else
                (case stop_state (r_state r) of
                   None \<Rightarrow> Inl ErrCannotCancel
                 | Some s \<Rightarrow>
                     Inr (s, (upd_id uid (\<lambda>r. r\<lparr>r_state := s, r_last_error := cancelled_msg\<rparr>) d)
                       \<lparr>upload_cancellation := bump_revision uid (upload_cancellation d)\<rparr>))) j)"

definition FinishCancel :: "env \<Rightarrow> Journal \<Rightarrow> string \<Rightarrow> (jerr + unit) \<times> Journal" where
  "FinishCancel env j uid =
     (if \<not> owner j then (Inl ENotOwner, j)
      else
        tx env (\<lambda>d. Inr ((), d\<lparr>uploads :=
          upd_where (\<lambda>r. r_id r = uid \<and> r_state r = StateCancelling)
            (\<lambda>r. r\<lparr>r_state := StateCancelled\<rparr>) (uploads d)\<rparr>)) j)"

definition MarkPublished :: "env \<Rightarrow> Journal \<Rightarrow> string \<Rightarrow> (jerr + unit) \<times> Journal" where
  "MarkPublished env j uid =
     (if \<not> owner j then (Inl ENotOwner, j)
      else
        tx env (\<lambda>d. guarded (guardNotPurging d uid)
          (if cnt_where (\<lambda>r. r_id r = uid) (uploads d) = 0 then Inl JErrNotFound
           else Inr ((), upd_id uid (\<lambda>r. r\<lparr>r_needs_publish := False\<rparr>) d))) j)"

section \<open>Counters\<close>

record Stats =
  st_Pending :: nat
  st_Uploading :: nat
  st_Dead :: nat
  st_Done :: nat
  st_Cancelling :: nat
  st_Cancelled :: nat
  st_Purging :: nat
  st_RetainedBytes :: int
  st_Bytes :: int
  st_OldestAge :: duration

text \<open>One group of \<open>GROUP BY state\<close>: its count, its bytes and its oldest creation time.\<close>

definition st_group :: "jdb \<Rightarrow> State \<Rightarrow> nat \<times> int \<times> int" where
  "st_group d s =
     (let rs = sel_where (\<lambda>r. r_state r = s) (uploads d) in
      (length rs, sum_list (map r_size rs),
       (case map r_created_at rs of [] \<Rightarrow> 0 | t # ts \<Rightarrow> foldl min t ts)))"

definition st_age :: "env \<Rightarrow> int \<Rightarrow> duration \<Rightarrow> duration" where
  "st_age env oldest best =
     (if oldest > 0 then max best (now env - oldest * Second) else best)"

definition Stats :: "env \<Rightarrow> Journal \<Rightarrow> jerr + Stats" where
  "Stats env j =
     dbq env (\<lambda>d.
       let (np, bp, op) = st_group d StatePending; (nu, bu, ou) = st_group d StateUploading;
           (nd, bd, od) = st_group d StateDead; (nf, bf, ofi) = st_group d StateDone;
           (nc, bc, oc) = st_group d StateCancelling; (nx, bx, ox) = st_group d StateCancelled;
           (nq, bq, oq) = st_group d StatePurging in
       Inr \<lparr>st_Pending = np, st_Uploading = nu, st_Dead = nd, st_Done = nf, st_Cancelling = nc,
            st_Cancelled = nx, st_Purging = nq, st_RetainedBytes = bc + bx + bq,
            st_Bytes = bp + bu, st_OldestAge = st_age env ou (st_age env op 0)\<rparr>) j"

section \<open>Every operation keeps the invariant\<close>

lemma keeps_keys_updates [simp]:
  "keeps_keys (\<lambda>r. r\<lparr>r_state := s\<rparr>)"
  "keeps_keys (\<lambda>r. r\<lparr>r_session := m\<rparr>)"
  "keeps_keys (\<lambda>r. r\<lparr>r_tombstone := b\<rparr>)"
  "keeps_keys (\<lambda>r. r\<lparr>r_needs_publish := b\<rparr>)"
  "keeps_keys (\<lambda>r. r\<lparr>r_remote_parent_id := p, r_name := n\<rparr>)"
  "keeps_keys (\<lambda>r. r\<lparr>r_state := s, r_last_error := e\<rparr>)"
  "keeps_keys (\<lambda>r. r\<lparr>r_state := s, r_next_retry_at := t, r_last_error := e\<rparr>)"
  "keeps_keys (\<lambda>r. r\<lparr>r_state := s, r_attempt := r_attempt r + 1, r_next_retry_at := t, r_last_error := e\<rparr>)"
  "keeps_keys (\<lambda>r. r\<lparr>r_state := s, r_attempt := a, r_next_retry_at := t, r_last_error := e\<rparr>)"
  "keeps_keys (finish_row env)"
  "keeps_keys (upsert_row u)"
  by (simp_all add: keeps_keys_def finish_row_def upsert_row_def)

lemma next_rowid_above: "r \<in> set rs \<Longrightarrow> r_rowid r < next_rowid rs"
proof -
  have "r \<in> set rs \<Longrightarrow> r_rowid r \<le> foldr (\<lambda>r m. max (r_rowid r) m) rs 0"
    by (induction rs) auto
  then show "r \<in> set rs \<Longrightarrow> r_rowid r < next_rowid rs" by (simp add: next_rowid_def)
qed

lemma insert_row_inv:
  assumes inv: "upload_inv d" and new: "r_id x \<notin> r_id ` set (uploads d)"
    and "r_state x \<noteq> StatePurging" and "r_rowid x = next_rowid (uploads d)"
    and disc: "r_id x \<notin> cl_upload ` set (upload_discarded d)" and "r_id x \<noteq> []"
  shows "upload_inv (d\<lparr>uploads := uploads d @ [x]\<rparr>)"
proof -
  have "r_id x \<notin> cl_upload ` set (upload_cleanup d)"
    using upload_inv_intents [OF inv] new by (meson subsetD)
  moreover have "sorted_wrt (<) (map r_rowid (uploads d @ [x]))"
    using inv assms(4) next_rowid_above by (auto simp: upload_inv_def sorted_wrt_append)
  ultimately show ?thesis
    using inv new assms(3,6) disc by (simp add: upload_inv_def subset_insertI2)
qed

lemma upsert_upload_inv:
  assumes "upload_inv d" "guardNotCancelled d (u_ID u) = None" "u_State u \<noteq> StatePurging"
    "u_ID u \<noteq> []"
  shows "upload_inv (upsert_upload u d)"
proof (cases "row_of d (u_ID u)")
  case None
  have "u_ID u \<notin> cl_upload ` set (upload_discarded d)"
    using guard_discarded(2) [OF assms(1)] assms(2) by auto
  then show ?thesis
    using None [unfolded row_of_None_iff] assms(1,3,4)
    by (simp add: upsert_upload_def None insert_row_inv new_row_def)
next
  case (Some r)
  then have "r_state r \<noteq> StatePurging" using guard_cancel_row [OF assms(2)] by simp
  then show ?thesis
    using Some assms(1,3)
    by (auto simp: upsert_upload_def upsert_row_def [of u r] intro: upd_id_inv)
qed

lemma upsert_upload_frame [inv_frame]:
  "side_inv (upsert_upload u d) = side_inv d" "copy_inv (upsert_upload u d) = copy_inv d"
  by (simp_all add: upsert_upload_def inv_frame split: option.split)

lemma insertUploadTx_cases:
  assumes "insertUploadTx env j u d = Inr (a, d')"
  obtains u' where "d' = upsert_upload u' d" "u_ID u' = u_ID u" "u_ID u \<noteq> []"
    "u_State u' \<noteq> StatePurging" "guardNotCancelled d (u_ID u) = None"
    "u' = u\<lparr>u_State := (if u_State u = StateEmpty then StatePending else u_State u),
            u_CreatedAt := (if u_CreatedAt u = zero_time then now env else u_CreatedAt u)\<rparr>"
  using assms by (auto simp: insertUploadTx_def guarded_Inr Let_def split: if_splits)

lemma insertUploadTx_inv:
  assumes "db_inv d" "insertUploadTx env j u d = Inr (a, d')"
  shows "db_inv d'"
  using assms(2)
proof (cases rule: insertUploadTx_cases)
  case (1 u')
  then show ?thesis
    using assms(1) by (auto simp: db_inv_def inv_frame intro: upsert_upload_inv)
qed

lemma insert_all_inv: "db_inv d \<Longrightarrow> insert_all env j us d = Inr (a, d') \<Longrightarrow> db_inv d'"
  by (induction us arbitrary: d) (auto split: sum.splits dest: insertUploadTx_inv)

lemma commit_each_inv: "db_inv (jdb j) \<Longrightarrow> db_inv (jdb (snd (commit_each env us j)))"
proof (induction us arbitrary: env j)
  case (Cons u us)
  have "db_inv (jdb (snd (tx env (insertUploadTx env j u) j)))"
    using Cons.prems by (rule tx_db_inv) (rule insertUploadTx_inv)
  then show ?case
    using Cons.IH [of "snd (tx env (insertUploadTx env j u) j)" "after 1 env"]
    by (auto simp: Let_def split: prod.splits)
qed simp

lemma commitBatch_inv:
  assumes "db_inv (jdb j)"
  shows "db_inv (jdb (snd (commitBatch env j us)))"
proof -
  let ?j = "snd (tx env (insert_all env j us) j)"
  have "db_inv (jdb ?j)" using assms by (rule tx_db_inv) (rule insert_all_inv)
  then show ?thesis
    using assms commit_each_inv [of ?j]
    by (auto simp: commitBatch_def Let_def split: option.split prod.splits sum.splits)
qed

lemma releaseStagedObject_jdb [simp]: "jdb (releaseStagedObject j uid blob) = jdb j"
  by (simp add: releaseStagedObject_def split: option.split)

lemma Commit_inv: "db_inv (jdb j) \<Longrightarrow> db_inv (jdb (snd (Commit env j u)))"
  using commitBatch_inv [of j env "[u]"]
  by (auto simp: Commit_def split: prod.split list.split option.split)

lemma mark_uploading_uploads:
  "uploads (mark_uploading ids d) =
     upd_where (\<lambda>r. r_id r \<in> set ids) (\<lambda>r. r\<lparr>r_state := StateUploading\<rparr>) (uploads d)"
proof (induction ids arbitrary: d)
  case Nil
  then show ?case by (simp add: upd_where_none)
next
  case (Cons uid ids)
  then show ?case by (simp add: upd_where_def comp_def) 
qed

lemma mark_uploading_rest:
  "mark_uploading ids d = d\<lparr>uploads := uploads (mark_uploading ids d)\<rparr>"
proof (induction ids arbitrary: d)
  case (Cons uid ids)
  show ?case using Cons [of "upd_id uid (\<lambda>r. r\<lparr>r_state := StateUploading\<rparr>) d"] by (simp add: upd_id_def)
qed simp

lemma set_sql_limit: "set (sql_limit n xs) \<subseteq> set xs"
  by (auto simp: sql_limit_def dest: in_set_takeD)

lemma Claim_inv:
  assumes inv: "db_inv (jdb j)"
  shows "db_inv (jdb (snd (Claim env j remote n)))"
  unfolding Claim_def
proof (rule tx_db_inv [OF inv])
  fix us d'
  let ?rows = "sql_limit n (sel_where (claimable env remote) (uploads (jdb j)))"
  assume "(let rows = ?rows in Inr (map (\<lambda>r. (scanUpload r)\<lparr>u_State := StateUploading\<rparr>) rows,
      mark_uploading (map r_id rows) (jdb j))) = (Inr (us, d') :: jerr + Upload list \<times> jdb)"
  then have d': "d' = (jdb j)\<lparr>uploads := upd_where (\<lambda>r. r_id r \<in> set (map r_id ?rows))
      (\<lambda>r. r\<lparr>r_state := StateUploading\<rparr>) (uploads (jdb j))\<rparr>"
    using mark_uploading_rest mark_uploading_uploads by (auto simp: Let_def)
  have "r_state r \<noteq> StatePurging"
    if r: "r \<in> set (uploads (jdb j))" and i: "r_id r \<in> set (map r_id ?rows)" for r
  proof -
    obtain q where q: "q \<in> set ?rows" "r_id q = r_id r" using i by auto
    then have "q \<in> set (uploads (jdb j))" "r_state q = StatePending"
      using set_sql_limit by (fastforce simp: table_simps claimable_def)+
    moreover have "r = q"
      using key_unique [OF upload_inv_ids [OF db_invD(1) [OF inv]] r calculation(1)] q(2) by simp
    ultimately show ?thesis by simp
  qed
  then show "db_inv d'"
    unfolding d' using inv by (auto simp: db_inv_def inv_frame intro!: upd_where_inv)
qed

text \<open>Updates of the row with one id that leave purging alone.\<close>

lemma upd_id_db_inv:
  assumes "db_inv d" "keeps_keys f" "guardNotPurging d uid = None"
    and "\<And>r. r_state r \<noteq> StatePurging \<Longrightarrow> r_state (f r) \<noteq> StatePurging"
  shows "db_inv (upd_id uid f d)"
  using assms guard_row [OF assms(3)] by (auto simp: db_inv_def inv_frame intro!: upd_id_inv)

lemmas guard_simps = guarded_Inr guard_cancel_purging

lemma Retarget_inv:
  assumes "db_inv (jdb j)"
  shows "db_inv (jdb (snd (Retarget env j uid p n)))"
  unfolding Retarget_def
  using assms by (intro tx_db_inv)
    (auto simp: guarded_Inr db_inv_def inv_frame intro!: upd_where_inv split: if_splits)

lemma SetSession_inv: "db_inv (jdb j) \<Longrightarrow> db_inv (jdb (snd (SetSession env j uid m)))"
  unfolding SetSession_def
  by (erule tx_db_inv) (auto simp: guarded_Inr db_inv_def inv_frame intro!: upd_id_inv)

lemma distinct_put_part:
  assumes "distinct (map (\<lambda>p. (pt_upload p, p_Index (pt_part p))) rs)"
  shows "distinct (map (\<lambda>p. (pt_upload p, p_Index (pt_part p))) (put_part uid p rs))"
proof (cases "cnt_where (\<lambda>q. pt_upload q = uid \<and> p_Index (pt_part q) = p_Index p) rs > 0")
  case True
  have "map (\<lambda>p. (pt_upload p, p_Index (pt_part p))) (put_part uid p rs) =
      map (\<lambda>p. (pt_upload p, p_Index (pt_part p))) rs"
    using True unfolding put_part_def Let_def by (auto intro!: map_upd_where_same)
  then show ?thesis using assms by metis
next
  case False
  then show ?thesis using assms by (auto simp: put_part_def Let_def)
qed

lemma RecordPart_inv: "db_inv (jdb j) \<Longrightarrow> db_inv (jdb (snd (RecordPart env j uid p)))"
  unfolding RecordPart_def Let_def
  by (erule tx_db_inv)
    (auto simp: guarded_Inr db_inv_def inv_frame side_inv_def distinct_put_part)

lemma forget_upload_inv:
  assumes "db_inv d" "\<And>r. row_of d uid = Some r \<Longrightarrow> r_state r \<noteq> StatePurging"
  shows "db_inv (forget_upload uid d)"
proof -
  have "upload_inv (d\<lparr>uploads := del_where (\<lambda>r. r_id r = uid) (uploads d)\<rparr>)"
    using assms by (intro del_where_inv) (auto simp: db_inv_def row_of_iff)
  then have "upload_inv (forget_upload uid d)" by (simp add: forget_upload_def inv_frame)
  moreover have "side_inv (forget_upload uid d)"
    using assms(1) by (auto simp: db_inv_def side_inv_def forget_upload_def)
  ultimately show ?thesis
    using assms(1) by (simp add: db_inv_def forget_upload_def copy_inv_def)
qed

lemma row_of_forget_upload: "row_of (forget_upload uid d) x = (if x = uid then None else row_of d x)"
proof -
  have "sel_one (\<lambda>r. r_id r = x) (del_where (\<lambda>r. r_id r = uid) rs) =
      (if x = uid then None else sel_one (\<lambda>r. r_id r = x) rs)" for rs
    by (induction rs) auto
  from this [of "uploads d"] show ?thesis by (simp add: row_of_def forget_upload_def)
qed

lemma row_of_forget_all: "row_of (forget_all ids d) x = (if x \<in> set ids then None else row_of d x)"
  by (induction ids arbitrary: d) (auto simp: row_of_forget_upload)

lemma forget_all_inv:
  assumes "db_inv d" "\<And>uid r. uid \<in> set ids \<Longrightarrow> row_of d uid = Some r \<Longrightarrow> r_state r \<noteq> StatePurging"
  shows "db_inv (forget_all ids d)"
  using assms
proof (induction ids arbitrary: d)
  case (Cons uid ids)
  have "db_inv (forget_upload uid d)"
    using Cons.prems by (intro forget_upload_inv) auto
  moreover have "r_state r \<noteq> StatePurging"
    if "x \<in> set ids" "row_of (forget_upload uid d) x = Some r" for x r
    using that Cons.prems(2) [of x r] by (simp add: row_of_forget_upload split: if_splits)
  ultimately show ?case using Cons.IH by simp
qed simp

lemma prune_victims_done:
  assumes "upload_inv d" "uid \<in> set (prune_victims before d)" "row_of d uid = Some r"
  shows "r_state r = StateDone"
  using assms key_unique [OF upload_inv_ids [OF assms(1)]]
  by (auto simp: prune_victims_def table_simps finished_def row_of_iff)

lemma pruneDoneTx_inv: "db_inv d \<Longrightarrow> db_inv (pruneDoneTx before d)"
  unfolding pruneDoneTx_def
  using prune_victims_done [of d] by (intro forget_all_inv) (fastforce simp: db_inv_def)+

lemma drop_rows_inv:
  assumes "db_inv d" "\<And>r. row_of d uid = Some r \<Longrightarrow> r_state r \<noteq> StatePurging"
  shows "db_inv (drop_rows uid d)"
proof -
  have "upload_inv (d\<lparr>uploads := del_where (\<lambda>r. r_id r = uid) (uploads d)\<rparr>)"
    using assms by (intro del_where_inv) (auto simp: db_inv_def row_of_iff)
  then have "upload_inv (drop_rows uid d)" by (simp add: drop_rows_def inv_frame)
  moreover have "side_inv (drop_rows uid d)"
    using assms(1) by (auto simp: db_inv_def side_inv_def drop_rows_def)
  ultimately show ?thesis
    using assms(1) by (simp add: db_inv_def drop_rows_def copy_inv_def)
qed

lemma side_inv_del_parts:
  "side_inv d \<Longrightarrow> upload_parts d' = del_where p (upload_parts d) \<Longrightarrow> dead_letter d' = dead_letter d \<Longrightarrow>
   upload_cancellation d' = upload_cancellation d \<Longrightarrow>
   upload_resume_history d' = upload_resume_history d \<Longrightarrow>
   upload_discarded d' = upload_discarded d \<Longrightarrow> side_inv d'"
  by (auto simp: side_inv_def)

lemma succeed_tx_inv:
  assumes "db_inv d" "succeed_tx env uid d = Inr (b, d')"
  shows "db_inv d'"
proof -
  have "guardNotPurging d uid = None"
    using assms(2) by (auto simp: succeed_tx_def guard_simps)
  then have "db_inv (upd_id uid (finish_row env) d)"
    using assms(1) by (intro upd_id_db_inv) (auto simp: finish_row_def)
  then have "db_inv ((upd_id uid (finish_row env) d)
      \<lparr>upload_parts := del_where (\<lambda>p. pt_upload p = uid) (upload_parts d)\<rparr>)"
    by (auto simp: db_inv_def inv_frame elim!: side_inv_del_parts)
  then show ?thesis
    using assms(2) by (auto simp: succeed_tx_def guarded_Inr pruneDoneTx_inv split: option.splits)
qed

lemma Succeed_inv:
  assumes "db_inv (jdb j)"
  shows "db_inv (jdb (snd (Succeed env j uid)))"
proof -
  have "db_inv (jdb (snd (tx env (succeed_tx env uid) j)))"
    using assms by (rule tx_db_inv) (rule succeed_tx_inv)
  then show ?thesis by (auto simp: Succeed_def split: prod.split sum.split)
qed

lemma RetryUpload_inv: "db_inv (jdb j) \<Longrightarrow> db_inv (jdb (snd (RetryUpload env j uid c t)))"
  unfolding RetryUpload_def Let_def
  by (erule tx_db_inv) (auto simp: guard_simps intro!: upd_id_db_inv)

lemma Defer_inv: "db_inv (jdb j) \<Longrightarrow> db_inv (jdb (snd (Defer env j uid t w)))"
  unfolding Defer_def by (erule tx_db_inv) (auto simp: guard_simps intro!: upd_id_db_inv)

lemma distinct_put_dead: "distinct (map dl_upload rs) \<Longrightarrow> distinct (map dl_upload (put_dead x rs))"
  by (auto simp: put_dead_def table_simps)

lemma dead_letter_db_inv:
  "db_inv d \<Longrightarrow> distinct (map dl_upload rs) \<Longrightarrow> db_inv (d\<lparr>dead_letter := rs\<rparr>)"
  by (simp add: db_inv_def inv_frame side_inv_def)

lemma dead_letter_distinct: "db_inv d \<Longrightarrow> distinct (map dl_upload (dead_letter d))"
  by (simp add: db_inv_def side_inv_def)

lemma Fail_inv: "db_inv (jdb j) \<Longrightarrow> db_inv (jdb (snd (Fail env j uid c)))"
  unfolding Fail_def Let_def
  by (erule tx_db_inv)
    (auto simp: guard_simps dead_letter_distinct intro!: dead_letter_db_inv distinct_put_dead upd_id_db_inv)

lemma Requeue_inv: "db_inv (jdb j) \<Longrightarrow> db_inv (jdb (snd (Requeue env j uid)))"
  unfolding Requeue_def
  by (erule tx_db_inv)
    (auto simp: guarded_Inr dead_letter_distinct split: option.splits if_splits
      intro!: dead_letter_db_inv upd_id_db_inv)

lemma drop_idle_tx_ok:
  assumes "drop_idle_tx uid po d = Inr (b, d')"
  obtains r where "row_of d uid = Some r" "d' = drop_rows uid d" "b = r_blob_path r"
    "r_state r \<in> {StatePending, StateDead, StateDone}" "po \<longrightarrow> r_state r = StatePending"
  using assms
  by (auto simp: drop_idle_tx_def guarded_Inr Let_def split: option.splits if_splits)

lemma drop_idle_tx_inv: "drop_idle_tx uid po d = Inr (b, d') \<Longrightarrow> db_inv d \<Longrightarrow> db_inv d'"
  by (erule drop_idle_tx_ok) (auto intro!: drop_rows_inv)

lemma dropIdle_inv:
  assumes "db_inv (jdb j)"
  shows "db_inv (jdb (snd (dropIdle env j uid po)))"
proof -
  have "db_inv (jdb (snd (tx env (drop_idle_tx uid po) j)))"
    using assms by (rule tx_db_inv) (rule drop_idle_tx_inv)
  then show ?thesis by (auto simp: dropIdle_def split: prod.split sum.split)
qed

lemma DropPending_inv: "db_inv (jdb j) \<Longrightarrow> db_inv (jdb (snd (DropPending env j uid)))"
  by (simp add: DropPending_def dropIdle_inv)

lemma drop_ids_inv: "db_inv (jdb j) \<Longrightarrow> db_inv (jdb (snd (drop_ids env ids n j)))"
proof (induction ids arbitrary: env n j)
  case (Cons uid ids)
  then show ?case
    using dropIdle_inv [OF Cons.prems, of env uid True]
    by (auto split: prod.split sum.split)
qed simp

lemma DropSuperseded_inv: "db_inv (jdb j) \<Longrightarrow> db_inv (jdb (snd (DropSuperseded env j rem ino k)))"
  by (auto simp: DropSuperseded_def drop_ids_inv split: sum.split)

lemma drop_tx_inv: "drop_tx uid d = Inr (a, d') \<Longrightarrow> db_inv d \<Longrightarrow> db_inv d'"
  using guard_cancel_row [of d uid] by (auto simp: drop_tx_def guarded_Inr intro!: drop_rows_inv)

lemma Drop_inv:
  assumes "db_inv (jdb j)"
  shows "db_inv (jdb (snd (Drop env j uid)))"
proof -
  have "db_inv (jdb (snd (tx (after 1 env) (drop_tx uid) j)))"
    using assms by (rule tx_db_inv) (rule drop_tx_inv)
  then show ?thesis using assms by (auto simp: Drop_def split: prod.split sum.split)
qed

lemma Tombstone_inv: "db_inv (jdb j) \<Longrightarrow> db_inv (jdb (snd (Tombstone env j uid)))"
  unfolding Tombstone_def
  by (erule tx_db_inv) (auto simp: guard_simps split: if_splits intro!: upd_id_db_inv)

lemma drop_all_inv: "db_inv (jdb j) \<Longrightarrow> db_inv (jdb (snd (drop_all env ids j)))"
proof (induction ids arbitrary: env j)
  case (Cons uid ids)
  then show ?case using Drop_inv [OF Cons.prems, of env uid] by (auto split: prod.split sum.split)
qed simp

lemma Purge_inv:
  assumes "db_inv (jdb j)"
  shows "db_inv (jdb (snd (Purge env j age)))"
proof (cases "list_uploads env j
    (sel_where (\<lambda>r. r_state r = StateDone \<and> r_created_at r < time_unix (now env - age)))")
  case (Inr us)
  then show ?thesis
    using drop_all_inv [OF assms, of "after 1 env" "map u_ID us"]
    by (auto simp: Purge_def Let_def split: prod.split sum.split)
qed (simp add: Purge_def Let_def assms)

lemma distinct_bump_revision:
  "distinct (map uc_upload rs) \<Longrightarrow> distinct (map uc_upload (bump_revision uid rs))"
  by (auto simp: bump_revision_def)

lemma stop_state_not_purging: "stop_state s = Some t \<Longrightarrow> s \<noteq> StatePurging \<and> t \<noteq> StatePurging"
  by (auto simp: stop_state_def split: if_splits)

lemma RequestCancel_inv:
  assumes "db_inv (jdb j)"
  shows "db_inv (jdb (snd (RequestCancel env j uid)))"
proof (cases "owner j")
  case True
  have "db_inv ((upd_id uid (\<lambda>r. r\<lparr>r_state := s, r_last_error := cancelled_msg\<rparr>) d)
      \<lparr>upload_cancellation := bump_revision uid (upload_cancellation d)\<rparr>)"
    if "db_inv d" "row_of d uid = Some r" "stop_state (r_state r) = Some s" for d r s
  proof -
    have "upload_inv (upd_id uid (\<lambda>r. r\<lparr>r_state := s, r_last_error := cancelled_msg\<rparr>) d)"
      using that stop_state_not_purging [OF that(3)] by (intro upd_id_inv) (auto simp: db_inv_def)
    then show ?thesis
      using that(1) by (simp add: db_inv_def inv_frame) (simp add: side_inv_def distinct_bump_revision)
  qed
  then show ?thesis
    using True assms unfolding RequestCancel_def
    by (auto intro!: tx_db_inv split: option.splits if_splits)
qed (simp add: RequestCancel_def assms)

lemma FinishCancel_inv:
  assumes "db_inv (jdb j)"
  shows "db_inv (jdb (snd (FinishCancel env j uid)))"
proof (cases "owner j")
  case True
  have "db_inv (d\<lparr>uploads := upd_where (\<lambda>r. r_id r = uid \<and> r_state r = StateCancelling)
      (\<lambda>r. r\<lparr>r_state := StateCancelled\<rparr>) (uploads d)\<rparr>)" if "db_inv d" for d
    using that by (auto simp: db_inv_def inv_frame intro!: upd_where_inv)
  then show ?thesis
    using True assms by (auto simp: FinishCancel_def intro!: tx_db_inv)
qed (simp add: FinishCancel_def assms)

lemma MarkPublished_inv:
  assumes "db_inv (jdb j)"
  shows "db_inv (jdb (snd (MarkPublished env j uid)))"
  using assms unfolding MarkPublished_def
  by (auto simp: guarded_Inr split: if_splits intro!: tx_db_inv upd_id_db_inv)

lemmas queue_inv = Commit_inv commitBatch_inv Claim_inv Retarget_inv SetSession_inv RecordPart_inv
  Succeed_inv RetryUpload_inv Defer_inv Fail_inv Requeue_inv DropPending_inv DropSuperseded_inv
  Drop_inv Tombstone_inv Purge_inv RequestCancel_inv FinishCancel_inv MarkPublished_inv

end
