(* ===== verification/QueueProps.thy ===== *)
theory QueueProps
  imports Paging JournalQueue
begin

text \<open>
  What the operations of the upload queue promise: claims are exclusive and in commit order, an
  acknowledged commit is stored, and a group commit is the same as committing one row after the other.
\<close>

section \<open>Sample values\<close>

text \<open>A quiet environment and small journals, for the concrete instances below.\<close>

definition sample_env :: env where
  "sample_env = \<lparr>uuid_ok = (\<lambda>s. length s = 36), digest = (\<lambda>h bs. ''00000000''), now = 1700000000 * Second,
     dbf = (\<lambda>n. DBOk), osfail = (\<lambda>c p. False), ctx_err = False, cleanup_fault = (\<lambda>s. False), space_ok = (\<lambda>d n. True)\<rparr>"

definition sample_upload :: "string \<Rightarrow> string \<Rightarrow> Upload" where
  "sample_upload uid blob =
     \<lparr>u_ID = uid, u_StagingID = [], u_Remote = ''r'', u_RemoteParentID = ''p'', u_Name = ''n'',
      u_BlobPath = blob, u_Size = 0, u_Hashes = Map.empty, u_State = StateEmpty, u_Attempt = 0,
      u_NextRetryAt = zero_time, u_LastError = [], u_ExpectedVersion = [], u_Session = Map.empty,
      u_Ino = 7, u_CreatedAt = zero_time, u_Tombstone = False, u_NeedsPublish = False,
      u_MetaIdentity = [], u_MountPrefix = [], u_MountRootID = [], u_AccountBinding = []\<rparr>"

definition sample_row :: "nat \<Rightarrow> string \<Rightarrow> State \<Rightarrow> string \<Rightarrow> urow" where
  "sample_row rid uid st blob = (new_row rid (sample_upload uid blob))\<lparr>r_state := st\<rparr>"

definition sample_fs :: osfs where
  "sample_fs = \<lparr>os_cwd = Some ''home'',
     os_names = [(''/j'', 1, KDir), (''/j/objects'', 2, KDir), (''/j/copies'', 3, KDir),
       (''/j/staging'', 4, KDir), (''/j/objects/a'', 5, KReg), (''/j/objects/b'', 6, KReg)],
     os_data = (\<lambda>i. [])\<rparr>"

definition sample_journal :: "urow list \<Rightarrow> Journal" where
  "sample_journal rs =
     \<lparr>jdb = empty_db\<lparr>uploads := rs\<rparr>, jos = sample_fs, jdir = ''/j'', owner = True,
      durability = DurabilityPower, stagedObjects = Map.empty, stagedRefs = (\<lambda>p. 0),
      copyOpen = {}, batches = 0, commit_rows = 0\<rparr>"

lemma sample_row_simps [simp]:
  "r_id (sample_row rid uid st blob) = uid" "r_rowid (sample_row rid uid st blob) = rid"
  "r_state (sample_row rid uid st blob) = st" "r_blob_path (sample_row rid uid st blob) = blob"
  by (simp_all add: sample_row_def new_row_def sample_upload_def)

lemma sample_inv:
  assumes "distinct (map r_id rs)" "sorted_wrt (<) (map r_rowid rs)"
    "\<forall>r \<in> set rs. r_state r \<noteq> StatePurging \<and> r_id r \<noteq> []"
  shows "db_inv (jdb (sample_journal rs))"
  using assms
  by (auto simp: sample_journal_def db_inv_def upload_inv_def side_inv_def copy_inv_def empty_db_def)

lemma sample_calm [simp]: "calm sample_env"
  by (simp add: calm_def sample_env_def)

section \<open>Claims\<close>

lemma row_of_upd_ids:
  assumes "keeps_keys f"
  shows "row_of (d\<lparr>uploads := upd_where (\<lambda>r. r_id r \<in> S) f (uploads d)\<rparr>) x =
    (if x \<in> S then map_option f (row_of d x) else row_of d x)"
proof -
  have "sel_one (\<lambda>r. r_id r = x) (upd_where (\<lambda>r. r_id r \<in> S) f rs) =
      (if x \<in> S then map_option f (sel_one (\<lambda>r. r_id r = x) rs) else sel_one (\<lambda>r. r_id r = x) rs)"
    for rs
    using assms by (induction rs) (auto simp: keeps_keys_def)
  from this [of "uploads d"] show ?thesis by (simp add: row_of_def)
qed

definition claim_rows :: "env \<Rightarrow> string \<Rightarrow> int \<Rightarrow> jdb \<Rightarrow> urow list" where
  "claim_rows env remote n d = sql_limit n (sel_where (claimable env remote) (uploads d))"

lemma Claim_ok:
  assumes "Claim env j remote n = (Inr us, j')"
  shows "us = map (\<lambda>r. (scanUpload r)\<lparr>u_State := StateUploading\<rparr>) (claim_rows env remote n (jdb j))"
    and "row_of (jdb j') x = (if x \<in> r_id ` set (claim_rows env remote n (jdb j))
      then map_option (\<lambda>r. r\<lparr>r_state := StateUploading\<rparr>) (row_of (jdb j) x) else row_of (jdb j) x)"
proof -
  from assms show "us = map (\<lambda>r. (scanUpload r)\<lparr>u_State := StateUploading\<rparr>) (claim_rows env remote n (jdb j))"
    unfolding Claim_def claim_rows_def
    by (cases rule: tx_cases) (auto simp: Let_def)
  from assms have "jdb j' = mark_uploading (map r_id (claim_rows env remote n (jdb j))) (jdb j)"
    unfolding Claim_def claim_rows_def
    by (cases rule: tx_cases) (auto simp: Let_def)
  then have "jdb j' = (jdb j)\<lparr>uploads := upd_where (\<lambda>r. r_id r \<in> r_id ` set (claim_rows env remote n (jdb j)))
      (\<lambda>r. r\<lparr>r_state := StateUploading\<rparr>) (uploads (jdb j))\<rparr>"
    using mark_uploading_rest [of "map r_id (claim_rows env remote n (jdb j))" "jdb j"]
    by (simp add: mark_uploading_uploads)
  then show "row_of (jdb j') x = (if x \<in> r_id ` set (claim_rows env remote n (jdb j))
      then map_option (\<lambda>r. r\<lparr>r_state := StateUploading\<rparr>) (row_of (jdb j) x) else row_of (jdb j) x)"
    by (simp add: row_of_upd_ids)
qed

lemma claim_rows_in:
  "r \<in> set (claim_rows env remote n d) \<Longrightarrow> r \<in> set (uploads d) \<and> claimable env remote r"
  using set_sql_limit by (fastforce simp: claim_rows_def table_simps)

lemma scanUpload_state: "(scanUpload r)\<lparr>u_State := s\<rparr> = scanUpload (r\<lparr>r_state := s\<rparr>)"
  by (simp add: scanUpload_def)

lemma Claim_row:
  assumes "db_inv (jdb j)" "Claim env j remote n = (Inr us, j')" "u \<in> set us"
  obtains r where "row_of (jdb j') (u_ID u) = Some r" "r_state r = StateUploading" "u = scanUpload r"
proof -
  obtain q where q: "q \<in> set (claim_rows env remote n (jdb j))"
      "u = (scanUpload q)\<lparr>u_State := StateUploading\<rparr>"
    using assms(3) Claim_ok(1) [OF assms(2)] by auto
  have "row_of (jdb j) (r_id q) = Some q"
    using claim_rows_in [OF q(1)] assms(1) by (simp add: row_of_iff db_inv_def)
  then have "row_of (jdb j') (u_ID u) = Some (q\<lparr>r_state := StateUploading\<rparr>)"
    using q Claim_ok(2) [OF assms(2), of "r_id q"] by auto
  then show ?thesis using that q(2) by (simp add: scanUpload_state)
qed

lemma Claim_again:
  assumes inv: "db_inv (jdb j)" and claim: "Claim env j remote n = (Inr us, j')"
    and again: "Claim env2 j' remote2 m = (Inr vs, j'')"
  shows "set (map u_ID us) \<inter> set (map u_ID vs) = {}"
proof (rule ccontr)
  have inv': "upload_inv (jdb j')" using Claim_inv [OF inv, of env remote n] claim by (simp add: db_inv_def)
  assume "set (map u_ID us) \<inter> set (map u_ID vs) \<noteq> {}"
  then obtain u v where uv: "u \<in> set us" "v \<in> set vs" "u_ID u = u_ID v" by auto
  obtain r where r: "row_of (jdb j') (u_ID u) = Some r" "r_state r = StateUploading"
    using Claim_row [OF inv claim uv(1)] by metis
  obtain q where q: "q \<in> set (claim_rows env2 remote2 m (jdb j'))" "u_ID v = r_id q"
    using uv(2) Claim_ok(1) [OF again] by auto
  have "row_of (jdb j') (u_ID u) = Some q"
    using claim_rows_in [OF q(1)] q(2) uv(3) inv' by (simp add: row_of_iff)
  then show False using claim_rows_in [OF q(1)] r by (simp add: claimable_def)
qed

text \<open>
  C5. Claims are exclusive and first in, first out. A claim takes the oldest due, published,
  pending rows of its remote, up to its limit; it marks exactly those rows uploading and returns
  them as they now stand; and no later claim, whatever its remote, returns one of them as long as
  nobody gives it back.
\<close>

theorem Claim_exclusive:
  assumes "db_inv (jdb j)" and "Claim env j remote n = (Inr us, j')"
  shows "map u_ID us = map r_id (sql_limit n (sel_where (claimable env remote) (uploads (jdb j)))) \<and>
    (\<forall>u \<in> set us. \<exists>r. row_of (jdb j') (u_ID u) = Some r \<and> r_state r = StateUploading \<and> scanUpload r = u) \<and>
    (\<forall>x. x \<notin> set (map u_ID us) \<longrightarrow> row_of (jdb j') x = row_of (jdb j) x) \<and>
    (\<forall>env2 remote2 m vs j''. Claim env2 j' remote2 m = (Inr vs, j'') \<longrightarrow>
       set (map u_ID us) \<inter> set (map u_ID vs) = {})"
proof (intro conjI ballI allI impI)
  show "map u_ID us = map r_id (sql_limit n (sel_where (claimable env remote) (uploads (jdb j))))"
    unfolding Claim_ok(1) [OF assms(2)] claim_rows_def by simp
  show "row_of (jdb j') x = row_of (jdb j) x" if "x \<notin> set (map u_ID us)" for x
    using that Claim_ok [OF assms(2)] by auto
qed (use Claim_row [OF assms] Claim_again [OF assms] in \<open>metis+\<close>)

theorem Claim_exclusive_witness:
  "\<exists>us j'. Claim sample_env (sample_journal [sample_row 1 ''a'' StatePending ''/j/objects/a'',
      sample_row 2 ''b'' StatePending ''/j/objects/b'']) ''r'' 1 = (Inr us, j') \<and>
    map u_ID us = [''a''] \<and> row_of (jdb j') ''b'' = Some (sample_row 2 ''b'' StatePending ''/j/objects/b'')"
proof -
  let ?j = "sample_journal [sample_row 1 ''a'' StatePending ''/j/objects/a'',
      sample_row 2 ''b'' StatePending ''/j/objects/b'']"
  have inv: "db_inv (jdb ?j)" by (rule sample_inv) simp_all
  obtain us j' where claim: "Claim sample_env ?j ''r'' 1 = (Inr us, j')"
    by (simp add: Claim_def tx_calm Let_def)
  have ids: "map r_id (sql_limit 1 (sel_where (claimable sample_env ''r'') (uploads (jdb ?j)))) = [''a'']"
    by code_simp
  have b: "row_of (jdb ?j) ''b'' = Some (sample_row 2 ''b'' StatePending ''/j/objects/b'')"
    by (simp add: row_of_def sample_journal_def empty_db_def)
  show ?thesis using Claim_exclusive [OF inv claim] claim ids b by auto
qed

section \<open>Commits\<close>

lemma row_of_upsert:
  "row_of (upsert_upload u d) x =
     (if x = u_ID u
      then Some (case row_of d x of Some r \<Rightarrow> upsert_row u r | None \<Rightarrow> new_row (next_rowid (uploads d)) u)
      else row_of d x)"
proof (cases "row_of d (u_ID u)")
  case None
  have "row_of (d\<lparr>uploads := uploads d @ [y]\<rparr>) x =
      (case row_of d x of Some r \<Rightarrow> Some r | None \<Rightarrow> if r_id y = x then Some y else None)" for y
    by (simp add: row_of_def sel_one_append split: option.split)
  then show ?thesis
    using None by (auto simp: upsert_upload_def new_row_def split: option.split)
next
  case (Some r)
  then show ?thesis by (auto simp: upsert_upload_def row_of_upd_id)
qed

text \<open>The row holds what the caller handed over.\<close>

definition stored_as :: "Upload \<Rightarrow> urow \<Rightarrow> bool" where
  "stored_as u r \<longleftrightarrow>
     r_id r = u_ID u \<and> r_remote r = u_Remote u \<and> r_remote_parent_id r = u_RemoteParentID u \<and>
     r_name r = u_Name u \<and> r_blob_path r = u_BlobPath u \<and> r_size r = u_Size u \<and>
     r_hashes r = u_Hashes u \<and>
     r_state r = (if u_State u = StateEmpty then StatePending else u_State u) \<and>
     r_expected_version r = u_ExpectedVersion u \<and> r_ino r = u_Ino u \<and>
     r_needs_publish r = u_NeedsPublish u \<and> r_meta_identity r = u_MetaIdentity u \<and>
     r_mount_prefix r = u_MountPrefix u \<and> r_mount_root_id r = u_MountRootID u \<and>
     r_account_binding r = u_AccountBinding u"

lemma insertUploadTx_row:
  assumes "insertUploadTx env j u d = Inr (a, d')"
  shows "\<exists>r. row_of d' (u_ID u) = Some r \<and> stored_as u r"
    and "x \<noteq> u_ID u \<Longrightarrow> row_of d' x = row_of d x"
  using assms
proof (atomize (full), cases rule: insertUploadTx_cases)
  case (1 u')
  then show "(\<exists>r. row_of d' (u_ID u) = Some r \<and> stored_as u r) \<and> (x \<noteq> u_ID u \<longrightarrow> row_of d' x = row_of d x)"
    by (auto simp: row_of_upsert stored_as_def upsert_row_def new_row_def split: option.split
      dest: row_of_SomeD)
qed

lemma insert_all_row:
  assumes "insert_all env j us d = Inr (a, d')" "distinct (map u_ID us)"
  shows "\<forall>u \<in> set us. \<exists>r. row_of d' (u_ID u) = Some r \<and> stored_as u r"
    and "x \<notin> u_ID ` set us \<Longrightarrow> row_of d' x = row_of d x"
proof -
  have "(\<forall>u \<in> set us. \<exists>r. row_of d' (u_ID u) = Some r \<and> stored_as u r) \<and>
      (\<forall>x. x \<notin> u_ID ` set us \<longrightarrow> row_of d' x = row_of d x)"
    using assms
  proof (induction us arbitrary: d)
    case (Cons u us)
    obtain b d1 where ins: "insertUploadTx env j u d = Inr (b, d1)" and rest: "insert_all env j us d1 = Inr (a, d')"
      using Cons.prems(1) by (auto split: sum.splits)
    have IH: "(\<forall>u \<in> set us. \<exists>r. row_of d' (u_ID u) = Some r \<and> stored_as u r) \<and>
        (\<forall>x. x \<notin> u_ID ` set us \<longrightarrow> row_of d' x = row_of d1 x)"
      using Cons.IH [OF rest] Cons.prems(2) by simp
    moreover have "u_ID u \<notin> u_ID ` set us" using Cons.prems(2) by simp
    ultimately show ?case using insertUploadTx_row [OF ins] by auto
  qed simp
  then show "\<forall>u \<in> set us. \<exists>r. row_of d' (u_ID u) = Some r \<and> stored_as u r"
    and "x \<notin> u_ID ` set us \<Longrightarrow> row_of d' x = row_of d x" by blast+
qed

text \<open>The verdicts of a sequence of commits, one for each row.\<close>

definition verdict_ok :: "jdb \<Rightarrow> jdb \<Rightarrow> Upload \<Rightarrow> jerr option \<Rightarrow> bool" where
  "verdict_ok d d' u v \<longleftrightarrow>
     (case v of
        None \<Rightarrow> \<exists>r. row_of d' (u_ID u) = Some r \<and> stored_as u r
      | Some e \<Rightarrow> row_of d' (u_ID u) = row_of d (u_ID u))"

lemma commit_each_verdicts:
  assumes "commit_each env us j = (vs, j')" "distinct (map u_ID us)"
  shows "list_all2 (verdict_ok (jdb j) (jdb j')) us vs"
    and "x \<notin> u_ID ` set us \<Longrightarrow> row_of (jdb j') x = row_of (jdb j) x"
proof -
  have "list_all2 (verdict_ok (jdb j) (jdb j')) us vs \<and>
      (\<forall>x. x \<notin> u_ID ` set us \<longrightarrow> row_of (jdb j') x = row_of (jdb j) x)"
    using assms
  proof (induction us arbitrary: env j vs)
    case (Cons u us)
    obtain r j1 where run: "tx env (insertUploadTx env j u) j = (r, j1)" by fastforce
    obtain ws where rest: "commit_each (after 1 env) us j1 = (ws, j')"
      and vs: "vs = (case r of Inl e \<Rightarrow> Some e | Inr _ \<Rightarrow> None) # ws"
      using Cons.prems(1) run by (auto simp: Let_def split: prod.splits)
    have IH: "list_all2 (verdict_ok (jdb j1) (jdb j')) us ws"
      "\<And>x. x \<notin> u_ID ` set us \<Longrightarrow> row_of (jdb j') x = row_of (jdb j1) x"
      using Cons.IH [OF rest] Cons.prems(2) by auto
    have new: "u_ID u \<notin> u_ID ` set us" using Cons.prems(2) by simp
    from run have one: "verdict_ok (jdb j) (jdb j1) u (case r of Inl e \<Rightarrow> Some e | Inr _ \<Rightarrow> None) \<and>
        (\<forall>x. x \<noteq> u_ID u \<longrightarrow> row_of (jdb j1) x = row_of (jdb j) x)"
      by (cases rule: tx_cases) (auto simp: verdict_ok_def dest: insertUploadTx_row)
    have "verdict_ok (jdb j) (jdb j') u (case r of Inl e \<Rightarrow> Some e | Inr _ \<Rightarrow> None)"
      using one IH(2) [OF new] by (cases r) (simp_all add: verdict_ok_def)
    moreover have "list_all2 (verdict_ok (jdb j) (jdb j')) us ws"
    proof (rule list.rel_mono_strong)
      show "list_all2 (verdict_ok (jdb j1) (jdb j')) us ws" by (rule IH(1))
      fix w v assume "w \<in> set us" "v \<in> set ws" "verdict_ok (jdb j1) (jdb j') w v"
      moreover have "u_ID w \<noteq> u_ID u" using new \<open>w \<in> set us\<close> by (metis image_eqI)
      ultimately show "verdict_ok (jdb j) (jdb j') w v"
        using one by (auto simp: verdict_ok_def split: option.splits)
    qed
    ultimately show ?case using vs one IH(2) by auto
  qed simp
  then show "list_all2 (verdict_ok (jdb j) (jdb j')) us vs"
    and "x \<notin> u_ID ` set us \<Longrightarrow> row_of (jdb j') x = row_of (jdb j) x" by blast+
qed

lemma Commit_verdicts:
  assumes run: "commitBatch env j us = (vs, j')" and ids: "distinct (map u_ID us)"
  shows "list_all2 (verdict_ok (jdb j) (jdb j')) us vs"
    and "x \<notin> u_ID ` set us \<Longrightarrow> row_of (jdb j') x = row_of (jdb j) x"
proof -
  have same: "list_all2 (verdict_ok d d) us (replicate (length us) (Some e))" for d e
    by (simp add: list_all2_conv_all_nth verdict_ok_def)
  obtain r j1 where t: "tx env (insert_all env j us) j = (r, j1)" by fastforce
  have "list_all2 (verdict_ok (jdb j) (jdb j')) us vs \<and>
      (\<forall>x. x \<notin> u_ID ` set us \<longrightarrow> row_of (jdb j') x = row_of (jdb j) x)"
  proof (cases "syncObjects env j")
    case (Some e)
    then show ?thesis using run same by (auto simp: commitBatch_def)
  next
    case None
    from t show ?thesis
    proof (cases rule: tx_cases)
      case (ok a d)
      then have "vs = replicate (length us) None" "jdb j' = d"
        using run t None by (auto simp: commitBatch_def)
      then show ?thesis
        using insert_all_row [OF ok(1) ids]
        by (auto simp: list_all2_conv_all_nth verdict_ok_def)
    next
      case (fail e)
      show ?thesis
      proof (cases "length us > 1")
        case True
        then have "commit_each (after 1 env) us j = (vs, j')"
          using run t None fail by (simp add: commitBatch_def)
        then show ?thesis using commit_each_verdicts [OF _ ids] by blast
      next
        case False
        then have "vs = replicate (length us) (Some e)" "jdb j' = jdb j"
          using run t None fail by (auto simp: commitBatch_def)
        then show ?thesis using same by simp
      qed
    qed
  qed
  then show "list_all2 (verdict_ok (jdb j) (jdb j')) us vs"
    and "x \<notin> u_ID ` set us \<Longrightarrow> row_of (jdb j') x = row_of (jdb j) x" by blast+
qed



text \<open>What the insertion of a row reads of the journal and of the environment.\<close>

lemma insertUploadTx_cong:
  assumes "jos j' = jos j" "jdir j' = jdir j"
  shows "insertUploadTx (after n env) j' u = insertUploadTx env j u"
proof -
  have paths: "jabs j' = jabs j" "CopiesDir j' = CopiesDir j"
    by (simp_all add: jabs_def CopiesDir_def assms fun_eq_iff)
  have cp: "copyPath (after n env) j' = copyPath env j"
    by (intro ext) (simp only: copyPath_def paths assms after_simps)
  have "checkCopyUploadOwner (after n env) j' = checkCopyUploadOwner env j"
    by (intro ext) (simp only: checkCopyUploadOwner_def paths cp)
  moreover have "checkDiscardedPayload (after n env) j' = checkDiscardedPayload env j"
    by (intro ext) (simp only: checkDiscardedPayload_def paths assms os_after)
  ultimately show ?thesis
    by (intro ext) (simp only: insertUploadTx_def after_simps)
qed

lemma insertUploadTx_jdb [simp]: "insertUploadTx env (j\<lparr>jdb := d\<rparr>) u = insertUploadTx env j u"
  using insertUploadTx_cong [of "j\<lparr>jdb := d\<rparr>" j 0 env u] by (simp add: after_def)

lemma insertUploadTx_after [simp]: "insertUploadTx (after n env) j u = insertUploadTx env j u"
  by (rule insertUploadTx_cong) simp_all

lemma commit_each_after: "calm env \<Longrightarrow> commit_each (after n env) us j = commit_each env us j"
proof (induction us arbitrary: n j)
  case (Cons u us)
  have "after 1 (after n env) = after (1 + n) env" by (simp add: after_def add.assoc)
  then show ?case
    using Cons.IH [OF Cons.prems] Cons.prems
    by (simp add: tx_calm Let_def split: prod.split)
qed simp

lemma insert_all_each:
  assumes "calm env" "insert_all env j us (jdb j) = Inr (a, d)"
  shows "commit_each env us j = (replicate (length us) None, j\<lparr>jdb := d\<rparr>)"
  using assms(2)
proof (induction us arbitrary: j)
  case (Cons u us)
  obtain b d1 where ins: "insertUploadTx env j u (jdb j) = Inr (b, d1)"
    and rest: "insert_all env j us d1 = Inr (a, d)"
    using Cons.prems by (auto split: sum.splits)
  have "insert_all env (j\<lparr>jdb := d1\<rparr>) vs e = insert_all env j vs e" for vs e
    by (induction vs arbitrary: e) (auto split: sum.split)
  then have "commit_each env us (j\<lparr>jdb := d1\<rparr>) = (replicate (length us) None, j\<lparr>jdb := d\<rparr>)"
    using Cons.IH [of "j\<lparr>jdb := d1\<rparr>"] rest by simp
  then show ?case
    using assms(1) ins by (simp add: tx_calm commit_each_after)
qed simp

text \<open>
  C7. In a quiet environment group commit is only faster: its verdicts and the tables it leaves are
  those of committing the same rows one after the other, each in a transaction of its own.
\<close>

theorem group_commit_sequential:
  assumes "calm env" and "syncObjects env j = None"
  shows "fst (commitBatch env j us) = fst (commit_each env us j) \<and>
    jdb (snd (commitBatch env j us)) = jdb (snd (commit_each env us j))"
proof (cases "insert_all env j us (jdb j)")
  case (Inr v)
  obtain a d where v: "v = (a, d)" by (cases v)
  show ?thesis
    using insert_all_each [OF assms(1)] Inr v assms by (simp add: commitBatch_def tx_calm)
next
  case (Inl e)
  show ?thesis
  proof (cases "length us > 1")
    case True
    then show ?thesis using Inl assms by (simp add: commitBatch_def tx_calm commit_each_after)
  next
    case False
    then obtain u where us: "us = [u]" using Inl by (cases us) auto
    then have "insertUploadTx env j u (jdb j) = Inl e" using Inl by (auto split: sum.splits)
    then show ?thesis using us Inl assms by (simp add: commitBatch_def tx_calm)
  qed
qed

theorem group_commit_sequential_witness:
  "fst (commitBatch sample_env (sample_journal [])
     [sample_upload ''a'' ''/j/objects/a'', sample_upload [] ''/j/objects/b'']) = [None, Some ENeedsID]"
proof -
  have "syncObjects sample_env (sample_journal []) = None" by code_simp
  moreover have "fst (commit_each sample_env [sample_upload ''a'' ''/j/objects/a'',
      sample_upload [] ''/j/objects/b''] (sample_journal [])) = [None, Some ENeedsID]"
    by code_simp
  ultimately show ?thesis using group_commit_sequential [OF sample_calm] by simp
qed

end
