(* ===== verification/QueueOutcomes.thy ===== *)
theory QueueOutcomes
  imports QueueProps
begin

text \<open>
  How uploads leave the queue: success and the retention of finished rows, superseded and dropped
  rows, the payloads collected on the way, and the paged listing of what is left.
\<close>

section \<open>Retention of finished rows\<close>

lemma sorted_rev_take_max:
  fixes k :: "'r \<Rightarrow> 'k :: linorder"
  assumes "x \<in> set xs" "x \<notin> set (take n (rev (sort_key k xs)))" "y \<in> set (take n (rev (sort_key k xs)))"
  shows "k x \<le> k y"
proof -
  let ?R = "rev (sort_key k xs)"
  have "sorted_wrt (\<ge>) (map k ?R)"
    by (simp add: rev_map [symmetric] sorted_wrt_rev sorted_sort_key)
  then have "sorted_wrt (\<ge>) (map k (take n ?R) @ map k (drop n ?R))"
    by (metis append_take_drop_id map_append)
  moreover have "x \<in> set (drop n ?R)"
    using assms(1,2) by (metis Un_iff append_take_drop_id set_append set_rev set_sort)
  ultimately show ?thesis using assms(3) by (auto simp: sorted_wrt_append)
qed

definition done_key :: "urow \<Rightarrow> int \<times> string" where
  "done_key r = (r_done_at r, r_id r)"

definition recent_rows :: "jdb \<Rightarrow> urow list" where
  "recent_rows d = take doneHistory (rev (sort_key done_key (sel_where finished (uploads d))))"

lemma done_recent_rows: "done_recent d = map r_id (recent_rows d)"
  unfolding done_recent_def recent_rows_def done_key_def by simp

text \<open>A victim of pruning leaves two hundred younger finished rows behind.\<close>

lemma prune_victim:
  assumes inv: "upload_inv d" and v: "x \<in> set (prune_victims before d)" and r: "row_of d x = Some r"
  shows "finished r \<and> r_done_at r < before \<and> length (recent_rows d) = doneHistory \<and>
    (\<forall>q \<in> set (recent_rows d). q \<in> set (uploads d) \<and> r_id q \<notin> set (prune_victims before d) \<and>
       finished q \<and> r_done_at r \<le> r_done_at q)"
proof -
  obtain q where "q \<in> set (uploads d)" "r_id q = x" and q: "finished q" "r_done_at q < before"
      "x \<notin> set (done_recent d)"
    using v by (auto simp: prune_victims_def table_simps)
  then have "q = r" using r inv by (simp add: row_of_iff key_unique [OF upload_inv_ids])
  have rin: "r \<in> set (sel_where finished (uploads d))"
    using r q(1) \<open>q = r\<close> row_of_SomeD by (fastforce simp: table_simps)
  have rout: "r \<notin> set (recent_rows d)"
    using q(3) row_of_SomeD [OF r] by (auto simp: done_recent_rows)
  have len: "length (recent_rows d) = doneHistory"
  proof (rule ccontr)
    assume "length (recent_rows d) \<noteq> doneHistory"
    then have "recent_rows d = rev (sort_key done_key (sel_where finished (uploads d)))"
      by (simp add: recent_rows_def min_def split: if_splits)
    then show False using rin rout by simp
  qed
  have "r_done_at r \<le> r_done_at p \<and> p \<in> set (sel_where finished (uploads d))"
    if p: "p \<in> set (recent_rows d)" for p
  proof
    have "done_key r \<le> done_key p"
      using sorted_rev_take_max [OF rin] rout p unfolding recent_rows_def by blast
    then show "r_done_at r \<le> r_done_at p" by (auto simp: done_key_def less_eq_prod_def)
    show "p \<in> set (sel_where finished (uploads d))"
      using in_set_takeD [OF p [unfolded recent_rows_def]] by simp
  qed
  moreover have "r_id p \<notin> set (prune_victims before d)" if "p \<in> set (recent_rows d)" for p
    using imageI [OF that, of r_id] by (auto simp: prune_victims_def table_simps done_recent_rows)
  ultimately show ?thesis using q \<open>q = r\<close> len by (auto simp: table_simps)
qed

lemma pruneDoneTx_row:
  "row_of (pruneDoneTx before d) x = (if x \<in> set (prune_victims before d) then None else row_of d x)"
  by (simp add: pruneDoneTx_def row_of_forget_all)

definition pruned :: "int \<Rightarrow> urow \<Rightarrow> jdb \<Rightarrow> bool" where
  "pruned before q d' \<longleftrightarrow>
     finished q \<and> r_done_at q < before \<and>
     doneHistory \<le> length (filter (\<lambda>p. finished p \<and> r_done_at q \<le> r_done_at p) (uploads d'))"

lemma pruneDoneTx_pruned:
  assumes inv: "upload_inv d" and x: "x \<in> set (prune_victims before d)" and q: "row_of d x = Some q"
  shows "pruned before q (pruneDoneTx before d)"
proof -
  let ?d = "pruneDoneTx before d"
  let ?young = "filter (\<lambda>p. finished p \<and> r_done_at q \<le> r_done_at p) (uploads ?d)"
  note v = prune_victim [OF inv x q]
  have "set (recent_rows d) \<subseteq> set ?young"
  proof
    fix p assume p: "p \<in> set (recent_rows d)"
    then have "p \<in> set (uploads d)" "r_id p \<notin> set (prune_victims before d)"
      and fin: "finished p" "r_done_at q \<le> r_done_at p"
      using v by blast+
    then have "row_of ?d (r_id p) = Some p" using inv by (simp add: pruneDoneTx_row row_of_iff)
    then show "p \<in> set ?young" using fin row_of_SomeD by fastforce
  qed
  then have "card (set (recent_rows d)) \<le> length ?young"
    by (meson card_length card_mono finite_set le_trans)
  moreover have "distinct (recent_rows d)"
    using upload_inv_ids [OF inv] unfolding recent_rows_def sel_where_def
    by (simp add: distinct_map distinct_sort)
  ultimately show ?thesis using v by (simp add: pruned_def distinct_card)
qed

lemma unixMilli_pos: "0 < unixMilli t \<Longrightarrow> 0 < t"
  by (simp add: unixMilli_def time_unix_milli_def pos_imp_zdiv_pos_iff split: if_splits)

lemma unixMilli_before: "0 < unixMilli t \<Longrightarrow> unixMilli (t - doneRetention) \<le> unixMilli t"
proof -
  assume "0 < unixMilli t"
  then have "0 < t" by (rule unixMilli_pos)
  then have "t \<noteq> zero_time" "t - doneRetention \<noteq> zero_time"
    by (simp_all add: zero_time_def doneRetention_def)
  then show "unixMilli (t - doneRetention) \<le> unixMilli t"
    by (simp add: unixMilli_def time_unix_milli_mono doneRetention_def)
qed

lemma forget_all_parts: "p \<in> set (upload_parts (forget_all ids d)) \<Longrightarrow> p \<in> set (upload_parts d)"
  by (induction ids arbitrary: d) (fastforce simp: forget_upload_def table_simps)+

text \<open>The database half of \<open>Succeed\<close>.\<close>

lemma succeed_tx_rows:
  assumes inv: "db_inv d" and ok: "succeed_tx env uid d = Inr (blob, d')"
  obtains r where "row_of d uid = Some r" "blob = r_blob_path r"
    "r_state r \<notin> {StatePurging, StateCancelled, StateCancelling}"
    "row_of d' uid = Some (finish_row env r)"
    "\<forall>p \<in> set (upload_parts d'). pt_upload p \<noteq> uid"
    "\<forall>x. x \<noteq> uid \<longrightarrow> row_of d' x = row_of d x \<or>
       (\<exists>q. row_of d x = Some q \<and> row_of d' x = None \<and>
          pruned (unixMilli (now env - doneRetention)) q d')"
proof -
  obtain r where r: "row_of d uid = Some r" "blob = r_blob_path r" and g: "guardNotCancelled d uid = None"
    using ok by (auto simp: succeed_tx_def guarded_Inr split: option.splits)
  define before where "before = unixMilli (now env - doneRetention)"
  define d1 where "d1 = (upd_id uid (finish_row env) d)
      \<lparr>upload_parts := del_where (\<lambda>p. pt_upload p = uid) (upload_parts d)\<rparr>"
  have d': "d' = pruneDoneTx before d1"
    using ok r by (auto simp: succeed_tx_def guarded_Inr d1_def before_def)
  have row1: "row_of d1 x = (if x = uid then map_option (finish_row env) (row_of d x) else row_of d x)" for x
    using row_of_upd_id [of "finish_row env" uid d x] by (simp add: row_of_def d1_def)
  have inv1: "upload_inv d1"
    unfolding d1_def using inv guard_row [OF guard_cancel_purging [OF g]]
    by (auto simp: db_inv_def inv_frame finish_row_def intro!: upd_id_inv keeps_keys_updates)
  have own: "uid \<notin> set (prune_victims before d1)"
  proof
    assume "uid \<in> set (prune_victims before d1)"
    then have "finished (finish_row env r) \<and> r_done_at (finish_row env r) < before"
      using prune_victim [OF inv1] row1 r by simp
    then show False
      using unixMilli_before [of "now env"] by (simp add: finished_def finish_row_def before_def)
  qed
  have others: "row_of d' x = row_of d x \<or>
      (\<exists>q. row_of d x = Some q \<and> row_of d' x = None \<and> pruned before q d')" if "x \<noteq> uid" for x
    using that row1 [of x] pruneDoneTx_pruned [OF inv1, of x before]
    by (cases "row_of d x") (auto simp: d' pruneDoneTx_row)
  have "\<forall>p \<in> set (upload_parts d'). pt_upload p \<noteq> uid"
    using forget_all_parts by (fastforce simp: d' pruneDoneTx_def d1_def table_simps)
  moreover have "row_of d' uid = Some (finish_row env r)"
    using own row1 r by (simp add: d' pruneDoneTx_row)
  ultimately show ?thesis
    using that [OF r guard_cancel_row [OF g r(1)]] others unfolding before_def by blast
qed

lemma Succeed_ok:
  assumes "Succeed env j uid = (Inr u, j')"
  obtains blob d where "succeed_tx env uid (jdb j) = Inr (blob, d)"
    "j' = removeBlobIfUnreferenced (after 1 env) (j\<lparr>jdb := d\<rparr>) blob"
proof -
  obtain x j1 where t: "tx env (succeed_tx env uid) j = (x, j1)" by fastforce
  then show ?thesis
    using assms that t by (cases rule: tx_cases) (auto simp: Succeed_def)
qed

text \<open>
  C8. A successful upload. The row must not be cancelled or being purged; it stays, marked done and
  without a payload, its parts are gone. Every other row is untouched, except that a row finished
  more than five minutes ago may be reclaimed, and then at least two hundred rows finished no
  earlier than it are still there. The payload of every row that remains is what it was.
\<close>

theorem Succeed_outcome:
  assumes "db_inv (jdb j)" and "Succeed env j uid = (Inr u, j')"
  shows "\<exists>r. row_of (jdb j) uid = Some r \<and>
    r_state r \<notin> {StatePurging, StateCancelled, StateCancelling} \<and>
    row_of (jdb j') uid = Some (finish_row env r) \<and>
    (\<forall>p \<in> set (upload_parts (jdb j')). pt_upload p \<noteq> uid) \<and>
    (\<forall>x. x \<noteq> uid \<longrightarrow> row_of (jdb j') x = row_of (jdb j) x \<or>
       (\<exists>q. row_of (jdb j) x = Some q \<and> row_of (jdb j') x = None \<and>
          pruned (unixMilli (now env - doneRetention)) q (jdb j'))) \<and>
    (\<forall>q \<in> set (uploads (jdb j')). r_blob_path q \<noteq> [] \<longrightarrow> payload (jos j') q = payload (jos j) q)"
  using assms(2)
proof (cases rule: Succeed_ok)
  case (1 blob d)
  have jdb': "jdb j' = d" using 1(2) by simp
  have pay: "\<forall>q \<in> set (uploads (jdb j')). r_blob_path q \<noteq> [] \<longrightarrow> payload (jos j') q = payload (jos j) q"
    using removeBlob_payload [of _ "j\<lparr>jdb := d\<rparr>" "after 1 env" blob] 1(2) by simp
  show ?thesis using succeed_tx_rows [OF assms(1) 1(1)] pay jdb' by metis
qed

theorem Succeed_outcome_witness:
  "\<exists>j'. Succeed sample_env (sample_journal [sample_row 1 ''a'' StateUploading ''/j/objects/a'',
      sample_row 2 ''b'' StatePending ''/j/objects/b'']) ''a'' = (Inr (), j') \<and>
    (\<exists>r. row_of (jdb j') ''a'' = Some r \<and> r_state r = StateDone)"
proof -
  let ?j = "sample_journal [sample_row 1 ''a'' StateUploading ''/j/objects/a'',
      sample_row 2 ''b'' StatePending ''/j/objects/b'']"
  have inv: "db_inv (jdb ?j)" by (rule sample_inv) simp_all
  have "isl (fst (Succeed sample_env ?j ''a'')) = False" by code_simp
  then obtain j' where run: "Succeed sample_env ?j ''a'' = (Inr (), j')"
    by (cases "Succeed sample_env ?j ''a''"; cases "fst (Succeed sample_env ?j ''a'')") auto
  show ?thesis using Succeed_outcome [OF inv run] run by (auto simp: finish_row_def)
qed

text \<open>
  C9. Success gives the disk space back. With no fault, when the payload is a regular file in the
  objects directory (or the private file of a copy nobody else needs), no staging handle holds it
  and no other row shares its path or its inode, its name is gone afterwards.
\<close>

theorem Succeed_releases:
  assumes "db_inv (jdb j)" and "calm env" and "Succeed env j uid = (Inr u, j')"
    and "row_of (jdb j) uid = Some r" and "r_blob_path r \<noteq> []"
    and "gc_authority env j (r_blob_path r) = Some (a, cid)" and "stagedRefs j a = 0"
    and "map_of (os_names (jos j)) a = Some (i, KReg)"
    and "\<forall>q \<in> set (uploads (jdb j)). r_id q \<noteq> uid \<longrightarrow> clears (jos j) a (Some (node_info (jos j) (i, KReg))) q"
    and "cid \<noteq> [] \<Longrightarrow> copy_refs (jdb j) cid = 0"
  shows "map_of (os_names (jos j')) a = None"
  using assms(3)
proof (cases rule: Succeed_ok)
  case (1 blob d)
  obtain r' where rows: "row_of (jdb j) uid = Some r'" "blob = r_blob_path r'"
      "row_of d uid = Some (finish_row env r')"
    and gone: "\<forall>x. x \<noteq> uid \<longrightarrow> row_of d x = row_of (jdb j) x \<or>
       (\<exists>q. row_of (jdb j) x = Some q \<and> row_of d x = None \<and>
          pruned (unixMilli (now env - doneRetention)) q d)"
    by (rule succeed_tx_rows [OF assms(1) 1(1)])
  have kept: "row_of (jdb j) x = Some q" if "row_of d x = Some q" "x \<noteq> uid" for x q
    using gone [rule_format, OF that(2)] that(1) by auto
  have inv': "upload_inv d" using succeed_tx_inv [OF assms(1) 1(1)] by (simp add: db_inv_def)
  have copies: "copy_refs d c = copy_refs (jdb j) c" for c
  proof -
    have "copy_jobs (forget_all ids e) = copy_jobs e \<and> copy_cleanup (forget_all ids e) = copy_cleanup e" for ids e
      by (induction ids arbitrary: e) (auto simp: forget_upload_def)
    then show ?thesis
      using 1(1) by (auto simp: succeed_tx_def guarded_Inr pruneDoneTx_def copy_refs_def split: option.splits)
  qed
  have "clears (jos j) a (Some (node_info (jos j) (i, KReg))) q" if "q \<in> set (uploads d)" for q
  proof (cases "r_id q = uid")
    case True
    then have "row_of d uid = Some q" using that inv' by (simp add: row_of_iff)
    then have "q = finish_row env r'" using rows(3) by simp
    then show ?thesis by (simp add: clears_def finish_row_def)
  next
    case False
    have "row_of d (r_id q) = Some q" using that inv' by (simp add: row_of_iff)
    then have "row_of (jdb j) (r_id q) = Some q" using kept False by blast
    then have "q \<in> set (uploads (jdb j))" by (simp add: row_of_SomeD)
    then show ?thesis using assms(9) False by blast
  qed
  moreover have "gc_authority (after 1 env) (j\<lparr>jdb := d\<rparr>) blob = Some (a, cid)"
    using assms(4,6) rows by simp
  ultimately show ?thesis
    unfolding 1(2) using assms(2,4,5,7,8,10) rows copies
    by (intro removeBlob_releases [where i = i and cid = cid]) auto
qed

theorem Succeed_releases_witness:
  "map_of (os_names (jos (snd (Succeed sample_env (sample_journal
      [sample_row 1 ''a'' StateUploading ''/j/objects/a'',
       sample_row 2 ''b'' StatePending ''/j/objects/b'']) ''a'')))) ''/j/objects/a'' = None"
proof -
  let ?j = "sample_journal [sample_row 1 ''a'' StateUploading ''/j/objects/a'',
      sample_row 2 ''b'' StatePending ''/j/objects/b'']"
  have inv: "db_inv (jdb ?j)" by (rule sample_inv) simp_all
  have "isl (fst (Succeed sample_env ?j ''a'')) = False" by code_simp
  then obtain j' where run: "Succeed sample_env ?j ''a'' = (Inr (), j')"
    by (cases "Succeed sample_env ?j ''a''"; cases "fst (Succeed sample_env ?j ''a'')") auto
  let ?r = "sample_row 1 ''a'' StateUploading ''/j/objects/a''"
  have row: "row_of (jdb ?j) ''a'' = Some ?r" by (simp add: row_of_def sample_journal_def)
  have "gc_authority sample_env ?j ''/j/objects/a'' = Some (''/j/objects/a'', [])" by code_simp
  then have auth: "gc_authority sample_env ?j (r_blob_path ?r) = Some (''/j/objects/a'', [])"
    by (simp only: sample_row_simps)
  have fil: "map_of (os_names (jos ?j)) ''/j/objects/a'' = Some (5, KReg)" by code_simp
  have "filepath_abs (jos ?j) ''/j/objects/b'' \<noteq> None"
    "filepath_abs (jos ?j) ''/j/objects/b'' \<noteq> Some ''/j/objects/a''"
    "map_option fst (resolve (jos ?j) ''/j/objects/b'') \<noteq> Some 5"
    by code_simp+
  then have "clears (jos ?j) ''/j/objects/a'' (Some (node_info (jos ?j) (5, KReg)))
      (sample_row 2 ''b'' StatePending ''/j/objects/b'')"
    unfolding clears_def node_info_def sample_row_simps by simp
  then have own: "\<forall>q \<in> set (uploads (jdb ?j)). r_id q \<noteq> ''a'' \<longrightarrow>
      clears (jos ?j) ''/j/objects/a'' (Some (node_info (jos ?j) (5, KReg))) q"
    by (simp add: sample_journal_def)
  have free: "r_blob_path ?r \<noteq> []" "stagedRefs ?j ''/j/objects/a'' = 0"
    by (simp_all add: sample_journal_def)
  have "map_of (os_names (jos j')) ''/j/objects/a'' = None"
    by (rule Succeed_releases [OF inv sample_calm run row free(1) auth free(2) fil own]) simp
  then show ?thesis using run by simp
qed

section \<open>Superseded uploads\<close>

lemma row_of_drop_rows: "row_of (drop_rows uid d) x = (if x = uid then None else row_of d x)"
  using row_of_forget_upload [of uid d x] by (simp add: row_of_def drop_rows_def forget_upload_def)

lemma dropIdle_cases:
  assumes "dropIdle env j uid po = (res, j')"
  obtains e where "res = Inl e" "j' = j"
  | r where "res = Inr ()" "row_of (jdb j) uid = Some r" "jdb j' = drop_rows uid (jdb j)"
      "r_state r \<in> {StatePending, StateDead, StateDone}" "po \<longrightarrow> r_state r = StatePending"
      "j' = removeBlobIfUnreferenced (after 1 env) (j\<lparr>jdb := drop_rows uid (jdb j)\<rparr>) (r_blob_path r)"
proof -
  obtain x j1 where t: "tx env (drop_idle_tx uid po) j = (x, j1)" by fastforce
  then show ?thesis
  proof (cases rule: tx_cases)
    case (fail e)
    then show ?thesis using that(1) [of e] assms t by (simp add: dropIdle_def)
  next
    case (ok b d)
    from ok(1) show ?thesis
    proof (cases rule: drop_idle_tx_ok)
      case (1 r)
      then show ?thesis using that(2) [of r] assms t ok by (auto simp: dropIdle_def)
    qed
  qed
qed

lemma dropIdle_pending:
  assumes "calm env" "row_of (jdb j) uid = Some r" "r_state r = StatePending"
  shows "\<exists>j'. dropIdle env j uid True = (Inr (), j')"
proof -
  have "guardNotPurging (jdb j) uid = None"
    using assms by (simp add: guardNotPurging_def uploadMutationState_def)
  then show ?thesis
    using assms by (simp add: dropIdle_def tx_calm drop_idle_tx_def)
qed

text \<open>Under every fault the loop only takes pending rows of its list.\<close>

lemma drop_ids_rows:
  "drop_ids env ids n j = (res, j') \<Longrightarrow>
   row_of (jdb j') x = row_of (jdb j) x \<or>
   (x \<in> set ids \<and> row_of (jdb j') x = None \<and> (\<exists>r. row_of (jdb j) x = Some r \<and> r_state r = StatePending))"
proof (induction ids arbitrary: env n j)
  case (Cons uid ids)
  obtain y j1 where d: "dropIdle env j uid True = (y, j1)" by fastforce
  from d have one: "row_of (jdb j1) x = row_of (jdb j) x \<or>
      (x = uid \<and> row_of (jdb j1) x = None \<and> (\<exists>r. row_of (jdb j) x = Some r \<and> r_state r = StatePending))"
    by (cases rule: dropIdle_cases) (auto simp: row_of_drop_rows)
  consider "j' = j1" | m where "drop_ids (after 2 env) ids m j1 = (res, j')"
    using Cons.prems d by (cases y) (auto split: if_splits)
  then show ?case
  proof cases
    case 2
    show ?thesis using Cons.IH [OF 2] one by auto
  qed (use one in auto)
qed simp

lemma drop_ids_calm:
  "calm env \<Longrightarrow> distinct ids \<Longrightarrow> \<forall>uid \<in> set ids. \<exists>r. row_of (jdb j) uid = Some r \<and> r_state r = StatePending \<Longrightarrow>
   \<exists>j'. drop_ids env ids n j = (Inr (n + length ids), j') \<and> (\<forall>uid \<in> set ids. row_of (jdb j') uid = None)"
proof (induction ids arbitrary: env n j)
  case (Cons uid ids)
  obtain r where "row_of (jdb j) uid = Some r" "r_state r = StatePending" using Cons.prems(3) by auto
  then obtain j1 where d: "dropIdle env j uid True = (Inr (), j1)"
    using dropIdle_pending [OF Cons.prems(1)] by blast
  from d have db: "row_of (jdb j1) x = (if x = uid then None else row_of (jdb j) x)" for x
    by (cases rule: dropIdle_cases) (auto simp: row_of_drop_rows)
  have pend: "\<forall>x \<in> set ids. \<exists>r. row_of (jdb j1) x = Some r \<and> r_state r = StatePending"
    using Cons.prems(2,3) db by (metis distinct.simps(2) list.set_intros(2))
  obtain j' where rest: "drop_ids (after 2 env) ids (Suc n) j1 = (Inr (Suc n + length ids), j')"
      "\<forall>uid \<in> set ids. row_of (jdb j') uid = None"
    using Cons.IH [of "after 2 env" j1 "Suc n"] Cons.prems(1,2) pend by auto
  have "row_of (jdb j') uid = None"
    using drop_ids_rows [OF rest(1), of uid] db by auto
  then show ?case using d rest by simp
qed simp

lemma superseded_ids_row:
  assumes "upload_inv d" "x \<in> set (superseded_ids remote ino keepID d)"
  obtains r n where "row_of d x = Some r" "r_state r = StatePending" "r_remote r = remote" "r_ino r = ino"
    "\<not> r_tombstone r" "rowid_of d keepID = Some n" "r_rowid r < n"
proof -
  obtain r where "r \<in> set (uploads d)" "r_id r = x" "r_state r = StatePending" "r_remote r = remote"
    "r_ino r = ino" "\<not> r_tombstone r" "case rowid_of d keepID of None \<Rightarrow> False | Some n \<Rightarrow> r_rowid r < n"
    using assms(2) by (auto simp: superseded_ids_def table_simps)
  then show ?thesis using that assms(1) by (auto simp: row_of_iff split: option.splits)
qed

text \<open>
  C10. Dropping superseded uploads. Under every fault only pending, not deleted rows of the same
  file that are older than the kept one disappear, the kept row stays, and with no fault all of
  them go and the count is their number; each of them is one that \<open>Superseded\<close> reports.
\<close>

theorem DropSuperseded_exact:
  assumes inv: "db_inv (jdb j)" and ino: "ino \<noteq> 0"
    and run: "DropSuperseded env j remote ino keepID = (res, j')"
  shows "(\<forall>x. row_of (jdb j') x = row_of (jdb j) x \<or>
       (x \<in> set (superseded_ids remote ino keepID (jdb j)) \<and> row_of (jdb j') x = None)) \<and>
    row_of (jdb j') keepID = row_of (jdb j) keepID \<and>
    (calm env \<longrightarrow>
       res = Inr (length (superseded_ids remote ino keepID (jdb j))) \<and>
       (\<forall>x \<in> set (superseded_ids remote ino keepID (jdb j)). row_of (jdb j') x = None)) \<and>
    (\<forall>k x q. row_of (jdb j) keepID = Some k \<and> r_remote k = remote \<and> r_ino k = ino \<and> \<not> r_tombstone k \<and>
       x \<in> set (superseded_ids remote ino keepID (jdb j)) \<and> row_of (jdb j) x = Some q \<and> calm env \<longrightarrow>
       Superseded env j (scanUpload q) = Inr True)"
proof (intro conjI allI impI)
  let ?ids = "superseded_ids remote ino keepID (jdb j)"
  have uinv: "upload_inv (jdb j)" using inv by (simp add: db_inv_def)
  consider "j' = j" "\<not> calm env" | "drop_ids (after 1 env) ?ids 0 j = (res, j')"
    using run ino by (auto simp: DropSuperseded_def dbq_def split: if_splits)
  then have rows: "row_of (jdb j') x = row_of (jdb j) x \<or> (x \<in> set ?ids \<and> row_of (jdb j') x = None)" for x
    by cases (use drop_ids_rows in \<open>blast+\<close>)
  then show "row_of (jdb j') x = row_of (jdb j) x \<or> (x \<in> set ?ids \<and> row_of (jdb j') x = None)" for x .
  have "keepID \<notin> set ?ids"
  proof
    assume "keepID \<in> set ?ids"
    then show False by (rule superseded_ids_row [OF uinv]) (auto simp: rowid_of_def)
  qed
  then show "row_of (jdb j') keepID = row_of (jdb j) keepID" using rows by blast
  have dist: "distinct ?ids"
    unfolding superseded_ids_def using upload_inv_ids [OF uinv] by (rule distinct_map_sel_where)
  have pend: "\<forall>uid \<in> set ?ids. \<exists>r. row_of (jdb j) uid = Some r \<and> r_state r = StatePending"
    by (auto elim!: superseded_ids_row [OF uinv])
  have calm: "res = Inr (length ?ids) \<and> (\<forall>x \<in> set ?ids. row_of (jdb j') x = None)" if "calm env"
    using drop_ids_calm [OF calm_after [OF that] dist pend, of 1 0] run ino that
    by (auto simp: DropSuperseded_def dbq_def)
  then show "res = Inr (length ?ids)" "\<forall>x \<in> set ?ids. row_of (jdb j') x = None" if "calm env"
    using that by simp_all
  fix k x q
  assume a: "row_of (jdb j) keepID = Some k \<and> r_remote k = remote \<and> r_ino k = ino \<and> \<not> r_tombstone k \<and>
       x \<in> set ?ids \<and> row_of (jdb j) x = Some q \<and> calm env"
  then have "r_rowid q < r_rowid k" "r_remote q = remote" "r_ino q = ino" "\<not> r_tombstone q"
    by (auto elim!: superseded_ids_row [OF uinv] simp: rowid_of_def)
  moreover have "k \<in> set (uploads (jdb j))" "r_id q = x" using a row_of_SomeD by blast+
  ultimately show "Superseded env j (scanUpload q) = Inr True"
    using a ino by (auto simp: Superseded_def dbq_def rowid_of_def)
qed

theorem DropSuperseded_exact_witness:
  "\<exists>j'. DropSuperseded sample_env (sample_journal [sample_row 1 ''a'' StatePending ''/j/objects/a'',
      sample_row 2 ''b'' StatePending ''/j/objects/b'']) ''r'' 7 ''b'' = (Inr 1, j') \<and>
    row_of (jdb j') ''a'' = None"
proof -
  let ?j = "sample_journal [sample_row 1 ''a'' StatePending ''/j/objects/a'',
      sample_row 2 ''b'' StatePending ''/j/objects/b'']"
  have inv: "db_inv (jdb ?j)" by (rule sample_inv) simp_all
  have ids: "superseded_ids ''r'' 7 ''b'' (jdb ?j) = [''a'']" by code_simp
  obtain res j' where run: "DropSuperseded sample_env ?j ''r'' 7 ''b'' = (res, j')" by fastforce
  show ?thesis using DropSuperseded_exact [OF inv _ run] run ids sample_calm by auto
qed

section \<open>Paging\<close>

definition active :: "urow \<Rightarrow> bool" where
  "active r \<longleftrightarrow> r_state r \<in> {StatePending, StateUploading, StateDead, StateCancelling,
     StateCancelled, StatePurging}"

definition active_rows :: "jdb \<Rightarrow> Upload list" where
  "active_rows d = map scanUpload (sort_key r_id (sel_where active (uploads d)))"

text \<open>A page of \<open>ListActive\<close> when the query succeeds.\<close>

definition active_page :: "jdb \<Rightarrow> nat \<Rightarrow> string \<Rightarrow> Upload list \<times> string" where
  "active_page d limit cursor =
     page_of u_ID limit (take (Suc limit)
       (map scanUpload (sort_key r_id (sel_where (\<lambda>r. active r \<and> r_id r > cursor) (uploads d)))))"

lemma page_of_take: "page_of key limit (take (Suc limit) rs) = page_of key limit rs"
proof (cases "length rs > limit")
  case True
  have "take (Suc limit) rs ! (limit - 1) = rs ! (limit - 1)" by simp
  then show ?thesis using True by (simp add: page_of_def min_def)
qed (simp add: page_of_def)

lemma strict_sorted_keys:
  assumes "distinct (map k xs)"
  shows "sorted_wrt (<) (map k (sort_key k xs))"
proof -
  have "distinct (map k (sort_key k xs))"
    using assms by (simp add: distinct_map distinct_sort)
  then show ?thesis by (simp add: strict_sorted_iff)
qed

lemma filter_sort_sel:
  "filter (\<lambda>r. c < k r) (sort_key k (sel_where p xs)) = sort_key k (sel_where (\<lambda>r. p r \<and> c < k r) xs)"
  by (simp add: filter_sort sel_where_def conj_commute)

interpretation active_paging: cursor_paging upload_inv active_rows u_ID active_page
proof unfold_locales
  fix d :: jdb assume inv: "upload_inv d"
  have "distinct (map r_id (sel_where active (uploads d)))"
    using upload_inv_ids [OF inv] by (rule distinct_map_sel_where)
  then show "sorted_wrt (<) (map u_ID (active_rows d))"
    unfolding active_rows_def by (simp add: comp_def strict_sorted_keys)
  show "u_ID u \<noteq> []" if "u \<in> set (active_rows d)" for u
    using that upload_inv_nonempty [OF inv] by (auto simp: active_rows_def table_simps)
  show "active_page d limit cursor = page_of u_ID limit (filter (\<lambda>u. cursor < u_ID u) (active_rows d))"
    for limit cursor
    unfolding active_page_def active_rows_def page_of_take
    by (simp add: filter_map comp_def filter_sort_sel)
qed

lemma ListActive_page:
  assumes "dbf env 0 = DBOk" "1 \<le> limit" "limit \<le> 1000"
  shows "ListActive env j cursor limit = Inr (active_page (jdb j) (nat limit) cursor)"
  using assms
  by (auto simp: ListActive_def list_uploads_def dbq_def active_page_def page_of_def active_def
    take_map nth_map)

text \<open>
  C11. The paged listing ends and is complete. A client that follows the cursor of \<open>ListActive\<close> with any
  legal page size over an unchanged table reaches the page without a further cursor after at most one call more than
  there are unfinished uploads, and has then seen each of them exactly once, in the order of the ids.
\<close>

theorem ListActive_complete:
  assumes "db_inv (jdb j)" and "\<forall>n. dbf env n = DBOk" and "1 \<le> limit" and "limit \<le> 1000"
  shows "scan (\<lambda>cursor. ListActive env j cursor limit) (Suc (length (active_rows (jdb j)))) [] = Some (Inr (active_rows (jdb j))) \<and>
    set (active_rows (jdb j)) = scanUpload ` {r \<in> set (uploads (jdb j)). active r} \<and>
    distinct (map u_ID (active_rows (jdb j)))"
proof (intro conjI)
  have inv: "upload_inv (jdb j)" using assms(1) by (simp add: db_inv_def)
  have "(\<lambda>cursor. ListActive env j cursor limit) = (\<lambda>c. Inr (active_page (jdb j) (nat limit) c))"
    using ListActive_page [of env limit j] assms by (simp add: fun_eq_iff)
  moreover have "1 \<le> nat limit" using assms(3) by simp
  ultimately show "scan (\<lambda>cursor. ListActive env j cursor limit) (Suc (length (active_rows (jdb j)))) [] = Some (Inr (active_rows (jdb j)))"
    using active_paging.scan_complete [OF inv] by metis
  show "set (active_rows (jdb j)) = scanUpload ` {r \<in> set (uploads (jdb j)). active r}"
    by (simp add: active_rows_def table_simps)
  show "distinct (map u_ID (active_rows (jdb j)))"
    using active_paging.rows_sorted [OF inv] by (simp add: strict_sorted_iff)
qed

theorem ListActive_complete_witness:
  "scan (\<lambda>cursor. ListActive sample_env (sample_journal
        [sample_row 1 ''b'' StatePending ''/j/objects/b'', sample_row 2 ''a'' StateDead ''/j/objects/a'',
         sample_row 3 ''c'' StateDone []]) cursor 1) 3 [] =
     Some (Inr [scanUpload (sample_row 2 ''a'' StateDead ''/j/objects/a''),
       scanUpload (sample_row 1 ''b'' StatePending ''/j/objects/b'')])"
proof -
  let ?j = "sample_journal [sample_row 1 ''b'' StatePending ''/j/objects/b'',
      sample_row 2 ''a'' StateDead ''/j/objects/a'', sample_row 3 ''c'' StateDone []]"
  have inv: "db_inv (jdb ?j)" by (rule sample_inv) simp_all
  have db: "\<forall>n. dbf sample_env n = DBOk" by (simp add: sample_env_def)
  have rows: "active_rows (jdb ?j) = [scanUpload (sample_row 2 ''a'' StateDead ''/j/objects/a''),
      scanUpload (sample_row 1 ''b'' StatePending ''/j/objects/b'')]"
    by (simp add: active_rows_def sample_journal_def active_def)
  show ?thesis
    using conjunct1 [OF ListActive_complete [OF inv db, of 1]] unfolding rows by (simp add: eval_nat_numeral)
qed

end
