(* ===== verification/JournalCleanup.thy ===== *)
theory JournalCleanup
  imports QueueProps
begin

text \<open>
  Administrative ends of a stopped upload: the fenced cleanup of \<open>cleanup_upload.go\<close>, which
  discards the upload for good, and the explicit resume of \<open>resume_upload.go\<close>, which starts a
  fresh attempt from the verified local payload.
\<close>

section \<open>Cleanup\<close>

record UploadCleanup =
  cu_Upload :: Upload
  cu_MetaIdentity :: string
  cu_BlobPath :: string

definition validCleanupIdentity :: "string \<Rightarrow> bool" where
  "validCleanupIdentity v \<longleftrightarrow> v \<noteq> [] \<and> length v \<le> 256 \<and> CHR 0x00 \<notin> set v"

definition cleanupUploadPath :: "env \<Rightarrow> Journal \<Rightarrow> Upload \<Rightarrow> jerr + string" where
  "cleanupUploadPath env j u =
     (if u_BlobPath u = [] then Inl ErrUploadCleanupContent
      else
        (case jabs j (u_BlobPath u) of
           None \<Rightarrow> Inl ErrUploadCleanupContent
         | Some p \<Rightarrow>
             (case jabs j (ObjectsDir j) of
                None \<Rightarrow> Inl (EOs EIO)
              | Some objects \<Rightarrow>
                  if path_dir p \<noteq> objects \<and> copyPath env j (u_ID u) \<noteq> Inr p
                  then Inl ErrUploadCleanupContent
                  else Inr p)))"

text \<open>An intent without its upload row gives \<open>sql.ErrNoRows\<close>, which is not \<open>ErrNotFound\<close>.\<close>

definition uploadCleanupTx :: "env \<Rightarrow> Journal \<Rightarrow> string \<Rightarrow> string \<Rightarrow> jdb \<Rightarrow> jerr + UploadCleanup" where
  "uploadCleanupTx env j uid metaIdentity d =
     (case sel_one (\<lambda>c. cl_upload c = uid) (upload_cleanup d) of
        None \<Rightarrow> Inl JErrNotFound
      | Some c \<Rightarrow>
          if cl_meta_identity c \<noteq> metaIdentity \<or> \<not> validCleanupIdentity metaIdentity
          then Inl ErrUploadCleanupIdentity
          else
            (case row_of d uid of
               None \<Rightarrow> Inl EDb
             | Some r \<Rightarrow>
                 if r_state r \<noteq> StatePurging \<or> r_tombstone r then Inl ErrUploadCleanupState
                 else if cleanupUploadPath env j (scanUpload r) \<noteq> Inr (cl_blob_path c)
                 then Inl ErrUploadCleanupContent
                 else Inr \<lparr>cu_Upload = scanUpload r, cu_MetaIdentity = metaIdentity,
                           cu_BlobPath = cl_blob_path c\<rparr>))"

definition purging_msg :: string where
  "purging_msg = ''local cleanup pending; remote result is not reconciled''"

definition begin_cleanup_tx ::
  "env \<Rightarrow> Journal \<Rightarrow> string \<Rightarrow> string \<Rightarrow> jdb \<Rightarrow> jerr + (UploadCleanup \<times> jdb)" where
  "begin_cleanup_tx env j uid metaIdentity d =
     (case row_of d uid of
        None \<Rightarrow> Inl JErrNotFound
      | Some r \<Rightarrow>
          if r_state r = StatePurging then
            (case uploadCleanupTx env j uid metaIdentity d of Inl e \<Rightarrow> Inl e | Inr c \<Rightarrow> Inr (c, d))
          else if r_state r \<noteq> StateCancelled \<or> r_tombstone r then Inl ErrUploadCleanupState
          else
            (case cleanupUploadPath env j (scanUpload r) of
               Inl e \<Rightarrow> Inl e
             | Inr p \<Rightarrow>
                 if cnt_where (\<lambda>c. cl_upload c = uid) (upload_cleanup d) > 0 then Inl EDb
                 else
                   Inr (\<lparr>cu_Upload = (scanUpload r)\<lparr>u_State := StatePurging, u_LastError := purging_msg\<rparr>,
                          cu_MetaIdentity = metaIdentity, cu_BlobPath = p\<rparr>,
                     (upd_id uid (\<lambda>r. r\<lparr>r_state := StatePurging, r_last_error := purging_msg\<rparr>) d)
                       \<lparr>upload_cleanup := upload_cleanup d @
                          [\<lparr>cl_upload = uid, cl_meta_identity = metaIdentity, cl_blob_path = p\<rparr>]\<rparr>)))"

definition BeginUploadCleanup ::
  "env \<Rightarrow> Journal \<Rightarrow> string \<Rightarrow> string \<Rightarrow> (jerr + UploadCleanup) \<times> Journal" where
  "BeginUploadCleanup env j uid metaIdentity =
     (if \<not> owner j then (Inl ENotOwner, j)
      else if \<not> validCleanupIdentity metaIdentity then (Inl ErrUploadCleanupIdentity, j)
      else tx env (begin_cleanup_tx env j uid metaIdentity) j)"

definition UploadCleanupIdentity :: "env \<Rightarrow> Journal \<Rightarrow> string \<Rightarrow> jerr + string" where
  "UploadCleanupIdentity env j uid =
     dbq env (\<lambda>d. case sel_one (\<lambda>c. cl_upload c = uid) (upload_cleanup d) of
        None \<Rightarrow> Inl JErrNotFound | Some c \<Rightarrow> Inr (cl_meta_identity c)) j"

definition uploadCleanupShared ::
  "env \<Rightarrow> Journal \<Rightarrow> UploadCleanup \<Rightarrow> fileinfo option \<Rightarrow> jdb \<Rightarrow> osfs \<Rightarrow> jerr + bool" where
  "uploadCleanupShared env j out info d fs =
     (if stagedRefs j (cu_BlobPath out) > 0 then Inr True
      else
        (case uploadBlobReferenced env fs d (u_ID (cu_Upload out)) (cu_BlobPath out) info of
           Inl e \<Rightarrow> Inl e
         | Inr shared \<Rightarrow>
             if shared then Inr True
             else
               Inr (copyPath env j (u_ID (cu_Upload out)) = Inr (cu_BlobPath out) \<and>
                    copy_refs d (u_ID (cu_Upload out)) > 0)))"

text \<open>Unlinking the payload and syncing its directory: an error, if any, and the files after it.\<close>

definition cleanup_unlink :: "env \<Rightarrow> Journal \<Rightarrow> string \<Rightarrow> osfs \<Rightarrow> jerr option \<times> osfs" where
  "cleanup_unlink env j p fs =
     (case os_remove env fs p of
        (Some EIO, fs') \<Rightarrow> (Some (EOs EIO), fs')
      | (_, fs') \<Rightarrow>
          if cleanup_fault env ''unlinked'' then (Some (EOs EIO), fs')
          else if durability j = DurabilityPower \<and>
              (isl (os_open env fs' (path_dir p)) \<or> osfail env CSync (path_dir p) \<or>
               osfail env CClose (path_dir p))
          then (Some (EOs EIO), fs')
          else (None, fs'))"

definition discard_rows :: "string \<Rightarrow> string \<Rightarrow> string \<Rightarrow> jdb \<Rightarrow> jdb" where
  "discard_rows uid metaIdentity p d =
     (forget_upload uid d)
       \<lparr>upload_discarded := upload_discarded d @
          [\<lparr>cl_upload = uid, cl_meta_identity = metaIdentity, cl_blob_path = p\<rparr>],
        upload_cleanup := del_where (\<lambda>c. cl_upload c = uid) (upload_cleanup d)\<rparr>"

definition finish_cleanup_tx ::
  "env \<Rightarrow> Journal \<Rightarrow> string \<Rightarrow> string \<Rightarrow> jdb \<Rightarrow> osfs \<Rightarrow> (jerr + (unit \<times> jdb)) \<times> osfs" where
  "finish_cleanup_tx env j uid metaIdentity d fs =
     (case uploadCleanupTx env j uid metaIdentity d of
        Inl e \<Rightarrow>
          if e = JErrNotFound then
            ((case sel_one (\<lambda>c. cl_upload c = uid) (upload_discarded d) of
                None \<Rightarrow> Inl JErrNotFound
              | Some c \<Rightarrow>
                  if cl_meta_identity c \<noteq> metaIdentity then Inl ErrUploadCleanupIdentity
                  else Inr ((), d)), fs)
          else (Inl e, fs)
      | Inr out \<Rightarrow>
          (let p = cu_BlobPath out in
           case os_lstat env fs (path_dir p) of
             Inl e \<Rightarrow> (Inl (EOs e), fs)
           | Inr parent \<Rightarrow>
               if fi_kind parent \<noteq> KDir then (Inl ErrUploadCleanupContent, fs)
               else
                 (let info = os_lstat env fs p in
                  if info = Inl EIO then (Inl (EOs EIO), fs)
                  else if \<not> isl info \<and> \<not> is_regular (projr info) then (Inl ErrUploadCleanupContent, fs)
                  else
                    (case uploadCleanupShared env j out (if isl info then None else Some (projr info)) d fs of
                       Inl e \<Rightarrow> (Inl e, fs)
                     | Inr shared \<Rightarrow>
                         (case (if shared then (None, fs) else cleanup_unlink env j p fs) of
                            (Some e, fs') \<Rightarrow> (Inl e, fs')
                          | (None, fs') \<Rightarrow>
                              if cleanup_fault env ''finalize'' then (Inl (EOs EIO), fs')
                              else if cnt_where (\<lambda>c. cl_upload c = uid) (upload_discarded d) > 0
                              then (Inl EDb, fs')
                              else (Inr ((), discard_rows uid metaIdentity p d), fs'))))))"

definition FinishUploadCleanup ::
  "env \<Rightarrow> Journal \<Rightarrow> string \<Rightarrow> string \<Rightarrow> (jerr + unit) \<times> Journal" where
  "FinishUploadCleanup env j uid metaIdentity =
     (if \<not> owner j then (Inl ENotOwner, j)
      else if \<not> validCleanupIdentity metaIdentity then (Inl ErrUploadCleanupIdentity, j)
      else txf env (finish_cleanup_tx env j uid metaIdentity) j)"

section \<open>Resume\<close>

record UploadBinding =
  ub_MetaIdentity :: string
  ub_MountPrefix :: string
  ub_MountRootID :: string
  ub_AccountBinding :: string

record PreparedUploadResume =
  pr_u :: Upload
  pr_revision :: int

text \<open>\<open>COALESCE((SELECT revision ..), 0)\<close>\<close>

definition revision_of :: "jdb \<Rightarrow> string \<Rightarrow> int" where
  "revision_of d uid =
     (case sel_one (\<lambda>c. uc_upload c = uid) (upload_cancellation d) of
        None \<Rightarrow> 0 | Some c \<Rightarrow> uc_revision c)"

definition prepare_tx :: "string \<Rightarrow> jdb \<Rightarrow> jerr + (PreparedUploadResume \<times> jdb)" where
  "prepare_tx uid d =
     (case row_of d uid of
        None \<Rightarrow> Inl JErrNotFound
      | Some r \<Rightarrow>
          if r_state r \<noteq> StateCancelled \<or> r_tombstone r then Inl ErrResumeChanged
          else Inr (\<lparr>pr_u = scanUpload r, pr_revision = revision_of d uid\<rparr>, d))"

text \<open>
  The retained object: a private regular file of the recorded size whose bytes have the recorded
  checksum, read through a handle that is still the same file.
\<close>

definition verify_retained :: "env \<Rightarrow> Journal \<Rightarrow> Upload \<Rightarrow> jerr option" where
  "verify_retained env j u =
     (case (jabs j (u_BlobPath u), jabs j (ObjectsDir j)) of
        (Some a, Some objects) \<Rightarrow>
          if path_dir a \<noteq> objects \<and> copyPath env j (u_ID u) \<noteq> Inr a then Some ErrResumeContent
          else
            (case os_lstat env (jos j) a of
               Inl e \<Rightarrow> Some ErrResumeContent
             | Inr info \<Rightarrow>
                 if \<not> is_regular info \<or> fi_size info \<noteq> u_Size u then Some ErrResumeContent
                 else
                   (case os_open env (jos j) a of
                      Inl e \<Rightarrow> Some ErrResumeContent
                    | Inr i \<Rightarrow>
                        if osfail env CStat a \<or> i \<noteq> fi_ino info then Some ErrResumeContent
                        else
                          (case u_Hashes u HashCRC32C of
                             None \<Rightarrow> Some ErrResumeContent
                           | Some want \<Rightarrow>
                               if want = [] then Some ErrResumeContent
                               else if ctx_err env then Some ECtx
                               else if osfail env CRead a then Some ErrResumeContent
                               else if digest env HashCRC32C (os_data (jos j) i) \<noteq> want
                               then Some ErrResumeContent
                               else None)))
      | _ \<Rightarrow> Some ErrResumeContent)"

definition PrepareUploadResume :: "env \<Rightarrow> Journal \<Rightarrow> string \<Rightarrow> jerr + PreparedUploadResume" where
  "PrepareUploadResume env j uid =
     (if \<not> owner j then Inl ENotOwner
      else
        (case fst (tx env (prepare_tx uid) j) of
           Inl e \<Rightarrow> Inl e
         | Inr p \<Rightarrow> (case verify_retained env j (pr_u p) of Some e \<Rightarrow> Inl e | None \<Rightarrow> Inr p)))"

definition resume_row :: "UploadBinding option \<Rightarrow> urow \<Rightarrow> urow" where
  "resume_row binding r =
     (let r' = r\<lparr>r_state := StatePending, r_attempt := 0, r_next_retry_at := 0, r_last_error := [],
                 r_session := Map.empty\<rparr> in
      case binding of
        None \<Rightarrow> r'
      | Some b \<Rightarrow> r'\<lparr>r_meta_identity := ub_MetaIdentity b, r_mount_prefix := ub_MountPrefix b,
                    r_mount_root_id := ub_MountRootID b, r_account_binding := ub_AccountBinding b\<rparr>)"

definition resume_changed :: "PreparedUploadResume \<Rightarrow> urow \<Rightarrow> int \<Rightarrow> bool" where
  "resume_changed p r revision \<longleftrightarrow>
     r_state r \<noteq> StateCancelled \<or> r_tombstone r \<or> revision \<noteq> pr_revision p \<or>
     r_blob_path r \<noteq> u_BlobPath (pr_u p) \<or> r_size r \<noteq> u_Size (pr_u p) \<or> r_ino r \<noteq> u_Ino (pr_u p) \<or>
     r_remote r \<noteq> u_Remote (pr_u p) \<or> r_name r \<noteq> u_Name (pr_u p) \<or>
     r_remote_parent_id r \<noteq> u_RemoteParentID (pr_u p)"

definition resume_tx ::
  "PreparedUploadResume \<Rightarrow> UploadBinding option \<Rightarrow> jdb \<Rightarrow> jerr + (unit \<times> jdb)" where
  "resume_tx p binding d =
     (let uid = u_ID (pr_u p); revision = revision_of d uid in
      case row_of d uid of
        None \<Rightarrow> Inl ErrResumeChanged
      | Some r \<Rightarrow>
          if resume_changed p r revision then Inl ErrResumeChanged
          else if r_ino r \<noteq> 0 \<and>
              cnt_where (\<lambda>q. r_remote q = r_remote r \<and> r_ino q = r_ino r \<and> r_rowid q > r_rowid r) (uploads d) > 0
          then Inl ErrResumeChanged
          else if cnt_where (\<lambda>h. rh_upload h = uid \<and> rh_revision h = revision) (upload_resume_history d) > 0
          then Inl EDb
          else
            (let parts = sort_key p_Index (map pt_part (sel_where (\<lambda>q. pt_upload q = uid) (upload_parts d))) in
             Inr ((), (upd_id uid (resume_row binding) d)
               \<lparr>upload_resume_history := upload_resume_history d @
                  [\<lparr>rh_upload = uid, rh_revision = revision, rh_snapshot = (scanUpload r, parts)\<rparr>],
                upload_parts := del_where (\<lambda>q. pt_upload q = uid) (upload_parts d),
                dead_letter := del_where (\<lambda>q. dl_upload q = uid) (dead_letter d)\<rparr>)))"

definition resume_commit ::
  "env \<Rightarrow> Journal \<Rightarrow> PreparedUploadResume \<Rightarrow> UploadBinding option \<Rightarrow> (jerr + unit) \<times> Journal" where
  "resume_commit env j p binding = tx env (resume_tx p binding) j"

definition CommitResume :: "env \<Rightarrow> Journal \<Rightarrow> PreparedUploadResume \<Rightarrow> (jerr + unit) \<times> Journal" where
  "CommitResume env j p = resume_commit env j p None"

definition CommitBound ::
  "env \<Rightarrow> Journal \<Rightarrow> PreparedUploadResume \<Rightarrow> UploadBinding \<Rightarrow> (jerr + unit) \<times> Journal" where
  "CommitBound env j p binding =
     (let values = [ub_MetaIdentity binding, ub_MountPrefix binding, ub_MountRootID binding,
                    ub_AccountBinding binding] in
      if list_ex (\<lambda>v. v = [] \<or> bad_binding v) values then (Inl ErrResumeChanged, j)
      else resume_commit env j p (Some binding))"

section \<open>Invariants\<close>

lemma keeps_keys_resume [simp]: "keeps_keys (resume_row b)"
  by (simp add: keeps_keys_def resume_row_def Let_def split: option.split)

lemma resume_row_simps [simp]:
  "r_state (resume_row b r) = StatePending" "r_attempt (resume_row b r) = 0"
  "r_session (resume_row b r) = Map.empty" "r_blob_path (resume_row b r) = r_blob_path r"
  "r_id (resume_row b r) = r_id r"
  by (simp_all add: resume_row_def Let_def split: option.split)

lemma begin_purging_inv:
  assumes inv: "upload_inv d" and r: "row_of d uid = Some r"
    and new: "uid \<notin> cl_upload ` set (upload_cleanup d)"
  shows "upload_inv ((upd_id uid (\<lambda>r. r\<lparr>r_state := StatePurging, r_last_error := m\<rparr>) d)
    \<lparr>upload_cleanup := upload_cleanup d @ [c\<lparr>cl_upload := uid\<rparr>]\<rparr>)"
proof -
  let ?f = "\<lambda>r. r\<lparr>r_state := StatePurging, r_last_error := m\<rparr>"
  let ?us = "upd_where (\<lambda>r. r_id r = uid) ?f (uploads d)"
  let ?ids = "insert uid (cl_upload ` set (upload_cleanup d))"
  have keys: "map r_id ?us = map r_id (uploads d)" "map r_rowid ?us = map r_rowid (uploads d)"
    "r_id ` set ?us = r_id ` set (uploads d)"
    by (simp_all add: ids_upd_where rowids_upd_where id_set_upd_where)
  have st: "(r_state q = StatePurging) = (r_id q \<in> ?ids)" if "q \<in> set ?us" for q
  proof -
    consider "q \<in> set (uploads d)" "r_id q \<noteq> uid" | q0 where "r_id q0 = uid" "q = ?f q0"
      using \<open>q \<in> set ?us\<close> unfolding in_upd_where_iff by blast
    then show ?thesis by cases (simp_all add: upload_inv_purging [OF inv])
  qed
  have "uid \<in> r_id ` set (uploads d)" using row_of_SomeD [OF r] by (metis image_eqI)
  then have sub: "?ids \<subseteq> r_id ` set (uploads d)" using upload_inv_intents [OF inv] by simp
  have old: "distinct (map r_id (uploads d))" "sorted_wrt (<) (map r_rowid (uploads d))"
    "distinct (map cl_upload (upload_cleanup d))" "[] \<notin> r_id ` set (uploads d)"
    using inv by (simp_all add: upload_inv_def)
  have "\<forall>q \<in> set ?us. (r_state q = StatePurging) = (r_id q \<in> ?ids)" using st by blast
  with old sub new keys upload_inv_discarded [OF inv] show ?thesis
    unfolding upload_inv_def by simp
qed

lemma begin_cleanup_tx_inv:
  assumes inv: "db_inv d" and ok: "begin_cleanup_tx env j uid m d = Inr (c, d')"
  shows "db_inv d'"
proof (cases "d' = d")
  case False
  then obtain r p where r: "row_of d uid = Some r"
    and new: "cnt_where (\<lambda>c. cl_upload c = uid) (upload_cleanup d) = 0"
    and d': "d' = (upd_id uid (\<lambda>r. r\<lparr>r_state := StatePurging, r_last_error := purging_msg\<rparr>) d)
        \<lparr>upload_cleanup := upload_cleanup d @
           [\<lparr>cl_upload = uid, cl_meta_identity = m, cl_blob_path = p\<rparr>]\<rparr>"
    using ok by (auto simp: begin_cleanup_tx_def split: option.splits sum.splits if_splits)
  have "uid \<notin> cl_upload ` set (upload_cleanup d)" using new by auto
  then have "upload_inv d'"
    using begin_purging_inv [OF _ r, where c = "\<lparr>cl_upload = uid, cl_meta_identity = m, cl_blob_path = p\<rparr>"]
      inv unfolding d' by (simp add: db_inv_def)
  moreover have "side_inv d'" "copy_inv d'"
    using inv unfolding d' by (simp_all add: db_inv_def inv_frame)
  ultimately show ?thesis by (rule db_invI)
qed (use inv in simp)

lemma BeginUploadCleanup_inv:
  assumes "db_inv (jdb j)"
  shows "db_inv (jdb (snd (BeginUploadCleanup env j uid m)))"
proof -
  have "db_inv (jdb (snd (tx env (begin_cleanup_tx env j uid m) j)))"
    using assms by (rule tx_db_inv) (rule begin_cleanup_tx_inv)
  then show ?thesis using assms by (simp add: BeginUploadCleanup_def)
qed

lemma discard_rows_inv:
  assumes inv: "db_inv d" and new: "uid \<notin> cl_upload ` set (upload_discarded d)"
  shows "db_inv (discard_rows uid m p d)"
proof -
  let ?us = "del_where (\<lambda>r. r_id r = uid) (uploads d)"
  let ?cs = "del_where (\<lambda>c. cl_upload c = uid) (upload_cleanup d)"
  have uinv: "upload_inv d" using inv by (simp add: db_inv_def)
  have ids: "r_id ` set ?us = r_id ` set (uploads d) - {uid}"
    "cl_upload ` set ?cs = cl_upload ` set (upload_cleanup d) - {uid}"
    by (auto simp: table_simps)
  have "sorted_wrt (<) (map r_rowid ?us)"
    using uinv by (simp add: upload_inv_def del_where_def sorted_wrt_map sorted_wrt_filter)
  moreover have "\<forall>r \<in> set ?us. (r_state r = StatePurging) = (r_id r \<in> cl_upload ` set ?cs)"
  proof
    fix r assume "r \<in> set ?us"
    then have "r \<in> set (uploads d)" "r_id r \<noteq> uid" by (simp_all add: table_simps)
    then show "(r_state r = StatePurging) = (r_id r \<in> cl_upload ` set ?cs)"
      unfolding ids by (simp add: upload_inv_purging [OF uinv])
  qed
  moreover have "distinct (map r_id ?us)" "distinct (map cl_upload ?cs)"
    using uinv by (auto simp: upload_inv_def)
  moreover have "cl_upload ` set ?cs \<subseteq> r_id ` set ?us"
    unfolding ids by (rule Diff_mono [OF upload_inv_intents [OF uinv] order_refl])
  moreover have "insert uid (cl_upload ` set (upload_discarded d)) \<inter> r_id ` set ?us = {}"
    unfolding ids using upload_inv_discarded [OF uinv] by auto
  moreover have "[] \<notin> r_id ` set ?us" unfolding ids using uinv by (simp add: upload_inv_def)
  ultimately have "upload_inv (discard_rows uid m p d)"
    by (simp add: upload_inv_def discard_rows_def forget_upload_def)
  moreover have "side_inv (discard_rows uid m p d)"
    using inv new by (auto simp: db_inv_def side_inv_def discard_rows_def forget_upload_def)
  moreover have "copy_inv (discard_rows uid m p d)"
    using inv by (simp add: db_inv_def copy_inv_def discard_rows_def forget_upload_def)
  ultimately show ?thesis by (rule db_invI)
qed

lemma finish_cleanup_tx_db:
  assumes "finish_cleanup_tx env j uid m d fs = (Inr (a, d'), fs')"
  obtains "d' = d" "fs' = fs" "uid \<in> cl_upload ` set (upload_discarded d)"
  | p where "d' = discard_rows uid m p d" "uid \<notin> cl_upload ` set (upload_discarded d)"
proof -
  show ?thesis
    using assms that unfolding finish_cleanup_tx_def Let_def
    by (auto split: sum.splits if_splits option.splits prod.splits dest!: sel_one_SomeD
      simp: cnt_where_0_iff)
qed

lemma FinishUploadCleanup_inv:
  assumes "db_inv (jdb j)"
  shows "db_inv (jdb (snd (FinishUploadCleanup env j uid m)))"
proof -
  have "db_inv d'" if "finish_cleanup_tx env j uid m (jdb j) (jos j) = (Inr (a, d'), fs')" for a d' fs'
    using that assms by (cases rule: finish_cleanup_tx_db) (auto intro: discard_rows_inv)
  then show ?thesis
    using assms unfolding FinishUploadCleanup_def by (auto intro!: txf_db_inv)
qed

lemma resume_tx_cases:
  assumes "resume_tx p b d = Inr (a, d')"
  obtains r where "row_of d (u_ID (pr_u p)) = Some r"
    "\<not> resume_changed p r (revision_of d (u_ID (pr_u p)))"
    "\<forall>h \<in> set (upload_resume_history d).
       \<not> (rh_upload h = u_ID (pr_u p) \<and> rh_revision h = revision_of d (u_ID (pr_u p)))"
    "r_ino r = 0 \<or> (\<forall>q \<in> set (uploads d). r_remote q = r_remote r \<and> r_ino q = r_ino r \<longrightarrow> r_rowid q \<le> r_rowid r)"
    "d' = (upd_id (u_ID (pr_u p)) (resume_row b) d)
       \<lparr>upload_resume_history := upload_resume_history d @
          [\<lparr>rh_upload = u_ID (pr_u p), rh_revision = revision_of d (u_ID (pr_u p)),
            rh_snapshot = (scanUpload r, sort_key p_Index
              (map pt_part (sel_where (\<lambda>q. pt_upload q = u_ID (pr_u p)) (upload_parts d))))\<rparr>],
        upload_parts := del_where (\<lambda>q. pt_upload q = u_ID (pr_u p)) (upload_parts d),
        dead_letter := del_where (\<lambda>q. dl_upload q = u_ID (pr_u p)) (dead_letter d)\<rparr>"
  using assms unfolding resume_tx_def Let_def
  by (auto split: option.splits if_splits simp: not_less)

lemma resume_tx_inv:
  assumes inv: "db_inv d" and ok: "resume_tx p b d = Inr (a, d')"
  shows "db_inv d'"
  using ok
proof (cases rule: resume_tx_cases)
  case (1 r)
  have "r_state r \<noteq> StatePurging" using 1(2) by (auto simp: resume_changed_def)
  then have "upload_inv (upd_id (u_ID (pr_u p)) (resume_row b) d)"
    using inv 1(1) by (intro upd_id_inv) (auto simp: db_inv_def)
  moreover have "side_inv d'"
    using inv 1(3) unfolding 1(5) by (auto simp: db_inv_def side_inv_def)
  ultimately show ?thesis
    using inv unfolding 1(5) by (auto simp: db_inv_def inv_frame)
qed

lemma resume_commit_inv: "db_inv (jdb j) \<Longrightarrow> db_inv (jdb (snd (resume_commit env j p b)))"
  unfolding resume_commit_def by (erule tx_db_inv) (rule resume_tx_inv)

lemma CommitBound_inv: "db_inv (jdb j) \<Longrightarrow> db_inv (jdb (snd (CommitBound env j p b)))"
  by (simp add: CommitBound_def Let_def resume_commit_inv)

end
