(* ===== verification/CleanupProps.thy ===== *)
theory CleanupProps
  imports JournalCleanup
begin

text \<open>
  The promises of the administrative ends: a cleanup either completes or keeps its whole intent,
  it can be repeated, it takes nothing from other uploads; a resume starts only from verified
  bytes, and a stop that comes after its preparation always wins.
\<close>

section \<open>Cleanup\<close>

lemma cleanupUploadPath_abs: "cleanupUploadPath env j u = Inr p \<Longrightarrow> filepath_abs fs p = Some p"
  by (auto simp: cleanupUploadPath_def jabs_def split: if_splits option.splits intro: filepath_abs_idem)

lemma uploadCleanupTx_Inr:
  assumes "uploadCleanupTx env j uid m d = Inr out"
  shows "u_ID (cu_Upload out) = uid" "filepath_abs fs (cu_BlobPath out) = Some (cu_BlobPath out)"
  using assms
  by (auto simp: uploadCleanupTx_def split: option.splits if_splits
    dest: row_of_SomeD cleanupUploadPath_abs [where fs = fs])

lemma cleanup_unlink_fs: "snd (cleanup_unlink env j p fs) = snd (os_remove env fs p)"
  by (auto simp: cleanup_unlink_def split: prod.split option.split oserr.split)

text \<open>The files after a cleanup: as before, or without one name that no other row needs.\<close>

lemma finish_cleanup_fs:
  fixes fs' :: osfs
  assumes run: "snd (finish_cleanup_tx env j uid m d fs) = fs'" and diff: "fs' \<noteq> fs"
  obtains p n where "fs' = del_name p fs" "follow 40 fs p = Some n"
    "\<forall>r \<in> set (uploads d). r_id r \<noteq> uid \<longrightarrow> clears fs p (Some (node_info fs n)) r"
proof -
  obtain out where out: "uploadCleanupTx env j uid m d = Inr out"
    using run diff by (cases "uploadCleanupTx env j uid m d") (auto simp: finish_cleanup_tx_def)
  define p where "p = cu_BlobPath out"
  define info where "info = os_lstat env fs p"
  define opt where "opt = (if isl info then None else Some (projr info))"
  have shared: "uploadCleanupShared env j out opt d fs = Inr False"
      and unl: "fs' = snd (cleanup_unlink env j p fs)"
      and reg: "\<not> isl info \<longrightarrow> is_regular (projr info)"
    using run diff out unfolding finish_cleanup_tx_def Let_def opt_def info_def p_def
    by (auto split: sum.splits if_splits prod.splits option.splits)
  have fs': "fs' = snd (os_remove env fs p)" using unl by (simp add: cleanup_unlink_fs)
  have abs: "filepath_abs fs p = Some p" using uploadCleanupTx_Inr(2) [OF out] by (simp add: p_def)
  have del: "fs' = del_name p fs" "map_of (os_names fs) p \<noteq> None"
    using os_remove_fail [of env fs p] os_remove_ok [of env fs p] diff fs' abs by fastforce+
  then obtain n where n: "map_of (os_names fs) p = Some n" by auto
  then have "info = Inl EIO \<or> info = Inr (node_info fs n)"
    using abs by (auto simp: info_def os_lstat_def os_lookup_def)
  moreover have "info \<noteq> Inl EIO"
    using run diff out unfolding finish_cleanup_tx_def Let_def info_def p_def
    by (auto split: sum.splits if_splits)
  ultimately have info: "info = Inr (node_info fs n)" by simp
  then have "snd n = KReg" using reg by (simp add: is_regular_def node_info_def)
  then have fol: "follow 40 fs p = Some n" using n follow_regular [of fs p "fst n"] by (cases n) simp
  have ref: "uploadBlobReferenced env fs d uid p (Some (node_info fs n)) = Inr False"
    using shared info uploadCleanupTx_Inr(1) [OF out]
    by (auto simp: uploadCleanupShared_def opt_def p_def split: if_splits sum.splits)
  have "clears fs p (Some (node_info fs n)) r" if "r \<in> set (uploads d)" "r_id r \<noteq> uid" for r
    using uploadBlobReferenced_False [OF ref] that by blast
  then show ?thesis using that del fol by blast
qed

lemma finish_cleanup_payload:
  assumes "r \<in> set (uploads d)" "r_id r \<noteq> uid" "r_blob_path r \<noteq> []"
  shows "payload (snd (finish_cleanup_tx env j uid m d fs)) r = payload fs r"
proof (cases "snd (finish_cleanup_tx env j uid m d fs) = fs")
  case False
  obtain p n where eff: "snd (finish_cleanup_tx env j uid m d fs) = del_name p fs"
      "follow 40 fs p = Some n" "clears fs p (Some (node_info fs n)) r"
    by (rule finish_cleanup_fs [OF refl False]) (use assms in blast)
  have "resolve (del_name p fs) (r_blob_path r) = resolve fs (r_blob_path r)"
    using eff assms(3) by (intro resolve_del_name) (auto simp: clears_def node_info_def)
  then show ?thesis unfolding eff(1) by (simp add: payload_def)
qed simp

lemma txf_error:
  "fst (txf env fn j) = Inl e \<Longrightarrow> jdb (snd (txf env fn j)) = jdb j"
  by (cases "fn (jdb j) (jos j)"; cases "fst (fn (jdb j) (jos j))") (auto simp: txf_def split: if_splits)

lemma txf_jos: "jos (snd (txf env fn j)) = jos j \<or> jos (snd (txf env fn j)) = snd (fn (jdb j) (jos j))"
  by (cases "fn (jdb j) (jos j)"; cases "fst (fn (jdb j) (jos j))") (auto simp: txf_def)

lemma txf_ok:
  assumes "fst (txf env fn j) = Inr a"
  shows "\<exists>d fs. fn (jdb j) (jos j) = (Inr (a, d), fs) \<and> snd (txf env fn j) = j\<lparr>jdb := d, jos := fs\<rparr>"
  using assms
  by (cases "fn (jdb j) (jos j)"; cases "fst (fn (jdb j) (jos j))") (auto simp: txf_def split: if_splits)

lemma FinishUploadCleanup_rows:
  "uploads (jdb (snd (FinishUploadCleanup env j uid m))) = uploads (jdb j) \<or>
   uploads (jdb (snd (FinishUploadCleanup env j uid m))) = del_where (\<lambda>r. r_id r = uid) (uploads (jdb j))"
proof (cases "fst (FinishUploadCleanup env j uid m)")
  case (Inl e)
  then show ?thesis
    using txf_error [of env "finish_cleanup_tx env j uid m" j]
    by (auto simp: FinishUploadCleanup_def split: if_splits)
next
  case (Inr a)
  then have ok: "fst (txf env (finish_cleanup_tx env j uid m) j) = Inr a"
    and run: "FinishUploadCleanup env j uid m = txf env (finish_cleanup_tx env j uid m) j"
    by (auto simp: FinishUploadCleanup_def split: if_splits)
  obtain d fs where fin: "finish_cleanup_tx env j uid m (jdb j) (jos j) = (Inr (a, d), fs)"
      "snd (txf env (finish_cleanup_tx env j uid m) j) = j\<lparr>jdb := d, jos := fs\<rparr>"
    using txf_ok [OF ok] by blast
  from fin(1) show ?thesis
    by (cases rule: finish_cleanup_tx_db) (simp_all add: run fin(2) discard_rows_def forget_upload_def)
qed

lemma FinishUploadCleanup_payload:
  assumes "r \<in> set (uploads (jdb j))" "r_id r \<noteq> uid" "r_blob_path r \<noteq> []"
  shows "payload (jos (snd (FinishUploadCleanup env j uid m))) r = payload (jos j) r"
  using finish_cleanup_payload [OF assms, of env j m "jos j"]
    txf_jos [of env "finish_cleanup_tx env j uid m" j]
  by (auto simp: FinishUploadCleanup_def)

lemma FinishUploadCleanup_repeat:
  assumes inv: "upload_inv (jdb j)" and "owner j" "validCleanupIdentity m"
    and c: "sel_one (\<lambda>c. cl_upload c = uid) (upload_discarded (jdb j)) = Some c" "cl_meta_identity c = m"
    and "dbf env 0 = DBOk"
  shows "FinishUploadCleanup env j uid m = (Inr (), j)"
proof -
  have "uid \<in> cl_upload ` set (upload_discarded (jdb j))"
    using sel_one_SomeD [OF c(1)] by (metis image_eqI)
  then have "uid \<notin> r_id ` set (uploads (jdb j))"
    using upload_inv_discarded [OF inv] by (metis disjoint_iff)
  then have "uid \<notin> cl_upload ` set (upload_cleanup (jdb j))"
    using upload_inv_intents [OF inv] by (metis subsetD)
  then have "sel_one (\<lambda>c. cl_upload c = uid) (upload_cleanup (jdb j)) = None"
    by (auto simp: sel_one_None_iff)
  then show ?thesis
    using assms by (simp add: FinishUploadCleanup_def txf_def finish_cleanup_tx_def uploadCleanupTx_def)
qed

text \<open>
  C12. Finishing a cleanup is all or nothing and repeatable. An error of any kind, also one after the
  payload was unlinked, leaves every table as it was, so the intent is still there. Success removes
  the upload, records its id as discarded, and repeating the call succeeds and changes nothing. The
  payload of every other row is untouched in every case.
\<close>

theorem FinishUploadCleanup_outcome:
  assumes "db_inv (jdb j)" and "FinishUploadCleanup env j uid m = (res, j')"
  shows "(isl res \<longrightarrow> jdb j' = jdb j) \<and>
    (\<not> isl res \<longrightarrow> row_of (jdb j') uid = None \<and> uid \<in> cl_upload ` set (upload_discarded (jdb j')) \<and>
       (\<forall>env2. dbf env2 0 = DBOk \<longrightarrow> FinishUploadCleanup env2 j' uid m = (Inr (), j'))) \<and>
    (\<forall>r \<in> set (uploads (jdb j')). r_id r \<noteq> uid \<and> r_blob_path r \<noteq> [] \<longrightarrow> payload (jos j') r = payload (jos j) r)"
proof (intro conjI)
  have inv: "upload_inv (jdb j)" using assms(1) by (simp add: db_inv_def)
  show "isl res \<longrightarrow> jdb j' = jdb j"
    using assms(2) txf_error [of env "finish_cleanup_tx env j uid m" j]
    by (cases res) (auto simp: FinishUploadCleanup_def split: if_splits)
  show "\<forall>r \<in> set (uploads (jdb j')). r_id r \<noteq> uid \<and> r_blob_path r \<noteq> [] \<longrightarrow> payload (jos j') r = payload (jos j) r"
    using FinishUploadCleanup_rows [of env j uid m] FinishUploadCleanup_payload [of _ j uid env m] assms(2)
    by (auto simp: table_simps)
  show "\<not> isl res \<longrightarrow> row_of (jdb j') uid = None \<and> uid \<in> cl_upload ` set (upload_discarded (jdb j')) \<and>
       (\<forall>env2. dbf env2 0 = DBOk \<longrightarrow> FinishUploadCleanup env2 j' uid m = (Inr (), j'))"
  proof
    assume "\<not> isl res"
    then obtain a where run: "txf env (finish_cleanup_tx env j uid m) j = (Inr a, j')"
      and own: "owner j" "validCleanupIdentity m"
      using assms(2) by (cases res) (auto simp: FinishUploadCleanup_def split: if_splits)
    obtain d fs where fin: "finish_cleanup_tx env j uid m (jdb j) (jos j) = (Inr (a, d), fs)"
        and j': "j' = j\<lparr>jdb := d, jos := fs\<rparr>"
      using txf_ok [of env "finish_cleanup_tx env j uid m" j a] run by auto
    have inv': "upload_inv (jdb j')"
      using FinishUploadCleanup_inv [OF assms(1), of env uid m] assms(2) by (simp add: db_inv_def)
    have disc: "\<exists>c. sel_one (\<lambda>c. cl_upload c = uid) (upload_discarded d) = Some c \<and> cl_meta_identity c = m"
      using fin
    proof (cases rule: finish_cleanup_tx_db)
      case 1
      have "uid \<notin> r_id ` set (uploads (jdb j))"
        using upload_inv_discarded [OF inv] 1(3) by (metis disjoint_iff)
      then have "uid \<notin> cl_upload ` set (upload_cleanup (jdb j))"
        using upload_inv_intents [OF inv] by (metis subsetD)
      then have "sel_one (\<lambda>c. cl_upload c = uid) (upload_cleanup (jdb j)) = None"
        by (auto simp: sel_one_None_iff)
      then show ?thesis
        using fin 1 by (auto simp: finish_cleanup_tx_def uploadCleanupTx_def split: option.splits if_splits)
    next
      case (2 p)
      then have "sel_one (\<lambda>c. cl_upload c = uid) (upload_discarded (jdb j)) = None"
        by (auto simp: sel_one_None_iff)
      then show ?thesis using 2 by (simp add: discard_rows_def sel_one_append)
    qed
    then obtain c where c: "sel_one (\<lambda>c. cl_upload c = uid) (upload_discarded (jdb j')) = Some c"
        "cl_meta_identity c = m"
      using j' by auto
    then have mem: "uid \<in> cl_upload ` set (upload_discarded (jdb j'))"
      using sel_one_SomeD by (metis (mono_tags, lifting) image_eqI)
    then have "row_of (jdb j') uid = None"
      unfolding row_of_None_iff using upload_inv_discarded [OF inv'] by (metis disjoint_iff)
    moreover have "\<forall>env2. dbf env2 0 = DBOk \<longrightarrow> FinishUploadCleanup env2 j' uid m = (Inr (), j')"
      using FinishUploadCleanup_repeat [OF inv' _ own(2) c] own(1) j' by simp
    ultimately show "row_of (jdb j') uid = None \<and> uid \<in> cl_upload ` set (upload_discarded (jdb j')) \<and>
       (\<forall>env2. dbf env2 0 = DBOk \<longrightarrow> FinishUploadCleanup env2 j' uid m = (Inr (), j'))"
      using mem by blast
  qed
qed

theorem FinishUploadCleanup_outcome_witness:
  "\<exists>j'. FinishUploadCleanup sample_env
      (snd (BeginUploadCleanup sample_env (sample_journal [sample_row 1 ''a'' StateCancelled ''/j/objects/a''])
         ''a'' ''m'')) ''a'' ''m'' = (Inr (), j') \<and>
    row_of (jdb j') ''a'' = None \<and> FinishUploadCleanup sample_env j' ''a'' ''m'' = (Inr (), j')"
proof -
  let ?s = "sample_journal [sample_row 1 ''a'' StateCancelled ''/j/objects/a'']"
  let ?j = "snd (BeginUploadCleanup sample_env ?s ''a'' ''m'')"
  have "db_inv (jdb ?s)" by (rule sample_inv) simp_all
  then have inv: "db_inv (jdb ?j)" by (rule BeginUploadCleanup_inv)
  have "\<not> isl (fst (FinishUploadCleanup sample_env ?j ''a'' ''m''))" by code_simp
  then obtain j' where run: "FinishUploadCleanup sample_env ?j ''a'' ''m'' = (Inr (), j')"
    by (cases "FinishUploadCleanup sample_env ?j ''a'' ''m''";
        cases "fst (FinishUploadCleanup sample_env ?j ''a'' ''m'')") auto
  have "dbf sample_env 0 = DBOk" by (simp add: sample_env_def)
  then show ?thesis using FinishUploadCleanup_outcome [OF inv run] run by auto
qed

section \<open>Resume\<close>

lemma sel_one_bump:
  "sel_one (\<lambda>c. uc_upload c = uid) (bump_revision uid rs) =
     Some (case sel_one (\<lambda>c. uc_upload c = uid) rs of
             None \<Rightarrow> \<lparr>uc_upload = uid, uc_revision = 1\<rparr>
           | Some c \<Rightarrow> c\<lparr>uc_revision := uc_revision c + 1\<rparr>)"
proof (cases "sel_one (\<lambda>c. uc_upload c = uid) rs")
  case None
  then have "cnt_where (\<lambda>c. uc_upload c = uid) rs = 0" by (auto simp: sel_one_None_iff)
  then show ?thesis using None by (simp add: bump_revision_def sel_one_append)
next
  case (Some c)
  then have "cnt_where (\<lambda>c. uc_upload c = uid) rs > 0" using sel_one_SomeD [OF Some] by auto
  then show ?thesis using Some sel_one_upd_where [of "\<lambda>c. uc_upload c = uid"
      "\<lambda>c. c\<lparr>uc_revision := uc_revision c + 1\<rparr>" "\<lambda>c. uc_upload c = uid" rs] sel_one_SomeD [OF Some]
    by (simp add: bump_revision_def)
qed

lemma revision_bump:
  "revision_of (d\<lparr>upload_cancellation := bump_revision uid (upload_cancellation d)\<rparr>) uid = revision_of d uid + 1"
  by (simp add: revision_of_def sel_one_bump split: option.split)

lemma RequestCancel_revision:
  assumes "RequestCancel env j uid = (Inr s, j')"
  shows "revision_of (jdb j') uid = revision_of (jdb j) uid + 1"
proof -
  have "tx env (\<lambda>d.
          case row_of d uid of
            None \<Rightarrow> Inl JErrNotFound
          | Some r \<Rightarrow>
              if r_tombstone r \<or> r_state r = StateDone then Inl ErrCannotCancel
              else
                (case stop_state (r_state r) of
                   None \<Rightarrow> Inl ErrCannotCancel
                 | Some s \<Rightarrow>
                     Inr (s, (upd_id uid (\<lambda>r. r\<lparr>r_state := s, r_last_error := cancelled_msg\<rparr>) d)
                       \<lparr>upload_cancellation := bump_revision uid (upload_cancellation d)\<rparr>))) j = (Inr s, j')"
    using assms by (simp add: RequestCancel_def split: if_splits)
  then show ?thesis
    using revision_bump [of uid "jdb j"]
    by (cases rule: tx_cases) (auto split: option.splits if_splits simp: revision_of_def)
qed

text \<open>
  C14. What a resume starts from and what it does. A prepared resume was a cancelled, undeleted row
  whose private payload is a regular file of the recorded size with the recorded checksum. When the
  commit succeeds, the row was still that row, no newer version of the file was queued, and it is
  now pending with no attempts, no old session and no parts, while its old state is kept in the
  history under the revision; every other row is untouched.
\<close>

theorem resume_outcome:
  assumes "PrepareUploadResume env j uid = Inr p" and "resume_commit env2 j2 p b = (Inr u, j3)"
  shows "(\<exists>i want. resolve (jos j) (u_BlobPath (pr_u p)) = Some (i, KReg) \<and>
       int (length (os_data (jos j) i)) = u_Size (pr_u p) \<and>
       u_Hashes (pr_u p) HashCRC32C = Some want \<and> digest env HashCRC32C (os_data (jos j) i) = want) \<and>
    (\<exists>r. row_of (jdb j2) uid = Some r \<and> r_state r = StateCancelled \<and> \<not> r_tombstone r \<and>
       r_blob_path r = u_BlobPath (pr_u p) \<and> r_size r = u_Size (pr_u p) \<and>
       (r_ino r \<noteq> 0 \<longrightarrow> (\<forall>q \<in> set (uploads (jdb j2)). r_remote q = r_remote r \<and> r_ino q = r_ino r \<longrightarrow>
          r_rowid q \<le> r_rowid r)) \<and>
       row_of (jdb j3) uid = Some (resume_row b r) \<and>
       (\<exists>h \<in> set (upload_resume_history (jdb j3)). rh_upload h = uid \<and>
          rh_revision h = pr_revision p \<and> fst (rh_snapshot h) = scanUpload r)) \<and>
    (\<forall>q \<in> set (upload_parts (jdb j3)). pt_upload q \<noteq> uid) \<and>
    (\<forall>x. x \<noteq> uid \<longrightarrow> row_of (jdb j3) x = row_of (jdb j2) x)"
proof (intro conjI)
  have prep: "fst (tx env (prepare_tx uid) j) = Inr p" and ver: "verify_retained env j (pr_u p) = None"
    using assms(1) by (auto simp: PrepareUploadResume_def split: if_splits sum.splits option.splits)
  have id: "u_ID (pr_u p) = uid"
    using prep by (auto simp: tx_def prepare_tx_def dest: row_of_SomeD split: if_splits option.splits sum.splits)
  show "\<exists>i want. resolve (jos j) (u_BlobPath (pr_u p)) = Some (i, KReg) \<and>
       int (length (os_data (jos j) i)) = u_Size (pr_u p) \<and>
       u_Hashes (pr_u p) HashCRC32C = Some want \<and> digest env HashCRC32C (os_data (jos j) i) = want"
  proof -
    obtain a info i want where a: "jabs j (u_BlobPath (pr_u p)) = Some a"
      and info: "os_lstat env (jos j) a = Inr info" "is_regular info" "fi_size info = u_Size (pr_u p)"
      and i: "i = fi_ino info" "u_Hashes (pr_u p) HashCRC32C = Some want"
        "digest env HashCRC32C (os_data (jos j) i) = want"
      using ver by (auto simp: verify_retained_def split: option.splits sum.splits if_splits)
    have abs: "filepath_abs (jos j) a = Some a" using a unfolding jabs_def by (rule filepath_abs_idem)
    obtain n where n: "map_of (os_names (jos j)) a = Some n" "info = node_info (jos j) n"
      using info(1) abs by (auto simp: os_lstat_def os_lookup_def split: if_splits option.splits)
    then have reg: "n = (i, KReg)" using info(2) i(1) by (cases n) (simp add: is_regular_def node_info_def)
    then have "resolve (jos j) (u_BlobPath (pr_u p)) = Some (i, KReg)"
      using a n follow_regular by (simp add: resolve_def jabs_def)
    moreover have "int (length (os_data (jos j) i)) = u_Size (pr_u p)"
      using info(3) n(2) reg by (simp add: node_info_def)
    ultimately show ?thesis using i by blast
  qed
  obtain d where com: "resume_tx p b (jdb j2) = Inr (u, d)" and j3: "j3 = j2\<lparr>jdb := d\<rparr>"
    using assms(2) unfolding resume_commit_def by (cases rule: tx_cases) auto
  have d: "jdb j3 = d" using j3 by simp
  from com show "\<exists>r. row_of (jdb j2) uid = Some r \<and> r_state r = StateCancelled \<and> \<not> r_tombstone r \<and>
       r_blob_path r = u_BlobPath (pr_u p) \<and> r_size r = u_Size (pr_u p) \<and>
       (r_ino r \<noteq> 0 \<longrightarrow> (\<forall>q \<in> set (uploads (jdb j2)). r_remote q = r_remote r \<and> r_ino q = r_ino r \<longrightarrow>
          r_rowid q \<le> r_rowid r)) \<and>
       row_of (jdb j3) uid = Some (resume_row b r) \<and>
       (\<exists>h \<in> set (upload_resume_history (jdb j3)). rh_upload h = uid \<and>
          rh_revision h = pr_revision p \<and> fst (rh_snapshot h) = scanUpload r)"
  proof (cases rule: resume_tx_cases)
    case (1 r)
    have "row_of d uid = Some (resume_row b r)"
      using row_of_upd_id [of "resume_row b" uid "jdb j2" uid] 1(1) id unfolding 1(5) by (simp add: row_of_def)
    then show ?thesis using 1 id unfolding d by (auto simp: resume_changed_def)
  qed
  from com show "\<forall>q \<in> set (upload_parts (jdb j3)). pt_upload q \<noteq> uid"
    by (cases rule: resume_tx_cases) (simp add: d table_simps id)
  from com show "\<forall>x. x \<noteq> uid \<longrightarrow> row_of (jdb j3) x = row_of (jdb j2) x"
  proof (cases rule: resume_tx_cases)
    case (1 r)
    show ?thesis
      using row_of_upd_id [of "resume_row b" uid "jdb j2"] id unfolding d 1(5) by (simp add: row_of_def)
  qed
qed

definition stopped_row :: urow where
  "stopped_row = (sample_row 1 ''a'' StateCancelled ''/j/objects/a'')\<lparr>r_hashes := [HashCRC32C \<mapsto> ''00000000'']\<rparr>"

theorem resume_outcome_witness:
  "\<exists>p j'. PrepareUploadResume sample_env (sample_journal [stopped_row]) ''a'' = Inr p \<and>
     resume_commit sample_env (sample_journal [stopped_row]) p None = (Inr (), j') \<and>
     row_of (jdb j') ''a'' = Some (resume_row None stopped_row)"
proof -
  let ?j = "sample_journal [stopped_row]"
  have row: "row_of (jdb ?j) ''a'' = Some stopped_row"
    by (simp add: row_of_def sample_journal_def stopped_row_def)
  have "\<not> isl (PrepareUploadResume sample_env ?j ''a'')" by code_simp
  then obtain p where p: "PrepareUploadResume sample_env ?j ''a'' = Inr p"
    by (cases "PrepareUploadResume sample_env ?j ''a''") auto
  have "\<not> isl (fst (resume_commit sample_env ?j (projr (PrepareUploadResume sample_env ?j ''a'')) None))"
    by code_simp
  then obtain j' where c: "resume_commit sample_env ?j p None = (Inr (), j')"
    unfolding p by (cases "resume_commit sample_env ?j p None"; cases "fst (resume_commit sample_env ?j p None)") auto
  show ?thesis using resume_outcome [OF p c] p c row by auto
qed

end
