(* ===== verification/Staging.thy ===== *)
theory Staging
  imports QueueProps
begin

text \<open>
  In-progress writes: \<open>staging.go\<close> and \<open>link_staging.go\<close>. Bytes land in a private file; the
  digests are computed on the fly while the writes are sequential and from disk otherwise. A
  committed staging file becomes a content-addressed object that is reserved until its row exists.

  A \<open>hash.Hash\<close> is the bytes it has absorbed; its digest is a function of those bytes.
\<close>

section \<open>Hashes\<close>

definition hash_write :: "byte list \<Rightarrow> byte list \<Rightarrow> byte list" where
  "hash_write h bs = h @ bs"

definition is_full :: "HashType \<Rightarrow> bool" where
  "is_full ht \<longleftrightarrow> ht \<in> {HashCRC32C, HashMD5, HashSHA1, HashSHA256}"

definition prefix_cap :: "HashType \<Rightarrow> nat" where
  "prefix_cap ht = (if ht = HashSliceMD5 then 256 * 1024 else 1024)"

definition withCRC :: "HashType list \<Rightarrow> HashType list" where
  "withCRC want = (if HashCRC32C \<in> set want then want else want @ [HashCRC32C])"

text \<open>A family of running hashes, one for each wanted type of its group.\<close>

type_synonym running = "HashType \<rightharpoonup> byte list"

definition new_full :: "HashType list \<Rightarrow> running" where
  "new_full want ht = (if ht \<in> set want \<and> is_full ht then Some [] else None)"

definition new_prefix :: "HashType list \<Rightarrow> running" where
  "new_prefix want ht = (if ht \<in> set want \<and> \<not> is_full ht then Some [] else None)"

definition feed_full :: "byte list \<Rightarrow> running \<Rightarrow> running" where
  "feed_full chunk hs ht = map_option (\<lambda>h. hash_write h chunk) (hs ht)"

definition feed_prefix :: "nat \<Rightarrow> byte list \<Rightarrow> running \<Rightarrow> running" where
  "feed_prefix pos chunk hs ht =
     map_option (\<lambda>h. if pos < prefix_cap ht then hash_write h (take (prefix_cap ht - pos) chunk) else h) (hs ht)"

definition sum_hashes :: "env \<Rightarrow> running \<Rightarrow> running \<Rightarrow> Hashes" where
  "sum_hashes env full pre ht =
     (case full ht of Some h \<Rightarrow> Some (digest env ht h) | None \<Rightarrow> map_option (digest env ht) (pre ht))"

section \<open>The staging file\<close>

record Staging =
  sg_ID :: string
  sg_Path :: string
  sg_file :: nat            \<comment> \<open>the file: its inode\<close>
  sg_open :: bool           \<comment> \<open>not closed yet\<close>
  sg_immutable :: bool
  sg_size :: int
  sg_pos :: int
  sg_streaming :: bool
  sg_full :: running
  sg_prefix :: running
  sg_want :: "HashType list"
  sg_release :: "string option"   \<comment> \<open>the object that \<open>releaseObject\<close> gives back\<close>

definition newStagingState :: "nat \<Rightarrow> string \<Rightarrow> string \<Rightarrow> HashType list \<Rightarrow> Staging" where
  "newStagingState f uid p want =
     (let want' = withCRC want in
      \<lparr>sg_ID = uid, sg_Path = p, sg_file = f, sg_open = True, sg_immutable = False, sg_size = 0, sg_pos = 0,
       sg_streaming = True, sg_full = new_full want', sg_prefix = new_prefix want',
       sg_want = want', sg_release = None\<rparr>)"

text \<open>The new id comes from \<open>uuid.NewString\<close>.\<close>

definition NewStaging :: "env \<Rightarrow> string \<Rightarrow> Journal \<Rightarrow> HashType list \<Rightarrow> (jerr + Staging) \<times> Journal" where
  "NewStaging env uid j want =
     (let p = path_join [StagingDir j, uid @ ''.part''] in
      case os_create_excl env (jos j) p of
        Inl e \<Rightarrow> (Inl (EOs e), j)
      | Inr (f, fs) \<Rightarrow> (Inr (newStagingState f uid p want), j\<lparr>jos := fs\<rparr>))"

definition AdoptStaging :: "env \<Rightarrow> Journal \<Rightarrow> string \<Rightarrow> HashType list \<Rightarrow> jerr + Staging" where
  "AdoptStaging env j p want =
     (case os_open env (jos j) p of
        Inl e \<Rightarrow> Inl (EOs e)
      | Inr f \<Rightarrow>
          if map_option snd (resolve (jos j) p) = Some KDir \<or> osfail env CStat p then Inl (EOs EIO)
          else
            Inr \<lparr>sg_ID = path_base p, sg_Path = p, sg_file = f, sg_open = True, sg_immutable = False,
                 sg_size = int (length (os_data (jos j) f)), sg_pos = 0, sg_streaming = False,
                 sg_full = Map.empty, sg_prefix = Map.empty, sg_want = withCRC want, sg_release = None\<rparr>)"

text \<open>Bytes of a file after a write at an offset; a gap reads as zeros.\<close>

definition overlay :: "nat \<Rightarrow> byte list \<Rightarrow> byte list \<Rightarrow> byte list" where
  "overlay off bs data =
     take off (data @ replicate (off - length data) 0) @ bs @ drop (off + length bs) data"

definition MaxInt64 :: int where
  "MaxInt64 = 9223372036854775807"

text \<open>
  \<open>Staging.WriteAt\<close>. A file accepts all bytes, or (\<open>short = Some k\<close>) a prefix of them and then
  fails; the accepted prefix counts.
\<close>

definition WriteAt ::
  "env \<Rightarrow> nat option \<Rightarrow> byte list \<Rightarrow> int \<Rightarrow> Staging \<Rightarrow> osfs \<Rightarrow> (nat \<times> jerr option) \<times> Staging \<times> osfs" where
  "WriteAt env short p off s fs =
     (if sg_immutable s then ((0, Some EPerm), s, fs)
      else if off < 0 \<or> int (length p) > MaxInt64 - off then ((0, Some EInval), s, fs)
      else if p \<noteq> [] \<and> \<not> space_ok env (path_dir (sg_Path s)) (int (length p)) then ((0, Some ENoSpace), s, fs)
      else
        (let acc = (case short of None \<Rightarrow> p | Some k \<Rightarrow> take k p);
             n = length acc;
             err = (if short = None then None else Some (EOs EIO)) in
         if \<not> sg_open s then ((0, Some EClosed), s, fs)
         else if n = 0 then ((0, err), s, fs)
         else
           (let fs' = set_data (sg_file s) (overlay (nat off) acc (os_data fs (sg_file s))) fs;
                s1 = s\<lparr>sg_size := max (sg_size s) (off + int n)\<rparr>;
                s2 = (if sg_streaming s \<and> off = sg_pos s
                      then s1\<lparr>sg_full := feed_full acc (sg_full s),
                              sg_prefix := feed_prefix (nat (sg_pos s)) acc (sg_prefix s),
                              sg_pos := sg_pos s + int n\<rparr>
                      else s1\<lparr>sg_streaming := False\<rparr>) in
            ((n, err), s2, fs'))))"

definition Truncate :: "env \<Rightarrow> int \<Rightarrow> Staging \<Rightarrow> osfs \<Rightarrow> jerr option \<times> Staging \<times> osfs" where
  "Truncate env sz s fs =
     (if sg_immutable s then (Some EPerm, s, fs)
      else if sz < 0 then (Some EInval, s, fs)
      else if max 0 (sz - sg_size s) \<noteq> 0 \<and>
          \<not> space_ok env (path_dir (sg_Path s)) (max 0 (sz - sg_size s)) then (Some ENoSpace, s, fs)
      else if \<not> sg_open s then (Some EClosed, s, fs)
      else if osfail env CTruncate (sg_Path s) then (Some (EOs EIO), s, fs)
      else
        (let data = os_data fs (sg_file s) in
         (None, s\<lparr>sg_size := sz, sg_streaming := False\<rparr>,
          set_data (sg_file s) (take (nat sz) (data @ replicate (nat sz - length data) 0)) fs)))"

text \<open>How a read ends.\<close>

datatype readend = ReadOk | ReadEOF | ReadErr jerr

definition ReadAt :: "env \<Rightarrow> nat \<Rightarrow> int \<Rightarrow> Staging \<Rightarrow> osfs \<Rightarrow> byte list \<times> readend" where
  "ReadAt env n off s fs =
     (if \<not> sg_open s then ([], ReadErr EClosed)
      else if off < 0 then ([], ReadErr EInval)
      else if n > 0 \<and> osfail env CRead (sg_Path s) then ([], ReadErr (EOs EIO))
      else (let bs = take n (drop (nat off) (os_data fs (sg_file s))) in
            (bs, if length bs < n then ReadEOF else ReadOk)))"

text \<open>The buffer of \<open>hashFile\<close>: one mebibyte.\<close>

definition hash_buf :: nat where
  "hash_buf = 1048576"

text \<open>
  The read loop of \<open>hashFile\<close>. A read returns what is left of the file, at most a buffer; a short
  read comes with EOF and ends the loop.
\<close>

function hash_loop :: "byte list \<Rightarrow> nat \<Rightarrow> nat \<Rightarrow> running \<Rightarrow> running \<Rightarrow> running \<times> running" where
  "hash_loop data sz pos full pre =
     (if pos < sz then
        (let buf = take hash_buf (drop pos data) in
         if buf = [] then (full, pre)
         else
           (let chunk = take (sz - pos) buf;
                full' = feed_full chunk full; pre' = feed_prefix pos chunk pre in
            if length buf < hash_buf then (full', pre')
            else hash_loop data sz (pos + length chunk) full' pre'))
      else (full, pre))"
  by pat_completeness auto
termination
  by (relation "measure (\<lambda>(data, sz, pos, full, pre). sz - pos)") auto

declare hash_loop.simps [simp del]

definition hashFile :: "env \<Rightarrow> osfs \<Rightarrow> bool \<Rightarrow> nat \<Rightarrow> string \<Rightarrow> int \<Rightarrow> HashType list \<Rightarrow> jerr + Hashes" where
  "hashFile env fs opened f p sz want =
     (if sz > 0 \<and> \<not> opened then Inl EClosed
      else if sz > 0 \<and> osfail env CRead p then Inl (EOs EIO)
      else (let (full, pre) = hash_loop (os_data fs f) (nat sz) 0 (new_full want) (new_prefix want) in
            Inr (sum_hashes env full pre)))"

definition Staging_Hashes :: "env \<Rightarrow> osfs \<Rightarrow> Staging \<Rightarrow> jerr + Hashes" where
  "Staging_Hashes env fs s =
     (if sg_streaming s \<and> sg_pos s = sg_size s then Inr (sum_hashes env (sg_full s) (sg_prefix s))
      else hashFile env fs (sg_open s) (sg_file s) (sg_Path s) (sg_size s) (sg_want s))"

definition crc32cOf :: "env \<Rightarrow> osfs \<Rightarrow> nat \<Rightarrow> string \<Rightarrow> jerr + string" where
  "crc32cOf env fs f p =
     (if osfail env CRead p then Inl (EOs EIO) else Inr (digest env HashCRC32C (os_data fs f)))"

section \<open>Objects\<close>

text \<open>The name of an object: its first content digest, or the staging id.\<close>

definition object_name :: "Hashes \<Rightarrow> string \<Rightarrow> string" where
  "object_name h uid =
     (case List.find (\<lambda>(ht, nm). h ht \<noteq> None \<and> h ht \<noteq> Some [])
        [(HashSHA1, ''sha1''), (HashMD5, ''md5''), (HashSHA256, ''sha256'')] of
        None \<Rightarrow> uid | Some (ht, nm) \<Rightarrow> nm @ ''-'' @ the (h ht))"

text \<open>
  After a rename that was a no-op, because both names were links to one inode, the source name is
  still there and is consumed.
\<close>

definition consume_alias :: "env \<Rightarrow> osfs \<Rightarrow> string \<Rightarrow> string \<Rightarrow> oserr option \<times> osfs" where
  "consume_alias env fs src dst =
     (if filepath_abs fs src = filepath_abs fs dst then (None, fs)
      else
        (case (os_lstat env fs src, os_stat env fs dst) of
           (Inr source, Inr target) \<Rightarrow>
             if is_regular source \<and> same_file source target then os_remove env fs src else (None, fs)
         | _ \<Rightarrow> (None, fs)))"

definition CommitStaging :: "env \<Rightarrow> Journal \<Rightarrow> Staging \<Rightarrow> Hashes \<Rightarrow> (jerr + string) \<times> Staging \<times> Journal" where
  "CommitStaging env j s h =
     (if durability j \<noteq> DurabilityCrash \<and> \<not> sg_open s then (Inl EClosed, s, j)
      else if durability j \<noteq> DurabilityCrash \<and> osfail env CSync (sg_Path s) then (Inl (EOs EIO), s, j)
      else
        (let dst = path_join [ObjectsDir j, object_name h (sg_ID s)] in
         case jabs j dst of
           None \<Rightarrow> (Inl (EOs EIO), s, j)
         | Some absDst \<Rightarrow>
             if \<not> sg_open s then (Inl EClosed, s, j)
             else if osfail env CClose (sg_Path s) then (Inl (EOs EIO), s\<lparr>sg_open := False\<rparr>, j)
             else
               (case os_rename env (jos j) (sg_Path s) dst of
                  (Some e, fs) \<Rightarrow> (Inl (EOs e), s\<lparr>sg_open := False\<rparr>, j)
                | (None, fs) \<Rightarrow>
                    (let s' = s\<lparr>sg_open := False, sg_release := Some dst\<rparr>;
                         (err, fs') = consume_alias env fs (sg_Path s) dst;
                         j' = j\<lparr>jos := fs',
                                stagedObjects := (stagedObjects j)(sg_ID s \<mapsto> absDst),
                                stagedRefs := (stagedRefs j)(absDst := Suc (stagedRefs j absDst))\<rparr> in
                     case err of
                       Some e \<Rightarrow> (Inl (EOs e), s', j')
                     | None \<Rightarrow> (Inr dst, s', j')))))"

definition Discard :: "env \<Rightarrow> Journal \<Rightarrow> Staging \<Rightarrow> jerr option \<times> Staging \<times> Journal" where
  "Discard env j s =
     (let j1 = (case sg_release s of None \<Rightarrow> j | Some dst \<Rightarrow> releaseStagedObject j (sg_ID s) dst);
          (err, fs) = os_remove env (jos j1) (sg_Path s) in
      (case err of None \<Rightarrow> None | Some ENOENT \<Rightarrow> None | Some e \<Rightarrow> Some (EOs e),
       s\<lparr>sg_open := False, sg_release := None\<rparr>, j1\<lparr>jos := fs\<rparr>))"

text \<open>
  \<open>LinkStaging\<close>. The source is an open file: its inode and kind, and the name it was opened by.
\<close>

definition LinkStaging ::
  "env \<Rightarrow> string \<Rightarrow> Journal \<Rightarrow> fnode \<Rightarrow> string \<Rightarrow> HashType list \<Rightarrow> (jerr + Staging) \<times> Journal" where
  "LinkStaging env uid j src name want =
     (if osfail env CStat name then (Inl (EOs EIO), j)
      else
        (let info = node_info (jos j) src in
         if \<not> is_regular info then (Inl EInval, j)
         else
           (case os_lstat env (jos j) name of
              Inl e \<Rightarrow> (Inl (EOs e), j)
            | Inr named \<Rightarrow>
                if \<not> is_regular named \<or> \<not> same_file info named then (Inl ErrLinkSourceChanged, j)
                else
                  (let p = path_join [StagingDir j, uid @ ''.part''] in
                   case os_link env (jos j) name p of
                     (Some e, fs) \<Rightarrow> (Inl (EOs e), j)
                   | (None, fs) \<Rightarrow>
                       (let j1 = j\<lparr>jos := fs\<rparr>;
                            undone = j1\<lparr>jos := snd (os_remove env fs p)\<rparr> in
                        case os_lstat env fs p of
                          Inl e \<Rightarrow> (Inl ErrLinkSourceChanged, undone)
                        | Inr linked \<Rightarrow>
                            if \<not> is_regular linked \<or> \<not> same_file info linked \<or> fi_size info \<noteq> fi_size linked
                            then (Inl ErrLinkSourceChanged, undone)
                            else
                              (case AdoptStaging env j1 p want of
                                 Inl e \<Rightarrow> (Inl e, undone)
                               | Inr s \<Rightarrow> (Inr (s\<lparr>sg_immutable := True\<rparr>), j1)))))))"

end
