(* ===== verification/StagingProps.thy ===== *)
theory StagingProps
  imports Staging
begin

text \<open>
  Staging files are correct: the digests are those of the file's bytes however it was written, what
  was written reads back, and an object that waits for its row survives garbage collection.
\<close>

section \<open>Digests\<close>

text \<open>What the digests of some bytes should be.\<close>

definition hashed_part :: "HashType \<Rightarrow> byte list \<Rightarrow> byte list" where
  "hashed_part ht data = (if is_full ht then data else take (prefix_cap ht) data)"

definition ref_hashes :: "env \<Rightarrow> HashType list \<Rightarrow> byte list \<Rightarrow> Hashes" where
  "ref_hashes env want data ht = (if ht \<in> set want then Some (digest env ht (hashed_part ht data)) else None)"

text \<open>The running hashes after some bytes.\<close>

definition full_after :: "HashType list \<Rightarrow> byte list \<Rightarrow> running" where
  "full_after want data ht = (if ht \<in> set want \<and> is_full ht then Some data else None)"

definition prefix_after :: "HashType list \<Rightarrow> byte list \<Rightarrow> running" where
  "prefix_after want data ht = (if ht \<in> set want \<and> \<not> is_full ht then Some (take (prefix_cap ht) data) else None)"

lemma after_nil: "new_full want = full_after want []" "new_prefix want = prefix_after want []"
  by (simp_all add: fun_eq_iff new_full_def new_prefix_def full_after_def prefix_after_def)

lemma feed_full_after: "feed_full chunk (full_after want data) = full_after want (data @ chunk)"
  by (simp add: fun_eq_iff feed_full_def full_after_def hash_write_def)

lemma feed_prefix_after:
  "feed_prefix (length data) chunk (prefix_after want data) = prefix_after want (data @ chunk)"
  by (auto simp: fun_eq_iff feed_prefix_def prefix_after_def hash_write_def)

lemmas feed_after = feed_full_after feed_prefix_after

lemma sum_after: "sum_hashes env (full_after want data) (prefix_after want data) = ref_hashes env want data"
  by (simp add: fun_eq_iff sum_hashes_def ref_hashes_def full_after_def prefix_after_def hashed_part_def)

lemma hash_loop_step:
  assumes "pos < sz" "buf = take hash_buf (drop pos data)" "buf \<noteq> []" "chunk = take (sz - pos) buf"
  shows "hash_loop data sz pos full pre =
    (if length buf < hash_buf then (feed_full chunk full, feed_prefix pos chunk pre)
     else hash_loop data sz (pos + length chunk) (feed_full chunk full) (feed_prefix pos chunk pre))"
  using assms(1,3) unfolding assms(4) by (subst hash_loop.simps) (simp add: Let_def assms(2) [symmetric])

text \<open>The read loop absorbs the first \<open>sz\<close> bytes, whatever the buffer.\<close>

lemma hash_loop_after:
  assumes "pos \<le> length data" "sz \<le> length data" "pos \<le> sz"
  shows "hash_loop data sz pos (full_after want (take pos data)) (prefix_after want (take pos data)) =
    (full_after want (take sz data), prefix_after want (take sz data))"
  using assms
proof (induction "sz - pos" arbitrary: pos rule: less_induct)
  case less
  show ?case
  proof (cases "pos < sz")
    case False
    then have "pos = sz" using less.prems by simp
    then show ?thesis by (subst hash_loop.simps) simp
  next
    case True
    define buf where "buf = take hash_buf (drop pos data)"
    define chunk where "chunk = take (sz - pos) buf"
    have len: "length buf = min hash_buf (length data - pos)" "length chunk = min (sz - pos) (length buf)"
      "hash_buf > 0"
      by (auto simp: buf_def chunk_def hash_buf_def)
    then have pos': "pos + length chunk \<le> sz" "pos < pos + length chunk" and ne: "buf \<noteq> []"
      using True less.prems by (auto simp: min_def split: if_splits)
    have "chunk = take (length chunk) (drop pos data)"
      using len by (simp add: chunk_def buf_def min_def)
    then have "take pos data @ chunk = take (pos + length chunk) data" by (simp add: take_add)
    then have feed: "feed_full chunk (full_after want (take pos data)) = full_after want (take (pos + length chunk) data)"
      "feed_prefix pos chunk (prefix_after want (take pos data)) = prefix_after want (take (pos + length chunk) data)"
      using feed_full_after [of chunk want "take pos data"] feed_prefix_after [of "take pos data" chunk want]
        less.prems by (simp_all add: min_absorb2)
    note step = hash_loop_step [OF True buf_def ne chunk_def, unfolded feed]
    show ?thesis
    proof (cases "length buf < hash_buf")
      case short: True
      then have "pos + length chunk = sz" using less.prems True len by (auto simp: min_def split: if_splits)
      then show ?thesis using short by (simp add: step feed)
    next
      case False
      have "sz - (pos + length chunk) < sz - pos" using pos' by linarith
      from less.hyps [OF this] show ?thesis using False less.prems pos' by (simp add: step feed)
    qed
  qed
qed

lemma hashFile_ref:
  assumes "\<not> osfail env CRead p" "opened"
  shows "hashFile env fs opened f p (int (length (os_data fs f))) want = Inr (ref_hashes env want (os_data fs f))"
  using assms hash_loop_after [of 0 "os_data fs f" "length (os_data fs f)" want]
  by (simp add: hashFile_def after_nil sum_after)

text \<open>The size is the file's, and running hashes have seen all of it.\<close>

definition staging_ok :: "osfs \<Rightarrow> Staging \<Rightarrow> bool" where
  "staging_ok fs s \<longleftrightarrow>
     sg_size s = int (length (os_data fs (sg_file s))) \<and>
     (sg_streaming s \<longrightarrow> sg_pos s = sg_size s \<and>
        sg_full s = full_after (sg_want s) (os_data fs (sg_file s)) \<and>
        sg_prefix s = prefix_after (sg_want s) (os_data fs (sg_file s)))"

lemma Staging_Hashes_ref:
  assumes "staging_ok fs s" "sg_open s" "\<not> osfail env CRead (sg_Path s)"
  shows "Staging_Hashes env fs s = Inr (ref_hashes env (sg_want s) (os_data fs (sg_file s)))"
  using assms hashFile_ref [OF assms(3,2), of fs "sg_file s" "sg_want s"]
  by (auto simp: Staging_Hashes_def staging_ok_def sum_after)

lemma length_overlay: "length (overlay off bs data) = max (length data) (off + length bs)"
  by (auto simp: overlay_def max_def min_def)

lemma overlay_end: "overlay (length data) bs data = data @ bs"
  by (simp add: overlay_def)

lemma WriteAt_ok:
  assumes "staging_ok fs s" "WriteAt env short p off s fs = (r, s', fs')"
  shows "staging_ok fs' s'" and "sg_want s' = sg_want s" "sg_file s' = sg_file s"
    "sg_open s' = sg_open s" "sg_Path s' = sg_Path s" "sg_immutable s' = sg_immutable s"
proof -
  show "staging_ok fs' s'"
  proof (cases "fs' = fs \<and> s' = s")
    case False
    define acc where "acc = (case short of None \<Rightarrow> p | Some k \<Rightarrow> take k p)"
    let ?data = "os_data fs (sg_file s)"
    have off: "off \<ge> 0" and fs': "fs' = set_data (sg_file s) (overlay (nat off) acc ?data) fs"
      and s': "s' = (if sg_streaming s \<and> off = sg_pos s
        then s\<lparr>sg_size := max (sg_size s) (off + int (length acc)), sg_full := feed_full acc (sg_full s),
               sg_prefix := feed_prefix (nat (sg_pos s)) acc (sg_prefix s), sg_pos := sg_pos s + int (length acc)\<rparr>
        else s\<lparr>sg_size := max (sg_size s) (off + int (length acc)), sg_streaming := False\<rparr>)"
      using assms(2) False by (auto simp: WriteAt_def Let_def acc_def split: if_splits)
    show ?thesis
    proof (cases "sg_streaming s \<and> off = sg_pos s")
      case True
      then have "nat off = length ?data" using assms(1) by (simp add: staging_ok_def)
      then show ?thesis
        using True assms(1) fs' s' by (auto simp: staging_ok_def overlay_end feed_after)
    next
      case False
      then show ?thesis using assms(1) fs' s' off by (auto simp: staging_ok_def length_overlay)
    qed
  qed (use assms in simp)
qed (use assms(2) in \<open>auto simp: WriteAt_def Let_def split: if_splits\<close>)

lemma Truncate_ok:
  assumes "staging_ok fs s" "Truncate env sz s fs = (r, s', fs')"
  shows "staging_ok fs' s'" and "sg_want s' = sg_want s" "sg_file s' = sg_file s"
    "sg_open s' = sg_open s" "sg_Path s' = sg_Path s" "sg_immutable s' = sg_immutable s"
  using assms by (auto simp: Truncate_def staging_ok_def Let_def split: if_splits)

text \<open>Any sequence of writes and truncations, each with its own faults.\<close>

datatype staging_op = OWrite "nat option" "byte list" int | OTruncate int

fun staging_step :: "env \<times> staging_op \<Rightarrow> Staging \<times> osfs \<Rightarrow> Staging \<times> osfs" where
  "staging_step (env, OWrite short p off) (s, fs) = snd (WriteAt env short p off s fs)"
| "staging_step (env, OTruncate sz) (s, fs) = snd (Truncate env sz s fs)"

definition staging_run :: "(env \<times> staging_op) list \<Rightarrow> Staging \<times> osfs \<Rightarrow> Staging \<times> osfs" where
  "staging_run ops st = fold staging_step ops st"

lemma staging_step_ok:
  assumes "staging_ok fs s" "staging_step op (s, fs) = (s', fs')"
  shows "staging_ok fs' s' \<and> sg_want s' = sg_want s \<and> sg_file s' = sg_file s \<and> sg_open s' = sg_open s \<and>
    sg_Path s' = sg_Path s"
proof (cases "(op, (s, fs))" rule: staging_step.cases)
  case (1 env short p off s0 fs0)
  then obtain r where "WriteAt env short p off s fs = (r, s', fs')"
    using assms(2) by (cases "WriteAt env short p off s fs") auto
  from WriteAt_ok [OF assms(1) this] show ?thesis by simp
next
  case (2 env sz s0 fs0)
  then obtain r where "Truncate env sz s fs = (r, s', fs')"
    using assms(2) by (cases "Truncate env sz s fs") auto
  from Truncate_ok [OF assms(1) this] show ?thesis by simp
qed

lemma staging_run_ok:
  assumes "staging_ok fs s" "staging_run ops (s, fs) = (s', fs')"
  shows "staging_ok fs' s' \<and> sg_want s' = sg_want s \<and> sg_file s' = sg_file s \<and> sg_open s' = sg_open s \<and>
    sg_Path s' = sg_Path s"
  using assms
proof (induction ops arbitrary: s fs)
  case (Cons op ops)
  obtain s1 fs1 where st: "staging_step op (s, fs) = (s1, fs1)" by fastforce
  then have rest: "staging_run ops (s1, fs1) = (s', fs')" using Cons.prems(2) by (simp add: staging_run_def)
  show ?case using Cons.IH [OF _ rest] staging_step_ok [OF Cons.prems(1) st] by simp
qed (simp add: staging_run_def)

lemma NewStaging_ok:
  assumes "NewStaging env uid j want = (Inr s, j')"
  shows "staging_ok (jos j') s" "sg_want s = withCRC want" "sg_open s"
    "sg_Path s = path_join [StagingDir j, uid @ ''.part'']"
  using assms
  by (auto simp: NewStaging_def Let_def newStagingState_def staging_ok_def after_nil os_create_excl_def
    split: sum.splits option.splits if_splits)

text \<open>
  C16. The digests of a staging file are those of its bytes. Whatever writes (in order, out of
  order, overlapping, leaving gaps, cut short by an error) and truncations a new staging file has
  seen, under any faults, its size is the length of the file and each digest it reports, full or
  of a prefix, is the digest of the file's present bytes, for exactly the requested types and the
  recovery checksum.
\<close>

theorem staging_hashes_exact:
  assumes "NewStaging env uid j want = (Inr s0, j0)" and "staging_run ops (s0, jos j0) = (s, fs)"
    and "\<not> osfail env2 CRead (sg_Path s)"
  shows "sg_size s = int (length (os_data fs (sg_file s))) \<and>
    Staging_Hashes env2 fs s =
      Inr (\<lambda>ht. if ht \<in> set want \<or> ht = HashCRC32C
                then Some (digest env2 ht (hashed_part ht (os_data fs (sg_file s)))) else None)"
proof -
  note new = NewStaging_ok [OF assms(1)]
  have run: "staging_ok fs s" "sg_want s = withCRC want" "sg_open s"
    using staging_run_ok [OF new(1) assms(2)] new by simp_all
  have "ref_hashes env2 (withCRC want) data =
      (\<lambda>ht. if ht \<in> set want \<or> ht = HashCRC32C then Some (digest env2 ht (hashed_part ht data)) else None)" for data
    by (auto simp: fun_eq_iff ref_hashes_def withCRC_def)
  then show ?thesis
    using Staging_Hashes_ref [OF run(1,3) assms(3)] run by (simp add: staging_ok_def)
qed

theorem staging_hashes_exact_witness:
  "\<exists>s0 j0 s fs. NewStaging sample_env ''x'' (sample_journal []) [HashSHA1] = (Inr s0, j0) \<and>
     staging_run [(sample_env, OWrite None [1, 2] 0), (sample_env, OWrite (Some 1) [3, 4] 5)] (s0, jos j0) = (s, fs) \<and>
     Staging_Hashes sample_env fs s =
       Inr (\<lambda>ht. if ht \<in> {HashSHA1, HashCRC32C}
                 then Some (digest sample_env ht (hashed_part ht (os_data fs (sg_file s)))) else None)"
proof -
  obtain s0 j0 where new: "NewStaging sample_env ''x'' (sample_journal []) [HashSHA1] = (Inr s0, j0)"
  proof -
    have "\<not> isl (fst (NewStaging sample_env ''x'' (sample_journal []) [HashSHA1]))" by code_simp
    then show ?thesis using that by (cases "NewStaging sample_env ''x'' (sample_journal []) [HashSHA1]";
      cases "fst (NewStaging sample_env ''x'' (sample_journal []) [HashSHA1])") auto
  qed
  obtain s fs where run: "staging_run [(sample_env, OWrite None [1, 2] 0), (sample_env, OWrite (Some 1) [3, 4] 5)]
      (s0, jos j0) = (s, fs)" by fastforce
  have "\<not> osfail sample_env CRead (sg_Path s)" by (simp add: sample_env_def)
  from staging_hashes_exact [OF new run this] new run show ?thesis by auto
qed

section \<open>Reading back\<close>

lemma overlay_read: "take (length bs) (drop off (overlay off bs data)) = bs"
  by (simp add: overlay_def)

lemma overlay_other:
  assumes "i < off \<or> off + length bs \<le> i" "i < length data"
  shows "overlay off bs data ! i = data ! i"
  using assms by (auto simp: overlay_def nth_append min_def)

text \<open>
  C17. What was written reads back. After a write that reports no error, reading the same range
  gives exactly the written bytes; bytes of the file outside the range are as before; and a write
  that fails leaves on disk the accepted prefix it reports.
\<close>

theorem staging_read_back:
  assumes "staging_ok fs s" and "WriteAt env short p off s fs = ((n, err), s', fs')"
    and "\<not> osfail env2 CRead (sg_Path s)" and "sg_open s"
  shows "n \<le> length p \<and> (err = None \<longrightarrow> n = length p) \<and>
    (n > 0 \<longrightarrow> ReadAt env2 n off s' fs' = (take n p, ReadOk)) \<and>
    (\<forall>i < length (os_data fs (sg_file s)). int i < off \<or> off + int n \<le> int i \<longrightarrow>
       os_data fs' (sg_file s') ! i = os_data fs (sg_file s) ! i) \<and>
    (\<forall>f. f \<noteq> sg_file s \<longrightarrow> os_data fs' f = os_data fs f) \<and> os_names fs' = os_names fs"
proof (cases "n = 0")
  case True
  then have "fs' = fs \<and> s' = s \<and> (err = None \<longrightarrow> p = [])"
    using assms(2,4) by (auto simp: WriteAt_def Let_def split: if_splits option.splits)
  then show ?thesis using True by auto
next
  case False
  define acc where "acc = (case short of None \<Rightarrow> p | Some k \<Rightarrow> take k p)"
  have w: "off \<ge> 0" "fs' = set_data (sg_file s) (overlay (nat off) acc (os_data fs (sg_file s))) fs"
    "n = length acc" "err = None \<longrightarrow> short = None"
    using assms(2) False by (auto simp: WriteAt_def Let_def acc_def split: if_splits)
  have acc: "acc = take n p" "n \<le> length p" "short = None \<longrightarrow> acc = p"
    using w(3) by (auto simp: acc_def min_def split: option.splits)
  have same: "sg_file s' = sg_file s" "sg_open s' = sg_open s" "sg_Path s' = sg_Path s"
    using WriteAt_ok [OF assms(1,2)] by auto
  have "ReadAt env2 n off s' fs' = (take n p, ReadOk)"
    using assms(3,4) w(1,2) overlay_read [of acc "nat off" "os_data fs (sg_file s)"]
    by (simp add: ReadAt_def same Let_def acc(1) [symmetric] w(3) [symmetric])
  moreover have "os_data fs' (sg_file s') ! i = os_data fs (sg_file s) ! i"
    if i: "i < length (os_data fs (sg_file s))" and out: "int i < off \<or> off + int n \<le> int i" for i
  proof -
    have "i < nat off \<or> nat off + length acc \<le> i" using out w(1,3) by linarith
    from overlay_other [OF this i] show ?thesis using w(2) same by simp
  qed
  moreover have "err = None \<longrightarrow> n = length p" using w(3,4) acc(3) by auto
  moreover have "\<forall>f. f \<noteq> sg_file s \<longrightarrow> os_data fs' f = os_data fs f" "os_names fs' = os_names fs"
    using w(2) by simp_all
  ultimately show ?thesis using acc(2) by blast
qed

theorem staging_read_back_witness:
  "\<exists>s0 j0 s' fs'. NewStaging sample_env ''x'' (sample_journal []) [] = (Inr s0, j0) \<and>
     WriteAt sample_env None [1, 2, 3] 4 s0 (jos j0) = ((3, None), s', fs') \<and>
     ReadAt sample_env 3 4 s' fs' = ([1, 2, 3], ReadOk)"
proof -
  obtain s0 j0 where new: "NewStaging sample_env ''x'' (sample_journal []) [] = (Inr s0, j0)"
  proof -
    have "\<not> isl (fst (NewStaging sample_env ''x'' (sample_journal []) []))" by code_simp
    then show ?thesis using that by (cases "NewStaging sample_env ''x'' (sample_journal []) []";
      cases "fst (NewStaging sample_env ''x'' (sample_journal []) [])") auto
  qed
  have s0: "\<not> sg_immutable s0"
    using new by (auto simp: NewStaging_def newStagingState_def Let_def split: sum.splits)
  obtain n err s' fs' where w: "WriteAt sample_env None [1, 2, 3] 4 s0 (jos j0) = ((n, err), s', fs')"
    by (metis prod_cases3 surj_pair)
  then have "n = 3 \<and> err = None"
    using s0 NewStaging_ok(3) [OF new]
    by (auto simp: WriteAt_def sample_env_def MaxInt64_def Let_def split: if_splits)
  moreover have "\<not> osfail sample_env CRead (sg_Path s0)" by (simp add: sample_env_def)
  ultimately show ?thesis
    using staging_read_back [OF NewStaging_ok(1) [OF new] w _ NewStaging_ok(3) [OF new], of sample_env] new w
    by auto
qed

section \<open>Objects waiting for their row\<close>

text \<open>Names of one inode agree on its kind.\<close>

definition kinds_agree :: "osfs \<Rightarrow> bool" where
  "kinds_agree fs \<longleftrightarrow>
     (\<forall>(p, i, k) \<in> set (os_names fs). \<forall>(q, i', k') \<in> set (os_names fs). i = i' \<longrightarrow> k = k')"

lemma kinds_agreeD:
  assumes "kinds_agree fs" "map_of (os_names fs) a = Some (i, k)" "map_of (os_names fs) b = Some (i, k')"
  shows "k = k'"
  using assms(1) map_of_SomeD [OF assms(2)] map_of_SomeD [OF assms(3)] unfolding kinds_agree_def by fast

lemma consume_alias_other:
  assumes "filepath_abs fs dst = Some a"
  shows "map_of (os_names (snd (consume_alias env fs src dst))) a = map_of (os_names fs) a"
    and "os_data (snd (consume_alias env fs src dst)) = os_data fs"
    and "os_cwd (snd (consume_alias env fs src dst)) = os_cwd fs"
  using assms os_remove_other [of fs src a env]
  by (auto simp: consume_alias_def split: sum.split)

lemma os_rename_ok:
  assumes "os_rename env fs p q = (None, fs')" "kinds_agree fs"
    and "filepath_abs fs p = Some a" "map_of (os_names fs) a = Some (i, KReg)"
  obtains b where "filepath_abs fs q = Some b" "map_of (os_names fs') b = Some (i, KReg)"
    "os_data fs' = os_data fs" "os_cwd fs' = os_cwd fs"
  using assms kinds_agreeD [OF assms(2,4)]
  by (auto simp: os_rename_def split: if_splits option.splits prod.splits)

lemma CommitStaging_ok:
  assumes run: "CommitStaging env j s h = (Inr dst, s', j')" and "kinds_agree (jos j)"
    and "filepath_abs (jos j) (sg_Path s) = Some a" "map_of (os_names (jos j)) a = Some (i, KReg)"
  obtains b where "jabs j dst = Some b" "map_of (os_names (jos j')) b = Some (i, KReg)"
    "os_data (jos j') = os_data (jos j)" "os_cwd (jos j') = os_cwd (jos j)"
    "stagedRefs j' b = Suc (stagedRefs j b)" "stagedObjects j' (sg_ID s) = Some b"
    "dst = path_join [ObjectsDir j, object_name h (sg_ID s)]" "jdb j' = jdb j"
proof -
  let ?dst = "path_join [ObjectsDir j, object_name h (sg_ID s)]"
  obtain b fs fs' where d: "dst = ?dst" "jabs j ?dst = Some b"
    "os_rename env (jos j) (sg_Path s) ?dst = (None, fs)"
    "consume_alias env fs (sg_Path s) ?dst = (None, fs')"
    and j': "j' = j\<lparr>jos := fs', stagedObjects := (stagedObjects j)(sg_ID s \<mapsto> b),
      stagedRefs := (stagedRefs j)(b := Suc (stagedRefs j b))\<rparr>"
    using run by (auto simp: CommitStaging_def Let_def split: if_splits option.splits prod.splits)
  from os_rename_ok [OF d(3) assms(2-4)] d(2)
  have ren: "map_of (os_names fs) b = Some (i, KReg)" "os_data fs = os_data (jos j)" "os_cwd fs = os_cwd (jos j)"
    by (auto simp: jabs_def)
  then have "filepath_abs fs ?dst = Some b" using d(2) by (simp add: jabs_def filepath_abs_def)
  from consume_alias_other [OF this, of env "sg_Path s"] d(4) ren
  show ?thesis using that d(1,2) j' by simp
qed

lemma foldl_clean_nonempty: "[] \<notin> set st \<Longrightarrow> [] \<notin> set (foldl (clean_step b) st segs)"
proof (induction segs arbitrary: st)
  case (Cons x xs)
  have "[] \<notin> set (clean_step b st x)" using Cons.prems by (auto split: list.split)
  then show ?case using Cons.IH by simp
qed simp

lemma join_on_nonempty: "ss \<noteq> [] \<Longrightarrow> [] \<notin> set ss \<Longrightarrow> join_on c ss \<noteq> []"
  by (cases "(c, ss)" rule: join_on.cases) auto

lemma path_clean_nonempty: "path_clean p \<noteq> []"
  using foldl_clean_nonempty [of "[]"]
  by (auto simp: path_clean_def Let_def clean_segs_def join_on_nonempty)

lemma path_join_nonempty: "e \<noteq> [] \<Longrightarrow> e \<in> set es \<Longrightarrow> path_join es \<noteq> []"
  by (auto simp: path_join_def path_clean_nonempty filter_empty_conv Let_def)

text \<open>Any number of collections, each of any path and under any faults.\<close>

definition collections :: "(env \<times> string) list \<Rightarrow> Journal \<Rightarrow> Journal" where
  "collections gs j = fold (\<lambda>(env, blob) j. removeBlobIfUnreferenced env j blob) gs j"

lemma collections_simps [simp]:
  "collections [] j = j"
  "collections ((env, blob) # gs) j = collections gs (removeBlobIfUnreferenced env j blob)"
  by (simp_all add: collections_def)

lemma removeBlob_os [simp]:
  "os_cwd (jos (removeBlobIfUnreferenced env j blob)) = os_cwd (jos j)"
  "os_data (jos (removeBlobIfUnreferenced env j blob)) = os_data (jos j)"
  by (rule removeBlob_effect [of env j blob]; auto simp: gc_effect_def)+

lemma collections_staged:
  assumes "stagedRefs j a > 0"
  shows "map_of (os_names (jos (collections gs j))) a = map_of (os_names (jos j)) a"
  using assms by (induction gs arbitrary: j) (auto simp: removeBlob_staged)

lemma collections_rest [simp]:
  "jdb (collections gs j) = jdb j" "os_cwd (jos (collections gs j)) = os_cwd (jos j)"
  "os_data (jos (collections gs j)) = os_data (jos j)" "stagedRefs (collections gs j) = stagedRefs j"
  by (induction gs arbitrary: j) auto

lemma collections_payload:
  assumes "r \<in> set (uploads (jdb j))" "r_blob_path r \<noteq> []"
  shows "payload (jos (collections gs j)) r = payload (jos j) r"
  using assms by (induction gs arbitrary: j) (auto simp: removeBlob_payload)

lemma commitBatch_jos: "jos (snd (commitBatch env j us)) = jos j"
proof -
  have each: "jos (snd (commit_each env us j)) = jos j" for env us j
  proof (induction us arbitrary: env j)
    case (Cons u us)
    then show ?case
      using tx_rest(1) [of env "insertUploadTx env j u" j] by (simp add: Let_def case_prod_beta)
  qed simp
  show ?thesis
    using tx_rest(1) [of env "insert_all env j us" j]
    by (simp add: commitBatch_def each Let_def case_prod_beta split: option.split sum.split)
qed

lemma Commit_ok:
  assumes "Commit env j u = (Inr v, j')"
  obtains r where "row_of (jdb j') (u_ID u) = Some r" "stored_as u r" "jos j' = jos j"
proof -
  obtain j1 where b: "commitBatch env j [u] = ([None], j1)"
      and j': "j' = releaseStagedObject j1 (u_StagingID u) (u_BlobPath u)"
    using assms by (auto simp: Commit_def split: if_splits prod.splits list.splits option.splits)
  have "verdict_ok (jdb j) (jdb j1) u None" using Commit_verdicts(1) [OF b] by simp
  moreover have "jos j' = jos j"
    using commitBatch_jos [of env j "[u]"] b j' by (simp add: releaseStagedObject_def split: option.split)
  ultimately show ?thesis using that j' by (auto simp: verdict_ok_def)
qed

text \<open>
  C15. A staged object survives until its row owns it, and then because its row owns it. Once
  \<open>CommitStaging\<close> has returned the object, no collection, of any path and under any faults, can
  take it before the upload is committed or after: when \<open>Commit\<close> succeeds, the new row's payload
  is the staged inode with the staged bytes, and stays so through all later collections.
\<close>

theorem staged_object_survives:
  assumes "CommitStaging env j s h = (Inr dst, s', j1)" and "kinds_agree (jos j)"
    and "filepath_abs (jos j) (sg_Path s) = Some a" and "map_of (os_names (jos j)) a = Some (i, KReg)"
    and "u_BlobPath u = dst" and "Commit env2 (collections gs j1) u = (Inr v, j2)"
  shows "\<exists>r. row_of (jdb j2) (u_ID u) = Some r \<and> r_blob_path r = dst \<and>
    payload (jos (collections gs2 j2)) r = Some ((i, KReg), os_data (jos j) i)"
proof -
  from CommitStaging_ok [OF assms(1-4)] obtain b where b: "jabs j dst = Some b"
    "map_of (os_names (jos j1)) b = Some (i, KReg)" "os_data (jos j1) = os_data (jos j)"
    "os_cwd (jos j1) = os_cwd (jos j)" "stagedRefs j1 b = Suc (stagedRefs j b)"
    "dst = path_join [ObjectsDir j, object_name h (sg_ID s)]" by metis
  obtain r where r: "row_of (jdb j2) (u_ID u) = Some r" "stored_as u r" "jos j2 = jos (collections gs j1)"
    using Commit_ok [OF assms(6)] by metis
  have "ObjectsDir j \<noteq> []" unfolding ObjectsDir_def by (rule path_join_nonempty [of "''objects''"]) simp_all
  then have dst: "dst \<noteq> []" unfolding b(6) by (rule path_join_nonempty) simp
  have blob: "r_blob_path r = dst" using r(2) assms(5) by (simp add: stored_as_def)
  have name: "map_of (os_names (jos j2)) b = Some (i, KReg)"
    using collections_staged [of j1 b gs] b(2,5) r(3) by simp
  have "filepath_abs (jos j2) dst = Some b"
    using b(1,4) r(3) by (simp add: jabs_def filepath_abs_def)
  then have "payload (jos j2) r = Some ((i, KReg), os_data (jos j) i)"
    using b(3) r(3) blob follow_regular [OF name] by (simp add: payload_def resolve_def)
  moreover have "r \<in> set (uploads (jdb j2))" using row_of_SomeD [OF r(1)] by simp
  ultimately show ?thesis using collections_payload [of r j2 gs2] r(1) blob dst by simp
qed

theorem staged_object_survives_witness:
  "\<exists>s' j1 j2 r dst. CommitStaging sample_env (sample_journal [])
       ((newStagingState 5 ''x'' ''/j/objects/a'' [])) (Map.empty(HashSHA1 \<mapsto> ''ab'')) = (Inr dst, s', j1) \<and>
     Commit sample_env (collections [(sample_env, dst)] j1) (sample_upload ''u'' dst) = (Inr (), j2) \<and>
     row_of (jdb j2) ''u'' = Some r \<and> payload (jos (collections [(sample_env, dst)] j2)) r = Some ((5, KReg), [])"
proof -
  let ?j = "sample_journal []" and ?s = "newStagingState 5 ''x'' ''/j/objects/a'' []"
  let ?h = "Map.empty(HashSHA1 \<mapsto> ''ab'')" and ?dst = "''/j/objects/sha1-ab''"
  let ?c = "CommitStaging sample_env ?j ?s ?h"
  have "fst ?c = Inr ?dst" by code_simp
  then obtain s' j1 where c: "?c = (Inr ?dst, s', j1)" by (metis prod_cases3 fst_conv)
  have "\<not> isl (fst (Commit sample_env (collections [(sample_env, ?dst)] (snd (snd ?c))) (sample_upload ''u'' ?dst)))"
    by code_simp
  then obtain j2 where k: "Commit sample_env (collections [(sample_env, ?dst)] j1) (sample_upload ''u'' ?dst) = (Inr (), j2)"
    using c by (cases "Commit sample_env (collections [(sample_env, ?dst)] j1) (sample_upload ''u'' ?dst)";
      cases "fst (Commit sample_env (collections [(sample_env, ?dst)] j1) (sample_upload ''u'' ?dst))") auto
  have agree: "kinds_agree (jos ?j)" by code_simp
  have abs: "filepath_abs (jos ?j) (sg_Path ?s) = Some ''/j/objects/a''" by code_simp
  have node: "map_of (os_names (jos ?j)) ''/j/objects/a'' = Some (5, KReg)" by code_simp
  have up: "u_BlobPath (sample_upload ''u'' ?dst) = ?dst" "u_ID (sample_upload ''u'' ?dst) = ''u''"
    by (simp_all add: sample_upload_def)
  have "os_data (jos ?j) 5 = []" by code_simp
  then show ?thesis
    using staged_object_survives [OF c agree abs node up(1) k, of "[(sample_env, ?dst)]"] c k up(2) by auto
qed

end
