(* ===== verification/CopyJobs.thy ===== *)
theory CopyJobs
  imports StagingProps Paging
begin

text \<open>
  Copies between remotes: \<open>copy.go\<close>, \<open>copy_cleanup.go\<close>, \<open>server_copy.go\<close> and the copy half of
  \<open>list.go\<close>. A copy job prepares its bytes in a private file with durable checkpoints, and hands
  them to the upload queue in one transaction. A server-side copy is only an intent row that
  reserves its destination. JSON columns are kept as the values they encode; the tables always
  exist, as they do in every journal opened for writing.
\<close>

section \<open>Jobs and handles\<close>

record CopyJob =
  jb_ID :: string
  jb_Spec :: CopySpec
  jb_Want :: "HashType list"
  jb_State :: CopyState
  jb_Checkpoint :: int
  jb_CRC32C :: string
  jb_LastError :: string
  jb_Revision :: int

record CopyStaging =
  ch_job :: CopyJob
  ch_staging :: Staging
  ch_closed :: bool

definition canonical_path :: "string \<Rightarrow> bool" where
  "canonical_path p \<longleftrightarrow>
     has_prefix p ''/'' \<and> path_clean p = p \<and> length p \<le> 4096 \<and> CHR 0x00 \<notin> set p \<and> CHR 0x5C \<notin> set p"

definition good_identity :: "string \<Rightarrow> bool" where
  "good_identity v \<longleftrightarrow> length v \<le> 8192 \<and> CHR 0x00 \<notin> set v"

text \<open>The bounds in binary, for evaluation.\<close>

lemma canonical_path_code [code]:
  "canonical_path p \<longleftrightarrow>
     has_prefix p ''/'' \<and> path_clean p = p \<and> int (length p) \<le> 4096 \<and> CHR 0x00 \<notin> set p \<and> CHR 0x5C \<notin> set p"
  by (simp add: canonical_path_def)

lemma good_identity_code [code]: "good_identity v \<longleftrightarrow> int (length v) \<le> 8192 \<and> CHR 0x00 \<notin> set v"
  by (simp add: good_identity_def)

definition CopySpec_validate :: "CopySpec \<Rightarrow> jerr option" where
  "CopySpec_validate s =
     (if \<not> list_all canonical_path [cs_SourcePath s, cs_TargetPath s] then Some ECopySpec
      else if cs_TargetPath s = ''/'' \<or> cs_Size s < 0 \<or> cs_SourceRemote s = [] \<or> cs_SourceID s = [] \<or>
          cs_TargetRemote s = [] \<or> cs_TargetParentID s = [] then Some ECopySpec
      else if cs_Mode s \<noteq> ''writeback'' \<and> cs_Mode s \<noteq> ''strict'' then Some ECopySpec
      else if (cs_SourceAccountBinding s = []) \<noteq> (cs_TargetAccountBinding s = []) then Some ECopySpec
      else if cs_SourceAccountBinding s \<noteq> [] \<and>
          (cs_MetaIdentity s = [] \<or> cs_SourceMount s = [] \<or> cs_SourceRootID s = [] \<or>
           cs_TargetMount s = [] \<or> cs_TargetRootID s = []) then Some ECopySpec
      else if \<not> list_all good_identity
          [cs_MetaIdentity s, cs_SourceMount s, cs_SourceRootID s, cs_SourceAccountBinding s,
           cs_TargetMount s, cs_TargetRootID s, cs_TargetAccountBinding s, cs_SourceRemote s, cs_SourceID s,
           cs_SourceVersion s, cs_TargetRemote s, cs_TargetParentID s] then Some ECopySpec
      else None)"

definition claimCopy :: "Journal \<Rightarrow> string \<Rightarrow> jerr option \<times> Journal" where
  "claimCopy j uid =
     (if \<not> owner j then (Some ENotOwner, j)
      else if uid \<in> copyOpen j then (Some ErrCopyBusy, j)
      else (None, j\<lparr>copyOpen := insert uid (copyOpen j)\<rparr>))"

definition releaseCopy :: "Journal \<Rightarrow> string \<Rightarrow> Journal" where
  "releaseCopy j uid = j\<lparr>copyOpen := copyOpen j - {uid}\<rparr>"

definition copy_of :: "jdb \<Rightarrow> string \<Rightarrow> copy_row option" where
  "copy_of d uid = sel_one (\<lambda>c. cj_id c = uid) (copy_jobs d)"

definition copy_row_of :: "CopyJob \<Rightarrow> copy_row" where
  "copy_row_of job =
     \<lparr>cj_id = jb_ID job, cj_spec = jb_Spec job, cj_want = jb_Want job, cj_state = jb_State job,
      cj_revision = 0, cj_checkpoint = jb_Checkpoint job, cj_crc32c = jb_CRC32C job,
      cj_target_remote = cs_TargetRemote (jb_Spec job), cj_target_parent = cs_TargetParentID (jb_Spec job),
      cj_target_name = path_base (cs_TargetPath (jb_Spec job)), cj_last_error = []\<rparr>"

text \<open>
  The primary key and the partial unique index on the destinations of active jobs: would a row with
  this id, or an active row with this destination, violate them next to the other rows?
\<close>

definition dest_taken :: "jdb \<Rightarrow> string \<Rightarrow> string \<times> string \<times> string \<Rightarrow> bool" where
  "dest_taken d uid dest \<longleftrightarrow>
     (\<exists>c \<in> set (copy_jobs d). cj_id c \<noteq> uid \<and> copy_active c \<and> copy_dest c = dest)"

definition insertCopy :: "env \<Rightarrow> Journal \<Rightarrow> CopyJob \<Rightarrow> (jerr + unit) \<times> Journal" where
  "insertCopy env j job =
     tx env (\<lambda>d.
       let r = copy_row_of job in
       if copy_of d (cj_id r) \<noteq> None \<or> copy_active r \<and> dest_taken d (cj_id r) (copy_dest r) then Inl ErrCopyBusy
       else Inr ((), d\<lparr>copy_jobs := copy_jobs d @ [r]\<rparr>)) j"

definition syncCopy :: "env \<Rightarrow> Journal \<Rightarrow> Staging \<Rightarrow> jerr option" where
  "syncCopy env j s =
     (if durability j = DurabilityCrash then None
      else if \<not> sg_open s then Some EClosed
      else if osfail env CSync (sg_Path s) then Some (EOs EIO)
      else
        (case os_open env (jos j) (path_dir (sg_Path s)) of
           Inl e \<Rightarrow> Some (EOs e)
         | Inr _ \<Rightarrow>
             if osfail env CSync (path_dir (sg_Path s)) then Some (EOs EIO)
             else
               (case os_open env (jos j) (jdir j) of
                  Inl e \<Rightarrow> Some (EOs e)
                | Inr _ \<Rightarrow> if osfail env CSync (jdir j) then Some (EOs EIO) else None)))"

text \<open>Give up: discard the staging file and report the error.\<close>

definition give_up :: "env \<Rightarrow> Journal \<Rightarrow> Staging \<Rightarrow> jerr \<Rightarrow> (jerr + 'a) \<times> Journal" where
  "give_up env j s e = (Inl e, snd (snd (Discard env j s)))"

text \<open>
  The common end of \<open>BeginCopy\<close> and \<open>BeginCopyFromWhole\<close>: sync, claim, insert.
\<close>

definition publish_copy :: "env \<Rightarrow> Journal \<Rightarrow> Staging \<Rightarrow> CopyJob \<Rightarrow> (jerr + CopyStaging) \<times> Journal" where
  "publish_copy env j s job =
     (case syncCopy env j s of
        Some e \<Rightarrow> give_up env j s e
      | None \<Rightarrow>
          (case claimCopy j (sg_ID s) of
             (Some e, _) \<Rightarrow> give_up env j s e
           | (None, j1) \<Rightarrow>
               (case insertCopy env j1 job of
                  (Inl e, j2) \<Rightarrow> give_up env (releaseCopy j2 (sg_ID s)) s e
                | (Inr _, j2) \<Rightarrow> (Inr \<lparr>ch_job = job, ch_staging = s, ch_closed = False\<rparr>, j2))))"

definition BeginCopy ::
  "env \<Rightarrow> string \<Rightarrow> Journal \<Rightarrow> CopySpec \<Rightarrow> HashType list \<Rightarrow> (jerr + CopyStaging) \<times> Journal" where
  "BeginCopy env uid j spec want =
     (if \<not> owner j then (Inl ENotOwner, j)
      else
        (case CopySpec_validate spec of
           Some e \<Rightarrow> (Inl e, j)
         | None \<Rightarrow>
             if ctx_err env then (Inl ECtx, j)
             else
               (case NewStaging env uid j (withCRC want) of
                  (Inl e, j1) \<Rightarrow> (Inl e, j1)
                | (Inr s, j1) \<Rightarrow>
                    (case copyPath env j1 (sg_ID s) of
                       Inl e \<Rightarrow> give_up env j1 s e
                     | Inr p \<Rightarrow>
                         (case os_rename env (jos j1) (sg_Path s) p of
                            (Some e, _) \<Rightarrow> give_up env j1 s (EOs e)
                          | (None, fs) \<Rightarrow>
                              publish_copy env (j1\<lparr>jos := fs\<rparr>) (s\<lparr>sg_Path := p\<rparr>)
                                \<lparr>jb_ID = sg_ID s, jb_Spec = spec, jb_Want = withCRC want,
                                 jb_State = CopyPreparing, jb_Checkpoint = 0, jb_CRC32C = ''00000000'',
                                 jb_LastError = [], jb_Revision = 0\<rparr>)))))"

text \<open>\<open>uid1\<close> names the link in the staging directory, \<open>uid2\<close> is the new job's id.\<close>

definition BeginCopyFromWhole ::
  "env \<Rightarrow> string \<Rightarrow> string \<Rightarrow> Journal \<Rightarrow> CopySpec \<Rightarrow> fnode \<Rightarrow> string \<Rightarrow> HashType list \<Rightarrow>
   (jerr + CopyStaging) \<times> Journal" where
  "BeginCopyFromWhole env uid1 uid2 j spec src name want =
     (if \<not> owner j then (Inl ENotOwner, j)
      else
        (case CopySpec_validate spec of
           Some e \<Rightarrow> (Inl e, j)
         | None \<Rightarrow>
             if ctx_err env then (Inl ECtx, j)
             else
               (case LinkStaging env uid1 j src name (withCRC want) of
                  (Inl e, j1) \<Rightarrow> (Inl e, j1)
                | (Inr s, j1) \<Rightarrow>
                    if sg_size s \<noteq> cs_Size spec then give_up env j1 s ECopySize
                    else
                      (case copyPath env j1 uid2 of
                         Inl e \<Rightarrow> give_up env j1 s e
                       | Inr p \<Rightarrow>
                           (case os_rename env (jos j1) (sg_Path s) p of
                              (Some e, _) \<Rightarrow> give_up env j1 s (EOs e)
                            | (None, fs) \<Rightarrow>
                                (let s2 = s\<lparr>sg_ID := uid2, sg_Path := p\<rparr>; j2 = j1\<lparr>jos := fs\<rparr> in
                                 case Staging_Hashes env fs s2 of
                                   Inl e \<Rightarrow> give_up env j2 s2 e
                                 | Inr hashes \<Rightarrow>
                                     publish_copy env j2 s2
                                       \<lparr>jb_ID = uid2, jb_Spec = spec, jb_Want = withCRC want,
                                        jb_State = CopyReady, jb_Checkpoint = cs_Size spec,
                                        jb_CRC32C = (case hashes HashCRC32C of None \<Rightarrow> [] | Some v \<Rightarrow> v),
                                        jb_LastError = [], jb_Revision = 0\<rparr>))))))"

section \<open>Reading jobs\<close>

definition lower_hex8 :: "string \<Rightarrow> bool" where
  "lower_hex8 s \<longleftrightarrow> length s = 8 \<and> list_all (\<lambda>c. c \<in> set ''0123456789abcdef'') s"

definition scanCopy :: "CopyJob \<Rightarrow> jerr + CopyJob" where
  "scanCopy c =
     (case CopySpec_validate (jb_Spec c) of
        Some e \<Rightarrow> Inl e
      | None \<Rightarrow>
          if jb_Checkpoint c < 0 \<or> jb_Checkpoint c > cs_Size (jb_Spec c) then Inl ErrCopyCorrupt
          else if (jb_State c = CopyReady \<or> jb_State c = CopySubmitted) \<and> jb_Checkpoint c \<noteq> cs_Size (jb_Spec c)
          then Inl ErrCopyCorrupt
          else if \<not> lower_hex8 (jb_CRC32C c) then Inl ErrCopyCorrupt
          else Inr c)"

definition job_of_row :: "copy_row \<Rightarrow> CopyJob" where
  "job_of_row c =
     \<lparr>jb_ID = cj_id c, jb_Spec = cj_spec c, jb_Want = cj_want c, jb_State = cj_state c,
      jb_Checkpoint = cj_checkpoint c, jb_CRC32C = cj_crc32c c, jb_LastError = cj_last_error c,
      jb_Revision = cj_revision c\<rparr>"

definition job_of_cleanup :: "copy_cleanup_row \<Rightarrow> CopyJob" where
  "job_of_cleanup c =
     \<lparr>jb_ID = cc_id c, jb_Spec = cc_spec c, jb_Want = cc_want c, jb_State = CopyPurging,
      jb_Checkpoint = cc_checkpoint c, jb_CRC32C = cc_crc32c c, jb_LastError = [],
      jb_Revision = cc_revision c\<rparr>"

definition copyRowsSQL :: "jdb \<Rightarrow> CopyJob list" where
  "copyRowsSQL d = map job_of_row (copy_jobs d) @ map job_of_cleanup (copy_cleanup d)"

text \<open>
  The three statements of a read: does the table exist, which union to use, and the query.
\<close>

definition copy_query :: "env \<Rightarrow> (jdb \<Rightarrow> jerr + 'a) \<Rightarrow> Journal \<Rightarrow> jerr + 'a" where
  "copy_query env q j =
     (if dbf env 0 \<noteq> DBOk \<or> dbf env 1 \<noteq> DBOk then Inl EDb else dbq (after 2 env) q j)"

definition GetCopy :: "env \<Rightarrow> Journal \<Rightarrow> string \<Rightarrow> jerr + CopyJob" where
  "GetCopy env j uid =
     (case copyPath env j uid of
        Inl e \<Rightarrow> Inl e
      | Inr _ \<Rightarrow>
          copy_query env (\<lambda>d.
            case sel_one (\<lambda>c. jb_ID c = uid) (copyRowsSQL d) of
              None \<Rightarrow> Inl JErrNotFound | Some c \<Rightarrow> scanCopy c) j)"

fun scan_rows :: "env \<Rightarrow> Journal \<Rightarrow> CopyJob list \<Rightarrow> jerr + CopyJob list" where
  "scan_rows env j [] = Inr []"
| "scan_rows env j (c # cs) =
     (case scanCopy c of
        Inl e \<Rightarrow> Inl e
      | Inr c' \<Rightarrow>
          (case copyPath env j (jb_ID c') of
             Inl e \<Rightarrow> Inl e
           | Inr _ \<Rightarrow> (case scan_rows env j cs of Inl e \<Rightarrow> Inl e | Inr out \<Rightarrow> Inr (c' # out))))"

definition CopyJobs_all :: "env \<Rightarrow> Journal \<Rightarrow> jerr + CopyJob list" where
  "CopyJobs_all env j = copy_query env (\<lambda>d. scan_rows env j (sort_key jb_ID (copyRowsSQL d))) j"

definition ListCopyJobs :: "env \<Rightarrow> Journal \<Rightarrow> string \<Rightarrow> int \<Rightarrow> jerr + (CopyJob list \<times> string)" where
  "ListCopyJobs env j cursor limit =
     (if limit < 1 \<or> limit > 1000 then Inl ELimit
      else
        (case (if cursor = [] then Inr [] else copyPath env j cursor) of
           Inl e \<Rightarrow> Inl e
         | Inr _ \<Rightarrow>
             (case copy_query env (\<lambda>d. scan_rows env j
                     (take (nat limit + 1) (sort_key jb_ID (sel_where (\<lambda>c. cursor < jb_ID c) (copyRowsSQL d))))) j of
                Inl e \<Rightarrow> Inl e
              | Inr out \<Rightarrow>
                  if length out > nat limit then Inr (take (nat limit) out, jb_ID (out ! (nat limit - 1)))
                  else Inr (out, []))))"

section \<open>Preparation\<close>

definition Job :: "CopyStaging \<Rightarrow> CopyJob" where
  "Job c = ch_job c"

definition PayloadPath :: "CopyStaging \<Rightarrow> jerr + string" where
  "PayloadPath c =
     (if ch_closed c \<or> jb_State (ch_job c) \<noteq> CopyReady then Inl ECopyHandle
      else Inr (sg_Path (ch_staging c)))"

definition Copy_Write ::
  "env \<Rightarrow> nat option \<Rightarrow> byte list \<Rightarrow> CopyStaging \<Rightarrow> Journal \<Rightarrow> (nat \<times> jerr option) \<times> CopyStaging \<times> Journal" where
  "Copy_Write env short p c j =
     (if ch_closed c \<or> jb_State (ch_job c) \<noteq> CopyPreparing then ((0, Some ECopyHandle), c, j)
      else
        (let off = sg_size (ch_staging c) in
         if int (length p) > cs_Size (jb_Spec (ch_job c)) - off then ((0, Some ECopySize), c, j)
         else
           (let (r, s, fs) = WriteAt env short p off (ch_staging c) (jos j) in
            (r, c\<lparr>ch_staging := s\<rparr>, j\<lparr>jos := fs\<rparr>))))"

text \<open>\<open>UPDATE copy_jobs SET .. WHERE id=? AND ..\<close>, which must hit exactly one row.\<close>

definition upd_copy ::
  "string \<Rightarrow> (copy_row \<Rightarrow> bool) \<Rightarrow> (copy_row \<Rightarrow> copy_row) \<Rightarrow> jdb \<Rightarrow> jerr + (unit \<times> jdb)" where
  "upd_copy uid P f d =
     (if cnt_where (\<lambda>c. cj_id c = uid \<and> P c) (copy_jobs d) \<noteq> 1 then Inl ErrCopyState
      else Inr ((), d\<lparr>copy_jobs := upd_where (\<lambda>c. cj_id c = uid \<and> P c) f (copy_jobs d)\<rparr>))"

definition checkpoint :: "env \<Rightarrow> Journal \<Rightarrow> CopyStaging \<Rightarrow> jerr option \<times> CopyStaging \<times> Journal" where
  "checkpoint env j c =
     (if ch_closed c \<or> jb_State (ch_job c) \<noteq> CopyPreparing then (Some ECopyHandle, c, j)
      else if ctx_err env then (Some ECtx, c, j)
      else
        (case Staging_Hashes env (jos j) (ch_staging c) of
           Inl e \<Rightarrow> (Some e, c, j)
         | Inr hashes \<Rightarrow>
             (case syncCopy env j (ch_staging c) of
                Some e \<Rightarrow> (Some e, c, j)
              | None \<Rightarrow>
                  (let off = sg_size (ch_staging c);
                       crc = (case hashes HashCRC32C of None \<Rightarrow> [] | Some v \<Rightarrow> v);
                       st = (if off = cs_Size (jb_Spec (ch_job c)) then CopyReady else CopyPreparing) in
                   case tx env (upd_copy (jb_ID (ch_job c)) (\<lambda>r. cj_state r = CopyPreparing)
                       (\<lambda>r. r\<lparr>cj_checkpoint := off, cj_crc32c := crc, cj_state := st\<rparr>)) j of
                     (Inl e, j') \<Rightarrow> (Some e, c, j')
                   | (Inr _, j') \<Rightarrow>
                       (None,
                        c\<lparr>ch_job := (ch_job c)\<lparr>jb_Checkpoint := off, jb_CRC32C := crc, jb_State := st\<rparr>\<rparr>, j')))))"

definition Copy_Close :: "env \<Rightarrow> Journal \<Rightarrow> CopyStaging \<Rightarrow> jerr option \<times> CopyStaging \<times> Journal" where
  "Copy_Close env j c =
     (if ch_closed c then (None, c, j)
      else
        (let s = ch_staging c;
             err = (if \<not> sg_open s then Some EClosed
                    else if osfail env CClose (sg_Path s) then Some (EOs EIO) else None) in
         (err, c\<lparr>ch_closed := True, ch_staging := s\<lparr>sg_open := False\<rparr>\<rparr>, releaseCopy j (jb_ID (ch_job c)))))"

section \<open>Reopening\<close>

datatype copyOpenMode = copyResume | copyRetry | copyInspect

text \<open>The state in which a job may be opened, and the one its handle gets.\<close>

definition open_state :: "copyOpenMode \<Rightarrow> CopyJob \<Rightarrow> jerr + CopyJob" where
  "open_state mode job =
     (case mode of
        copyRetry \<Rightarrow>
          if jb_State job \<noteq> CopyFailed \<and> jb_State job \<noteq> CopyCancelled then Inl ErrCopyState
          else Inr (job\<lparr>jb_State := if jb_Checkpoint job = cs_Size (jb_Spec job) then CopyReady else CopyPreparing\<rparr>)
      | copyInspect \<Rightarrow>
          if jb_Checkpoint job \<noteq> cs_Size (jb_Spec job) \<or>
             jb_State job \<noteq> CopyReady \<and> jb_State job \<noteq> CopyFailed \<and> jb_State job \<noteq> CopyCancelled
          then Inl ErrCopyState
          else Inr (job\<lparr>jb_State := CopyReady\<rparr>)
      | copyResume \<Rightarrow>
          if jb_State job = CopyCancelled then Inl ErrCopyCancelled
          else if jb_State job \<noteq> CopyPreparing \<and> jb_State job \<noteq> CopyReady then Inl ErrCopyState
          else Inr job)"

text \<open>
  The loop that rebuilds the running hashes from the checkpointed prefix; \<open>io.ReadFull\<close> fails on a
  short read.
\<close>

function prefix_loop :: "byte list \<Rightarrow> nat \<Rightarrow> nat \<Rightarrow> running \<Rightarrow> running \<Rightarrow> (running \<times> running) option" where
  "prefix_loop data cp off full pre =
     (if off < cp then
        (let want = min hash_buf (cp - off); chunk = take want (drop off data) in
         if length chunk < want then None
         else prefix_loop data cp (off + length chunk) (feed_full chunk full) (feed_prefix off chunk pre))
      else Some (full, pre))"
  by pat_completeness auto
termination
  by (relation "measure (\<lambda>(data, cp, off, full, pre). cp - off)") (auto simp: hash_buf_def)

declare prefix_loop.simps [simp del]

text \<open>
  Validate the file of a job against its checkpoint, rebuild the staging state and cut off an
  uncheckpointed tail.
\<close>

definition verify_copy :: "env \<Rightarrow> Journal \<Rightarrow> string \<Rightarrow> CopyJob \<Rightarrow> (jerr + Staging) \<times> Journal" where
  "verify_copy env j p job =
     (case os_lstat env (jos j) p of
        Inl e \<Rightarrow> (Inl ErrCopyCorrupt, j)
      | Inr named \<Rightarrow>
          if \<not> is_regular named then (Inl ErrCopyCorrupt, j)
          else
            (case os_open env (jos j) p of
               Inl e \<Rightarrow> (Inl (EOs e), j)
             | Inr f \<Rightarrow>
                 (let data = os_data (jos j) f; cp = jb_Checkpoint job in
                  if osfail env CStat p \<or> fi_ino named \<noteq> f \<or> int (length data) < cp then (Inl ErrCopyCorrupt, j)
                  else
                    (let s = newStagingState f (jb_ID job) p (jb_Want job) in
                     if cp > 0 \<and> ctx_err env then (Inl ECtx, j)
                     else if cp > 0 \<and> osfail env CRead p then (Inl ErrCopyCorrupt, j)
                     else
                       (case prefix_loop data (nat cp) 0 (sg_full s) (sg_prefix s) of
                          None \<Rightarrow> (Inl ErrCopyCorrupt, j)
                        | Some (full, pre) \<Rightarrow>
                            if map_option (digest env HashCRC32C) (full HashCRC32C) \<noteq> Some (jb_CRC32C job)
                            then (Inl ErrCopyCorrupt, j)
                            else if int (length data) \<noteq> cp \<and> jb_State job = CopyReady then (Inl ErrCopyCorrupt, j)
                            else if int (length data) \<noteq> cp \<and> osfail env CTruncate p then (Inl (EOs EIO), j)
                            else
                              (Inr (s\<lparr>sg_full := full, sg_prefix := pre, sg_size := cp, sg_pos := cp,
                                      sg_immutable := (jb_State job = CopyReady)\<rparr>),
                               j\<lparr>jos := set_data f (take (nat cp) data) (jos j)\<rparr>))))))"

text \<open>Everything of \<open>openCopy\<close> that comes before the transaction of a retry.\<close>

definition open_prepare ::
  "env \<Rightarrow> Journal \<Rightarrow> string \<Rightarrow> copyOpenMode \<Rightarrow> (jerr + (CopyJob \<times> Staging)) \<times> Journal" where
  "open_prepare env j uid mode =
     (case claimCopy j uid of
        (Some e, j1) \<Rightarrow> (Inl e, j1)
      | (None, j1) \<Rightarrow>
          (let failed = (\<lambda>e j2. (Inl e, releaseCopy j2 uid)) in
           case GetCopy env j1 uid of
             Inl e \<Rightarrow> failed e j1
           | Inr found \<Rightarrow>
               (case open_state mode found of
                  Inl e \<Rightarrow> failed e j1
                | Inr job \<Rightarrow>
                    (case copyPath env j1 uid of
                       Inl e \<Rightarrow> failed e j1
                     | Inr p \<Rightarrow>
                         (case verify_copy env j1 p job of
                            (Inl e, j2) \<Rightarrow> failed e j2
                          | (Inr s, j2) \<Rightarrow> (Inr (job, s), j2))))))"

text \<open>
  The transaction of a retry, against the journal as it then is: other calls may have come between.
\<close>

definition retry_tx :: "CopyJob \<Rightarrow> jdb \<Rightarrow> jerr + (unit \<times> jdb)" where
  "retry_tx job d =
     (let hit = (\<lambda>c. (cj_state c = CopyFailed \<or> cj_state c = CopyCancelled) \<and> cj_revision c = jb_Revision job) in
      if (\<exists>c \<in> set (copy_jobs d). cj_id c = jb_ID job \<and> hit c \<and> dest_taken d (jb_ID job) (copy_dest c))
      then Inl ErrCopyBusy
      else upd_copy (jb_ID job) hit
             (\<lambda>c. c\<lparr>cj_state := jb_State job, cj_last_error := [], cj_revision := cj_revision c + 1\<rparr>) d)"

definition open_finish ::
  "env \<Rightarrow> Journal \<Rightarrow> copyOpenMode \<Rightarrow> CopyJob \<Rightarrow> Staging \<Rightarrow> (jerr + CopyStaging) \<times> Journal" where
  "open_finish env j mode job s =
     (if mode \<noteq> copyRetry then (Inr \<lparr>ch_job = job, ch_staging = s, ch_closed = False\<rparr>, j)
      else
        (case tx env (retry_tx job) j of
           (Inl e, j') \<Rightarrow> (Inl e, releaseCopy j' (jb_ID job))
         | (Inr _, j') \<Rightarrow>
             (Inr \<lparr>ch_job = job\<lparr>jb_Revision := jb_Revision job + 1\<rparr>, ch_staging = s, ch_closed = False\<rparr>, j')))"

definition openCopy :: "env \<Rightarrow> Journal \<Rightarrow> string \<Rightarrow> copyOpenMode \<Rightarrow> (jerr + CopyStaging) \<times> Journal" where
  "openCopy env j uid mode =
     (case open_prepare env j uid mode of
        (Inl e, j1) \<Rightarrow> (Inl e, j1)
      | (Inr (job, s), j1) \<Rightarrow> open_finish (after 3 env) j1 mode job s)"

definition ResumeCopy :: "env \<Rightarrow> Journal \<Rightarrow> string \<Rightarrow> (jerr + CopyStaging) \<times> Journal" where
  "ResumeCopy env j uid = openCopy env j uid copyResume"

definition RetryCopy :: "env \<Rightarrow> Journal \<Rightarrow> string \<Rightarrow> (jerr + unit) \<times> Journal" where
  "RetryCopy env j uid =
     (case openCopy env j uid copyRetry of
        (Inl e, j1) \<Rightarrow> (Inl e, j1)
      | (Inr c, j1) \<Rightarrow>
          (let (err, _, j2) = Copy_Close env j1 c in (case err of None \<Rightarrow> Inr () | Some e \<Rightarrow> Inl e, j2)))"

text \<open>The caller's \<open>install\<close> gets the path and the size.\<close>

definition WithReadyCopy ::
  "env \<Rightarrow> Journal \<Rightarrow> string \<Rightarrow> (string \<Rightarrow> int \<Rightarrow> Journal \<Rightarrow> jerr option \<times> Journal) \<Rightarrow> (jerr + unit) \<times> Journal" where
  "WithReadyCopy env j uid install =
     (case openCopy env j uid copyInspect of
        (Inl e, j1) \<Rightarrow> (Inl e, j1)
      | (Inr c, j1) \<Rightarrow>
          (let (err, j2) = (case PayloadPath c of
                 Inl e \<Rightarrow> (Some e, j1) | Inr p \<Rightarrow> install p (cs_Size (jb_Spec (ch_job c))) j1);
               (_, _, j3) = Copy_Close env j2 c in
           (case err of None \<Rightarrow> Inr () | Some e \<Rightarrow> Inl e, j3)))"

section \<open>Outcomes\<close>

definition submit_upload :: "env \<Rightarrow> CopyStaging \<Rightarrow> Hashes \<Rightarrow> Upload \<Rightarrow> Upload" where
  "submit_upload env c hashes u =
     u\<lparr>u_ID := jb_ID (ch_job c), u_BlobPath := sg_Path (ch_staging c),
       u_Size := cs_Size (jb_Spec (ch_job c)), u_Hashes := hashes, u_State := StatePending,
       u_CreatedAt := now env, u_Attempt := 0, u_LastError := [], u_Session := Map.empty,
       u_Tombstone := False\<rparr>"

definition submit_tx :: "env \<Rightarrow> Journal \<Rightarrow> Upload \<Rightarrow> jdb \<Rightarrow> jerr + (unit \<times> jdb)" where
  "submit_tx env j u d =
     (if cnt_where (\<lambda>r. r_id r = u_ID u) (uploads d) \<noteq> 0 then Inl ECopyExists
      else
        (case upd_copy (u_ID u) (\<lambda>c. cj_state c = CopyReady) (\<lambda>c. c\<lparr>cj_state := CopySubmitted\<rparr>) d of
           Inl e \<Rightarrow> Inl e
         | Inr (_, d') \<Rightarrow> insertUploadTx env j u d'))"

definition Submit :: "env \<Rightarrow> Journal \<Rightarrow> CopyStaging \<Rightarrow> Upload \<Rightarrow> (jerr + Upload) \<times> CopyStaging \<times> Journal" where
  "Submit env j c u =
     (if ch_closed c \<or> jb_State (ch_job c) \<noteq> CopyReady then (Inl ECopyHandle, c, j)
      else if u_Remote u \<noteq> cs_TargetRemote (jb_Spec (ch_job c)) \<or>
          u_RemoteParentID u \<noteq> cs_TargetParentID (jb_Spec (ch_job c)) \<or>
          u_Name u \<noteq> path_base (cs_TargetPath (jb_Spec (ch_job c))) then (Inl ECopyTarget, c, j)
      else
        (case Staging_Hashes env (jos j) (ch_staging c) of
           Inl e \<Rightarrow> (Inl e, c, j)
         | Inr hashes \<Rightarrow>
             (case syncCopy env j (ch_staging c) of
                Some e \<Rightarrow> (Inl e, c, j)
              | None \<Rightarrow>
                  (let u' = submit_upload env c hashes u in
                   case tx env (submit_tx env j u') j of
                     (Inl e, j') \<Rightarrow> (Inl e, c, j')
                   | (Inr _, j') \<Rightarrow>
                       (Inr u', c\<lparr>ch_job := (ch_job c)\<lparr>jb_State := CopySubmitted\<rparr>\<rparr>, j')))))"

definition fail_copy_tx :: "string \<Rightarrow> string \<Rightarrow> jdb \<Rightarrow> jerr + (unit \<times> jdb)" where
  "fail_copy_tx uid reason d =
     (case copy_of d uid of
        None \<Rightarrow> Inl JErrNotFound
      | Some c \<Rightarrow>
          if cj_state c = CopyCancelled then Inr ((), d)
          else upd_copy uid (\<lambda>c. cj_state c \<in> {CopyPreparing, CopyReady, CopyFailed})
                 (\<lambda>c. c\<lparr>cj_state := CopyFailed, cj_last_error := reason\<rparr>) d)"

text \<open>\<open>defer j.releaseCopy(id)\<close> around a claimed call.\<close>

definition with_copy :: "Journal \<Rightarrow> string \<Rightarrow> (Journal \<Rightarrow> (jerr + 'a) \<times> Journal) \<Rightarrow> (jerr + 'a) \<times> Journal" where
  "with_copy j uid body =
     (case claimCopy j uid of
        (Some e, j1) \<Rightarrow> (Inl e, j1)
      | (None, j1) \<Rightarrow> (let (r, j2) = body j1 in (r, releaseCopy j2 uid)))"

definition FailCopy :: "env \<Rightarrow> Journal \<Rightarrow> string \<Rightarrow> string \<Rightarrow> (jerr + unit) \<times> Journal" where
  "FailCopy env j uid reason = with_copy j uid (tx env (fail_copy_tx uid reason))"

definition cancel_copy_tx :: "string \<Rightarrow> jdb \<Rightarrow> jerr + (unit \<times> jdb)" where
  "cancel_copy_tx uid d =
     (case copy_of d uid of
        None \<Rightarrow> Inl JErrNotFound
      | Some c \<Rightarrow>
          if cj_state c = CopySubmitted then Inl ErrCopyState
          else Inr ((), d\<lparr>copy_jobs := upd_where (\<lambda>c. cj_id c = uid)
                 (\<lambda>c. c\<lparr>cj_state := CopyCancelled, cj_last_error := [],
                        cj_revision := cj_revision c + 1\<rparr>) (copy_jobs d)\<rparr>))"

definition CancelCopy :: "env \<Rightarrow> Journal \<Rightarrow> string \<Rightarrow> (jerr + unit) \<times> Journal" where
  "CancelCopy env j uid =
     (if \<not> owner j then (Inl ENotOwner, j)
      else (case copyPath env j uid of Inl e \<Rightarrow> (Inl e, j) | Inr _ \<Rightarrow> tx env (cancel_copy_tx uid) j))"

end
