(* ===== verification/CopyCleanup.thy ===== *)
theory CopyCleanup
  imports CopyJobs
begin

text \<open>
  The two-phase cleanup of copy jobs (\<open>copy_cleanup.go\<close>) and the intents of server-side copies
  (\<open>server_copy.go\<close>), with the lemmas that every copy operation keeps the keys and the reserved
  destinations of the tables unique.
\<close>

section \<open>Cleanup\<close>

definition copyUploadsAbsent :: "jdb \<Rightarrow> string \<Rightarrow> string \<Rightarrow> jerr option" where
  "copyUploadsAbsent d uid p =
     (if cnt_where (\<lambda>r. r_id r = uid \<or> r_blob_path r = p) (uploads d) \<noteq> 0 then Some ErrCopyReferenced else None)"

definition begin_copy_cleanup_tx :: "string \<Rightarrow> string \<Rightarrow> jdb \<Rightarrow> jerr + (unit \<times> jdb)" where
  "begin_copy_cleanup_tx uid p d =
     guarded (copyUploadsAbsent d uid p)
       (if cnt_where (\<lambda>c. cc_id c = uid) (copy_cleanup d) \<noteq> 0 then Inr ((), d)
        else
          (case copy_of d uid of
             None \<Rightarrow> Inl JErrNotFound
           | Some c \<Rightarrow>
               if cj_state c \<noteq> CopyFailed \<and> cj_state c \<noteq> CopyCancelled \<and> cj_state c \<noteq> CopySubmitted
               then Inl ErrCopyState
               else
                 Inr ((), d\<lparr>copy_cleanup := copy_cleanup d @
                              [\<lparr>cc_id = cj_id c, cc_spec = cj_spec c, cc_want = cj_want c,
                                cc_checkpoint = cj_checkpoint c, cc_crc32c = cj_crc32c c,
                                cc_revision = cj_revision c\<rparr>],
                            copy_jobs := del_where (\<lambda>c. cj_id c = uid) (copy_jobs d)\<rparr>)))"

definition BeginCopyCleanup :: "env \<Rightarrow> Journal \<Rightarrow> string \<Rightarrow> (jerr + unit) \<times> Journal" where
  "BeginCopyCleanup env j uid =
     (case copyPath env j uid of
        Inl e \<Rightarrow> (Inl e, j)
      | Inr p \<Rightarrow> with_copy j uid (tx env (begin_copy_cleanup_tx uid p)))"

text \<open>The sync of the directory in power mode.\<close>

definition copy_dir_sync :: "env \<Rightarrow> Durability \<Rightarrow> string \<Rightarrow> osfs \<Rightarrow> jerr option" where
  "copy_dir_sync env dur dir fs =
     (if dur \<noteq> DurabilityPower then None
      else
        (case os_open env fs dir of
           Inl e \<Rightarrow> Some (EOs e)
         | Inr _ \<Rightarrow> if osfail env CSync dir \<or> osfail env CClose dir then Some (EOs EIO) else None))"

text \<open>The removal of the job's private name; a name that is already gone is fine.\<close>

definition copy_unlink :: "env \<Rightarrow> Durability \<Rightarrow> string \<Rightarrow> osfs \<Rightarrow> jerr option \<times> osfs" where
  "copy_unlink env dur p fs =
     (let dir = path_dir p in
      case os_lstat env fs dir of
        Inl e \<Rightarrow> (Some (EOs e), fs)
      | Inr info \<Rightarrow>
          if fi_kind info \<noteq> KDir then (Some ErrCopyCorrupt, fs)
          else
            (case (case os_lstat env fs p of
                     Inl ENOENT \<Rightarrow> None
                   | Inl e \<Rightarrow> Some (EOs e)
                   | Inr named \<Rightarrow> if fi_kind named = KDir then Some ErrCopyCorrupt else None) of
               Some e \<Rightarrow> (Some e, fs)
             | None \<Rightarrow>
                 (case os_remove env fs p of
                    (Some EIO, fs') \<Rightarrow> (Some (EOs EIO), fs')
                  | (_, fs') \<Rightarrow> (copy_dir_sync env dur dir fs', fs'))))"

definition finish_copy_cleanup_tx ::
  "env \<Rightarrow> Durability \<Rightarrow> string \<Rightarrow> string \<Rightarrow> jdb \<Rightarrow> osfs \<Rightarrow> (jerr + (unit \<times> jdb)) \<times> osfs" where
  "finish_copy_cleanup_tx env dur uid p d fs =
     (if cnt_where (\<lambda>c. cc_id c = uid) (copy_cleanup d) = 0 then (Inl JErrNotFound, fs)
      else
        (case copyUploadsAbsent d uid p of
           Some e \<Rightarrow> (Inl e, fs)
         | None \<Rightarrow>
             (case copy_unlink env dur p fs of
                (Some e, fs') \<Rightarrow> (Inl e, fs')
              | (None, fs') \<Rightarrow>
                  (Inr ((), d\<lparr>copy_cleanup := del_where (\<lambda>c. cc_id c = uid) (copy_cleanup d)\<rparr>), fs'))))"

definition FinishCopyCleanup :: "env \<Rightarrow> Journal \<Rightarrow> string \<Rightarrow> (jerr + unit) \<times> Journal" where
  "FinishCopyCleanup env j uid =
     (case copyPath env j uid of
        Inl e \<Rightarrow> (Inl e, j)
      | Inr p \<Rightarrow> with_copy j uid (txf env (finish_copy_cleanup_tx env (durability j) uid p)))"

section \<open>Server-side copies\<close>

record ServerCopy =
  sy_ID :: string
  sy_Spec :: ServerCopySpec
  sy_LastError :: string

definition validServerCopySpec :: "ServerCopySpec \<Rightarrow> jerr option" where
  "validServerCopySpec spec =
     (if sv_MetaIdentity spec = [] then Some EServerSpec
      else if sv_TargetRemote spec = [] \<or> sv_TargetParentID spec = [] \<or> sv_TargetName spec = [] then Some EServerSpec
      else if sv_SourceRemote spec = [] \<or> sv_SourceID spec = [] then Some EServerSpec
      else if sv_TargetParentIno spec = 0 then Some EServerSpec
      else if sv_Size spec < 0 then Some EServerSpec
      else if sep \<in> set (sv_TargetName spec) \<or> CHR 0x00 \<in> set (sv_TargetName spec) then Some EServerSpec
      else None)"

text \<open>The new id comes from \<open>uuid.NewString\<close>; the primary key refuses one that is taken.\<close>

definition begin_server_copy_tx :: "string \<Rightarrow> ServerCopySpec \<Rightarrow> jdb \<Rightarrow> jerr + (string \<times> jdb)" where
  "begin_server_copy_tx uid spec d =
     (if cnt_where (\<lambda>c. sc_target_remote c = sv_TargetRemote spec \<and> sc_target_parent c = sv_TargetParentID spec \<and>
           sc_target_name c = sv_TargetName spec) (server_copies d) \<noteq> 0 then Inl ErrServerCopyBusy
      else if cnt_where (\<lambda>c. sc_id c = uid) (server_copies d) \<noteq> 0 then Inl EDb
      else
        Inr (uid, d\<lparr>server_copies := server_copies d @
          [\<lparr>sc_id = uid, sc_spec = spec, sc_target_remote = sv_TargetRemote spec,
            sc_target_parent = sv_TargetParentID spec, sc_target_name = sv_TargetName spec,
            sc_last_error = []\<rparr>]\<rparr>))"

definition BeginServerCopy :: "env \<Rightarrow> string \<Rightarrow> Journal \<Rightarrow> ServerCopySpec \<Rightarrow> (jerr + string) \<times> Journal" where
  "BeginServerCopy env uid j spec =
     (case validServerCopySpec spec of
        Some e \<Rightarrow> (Inl e, j)
      | None \<Rightarrow> tx env (begin_server_copy_tx uid spec) j)"

definition FinishServerCopy :: "env \<Rightarrow> Journal \<Rightarrow> string \<Rightarrow> (jerr + unit) \<times> Journal" where
  "FinishServerCopy env j uid =
     tx env (\<lambda>d. Inr ((), d\<lparr>server_copies := del_where (\<lambda>c. sc_id c = uid) (server_copies d)\<rparr>)) j"

definition NoteServerCopyError :: "env \<Rightarrow> Journal \<Rightarrow> string \<Rightarrow> string \<Rightarrow> (jerr + unit) \<times> Journal" where
  "NoteServerCopyError env j uid reason =
     tx env (\<lambda>d. Inr ((), d\<lparr>server_copies := upd_where (\<lambda>c. sc_id c = uid)
       (\<lambda>c. c\<lparr>sc_last_error := take 2048 reason\<rparr>) (server_copies d)\<rparr>)) j"

definition server_copy_of :: "server_copy_row \<Rightarrow> ServerCopy" where
  "server_copy_of c = \<lparr>sy_ID = sc_id c, sy_Spec = sc_spec c, sy_LastError = sc_last_error c\<rparr>"

definition ServerCopies :: "env \<Rightarrow> Journal \<Rightarrow> jerr + ServerCopy list" where
  "ServerCopies env j = dbq env (\<lambda>d. Inr (map server_copy_of (sort_key sc_id (server_copies d)))) j"

definition ServerCopyAt :: "env \<Rightarrow> Journal \<Rightarrow> string \<Rightarrow> string \<Rightarrow> string \<Rightarrow> jerr + ServerCopy option" where
  "ServerCopyAt env j remote parent name =
     dbq env (\<lambda>d. Inr (map_option server_copy_of (sel_one (\<lambda>c. sc_target_remote c = remote \<and>
       sc_target_parent c = parent \<and> sc_target_name c = name) (server_copies d)))) j"

section \<open>Unique keys and destinations\<close>

lemma upd_copyD:
  assumes "upd_copy uid P f d = Inr (a, d')"
  shows "d' = d\<lparr>copy_jobs := upd_where (\<lambda>c. cj_id c = uid \<and> P c) f (copy_jobs d)\<rparr>"
    and "\<exists>c \<in> set (copy_jobs d). cj_id c = uid \<and> P c"
proof -
  show "d' = d\<lparr>copy_jobs := upd_where (\<lambda>c. cj_id c = uid \<and> P c) f (copy_jobs d)\<rparr>"
    using assms by (simp add: upd_copy_def split: if_splits)
  have "cnt_where (\<lambda>c. cj_id c = uid \<and> P c) (copy_jobs d) = 1"
    using assms by (simp add: upd_copy_def split: if_splits)
  then have "0 < cnt_where (\<lambda>c. cj_id c = uid \<and> P c) (copy_jobs d)" by simp
  then show "\<exists>c \<in> set (copy_jobs d). cj_id c = uid \<and> P c" by simp
qed

text \<open>
  An update of one job that keeps its id and destination keeps the table's keys, if the job was
  active before or its destination is free.
\<close>

definition keeps_dest :: "(copy_row \<Rightarrow> copy_row) \<Rightarrow> bool" where
  "keeps_dest f \<longleftrightarrow> (\<forall>c. cj_id (f c) = cj_id c \<and> copy_dest (f c) = copy_dest c)"

definition uniq_dests :: "copy_row list \<Rightarrow> bool" where
  "uniq_dests cs \<longleftrightarrow> (\<forall>c \<in> set cs. \<forall>c' \<in> set cs.
     copy_active c \<and> copy_active c' \<and> copy_dest c = copy_dest c' \<longrightarrow> cj_id c = cj_id c')"

lemma distinct_dests_iff:
  assumes "distinct (map cj_id cs)"
  shows "distinct (map copy_dest (filter copy_active cs)) \<longleftrightarrow> uniq_dests cs"
proof -
  have inj: "c = c'" if "c \<in> set cs" "c' \<in> set cs" "cj_id c = cj_id c'" for c c'
    using assms that by (auto simp: distinct_map dest: inj_onD)
  have "distinct cs" using assms by (simp add: distinct_map)
  then have "distinct (map copy_dest (filter copy_active cs)) \<longleftrightarrow> inj_on copy_dest (set (filter copy_active cs))"
    by (simp add: distinct_map)
  also have "\<dots> \<longleftrightarrow> uniq_dests cs"
    unfolding inj_on_def uniq_dests_def using inj by (simp; metis)
  finally show ?thesis .
qed

lemma copy_inv_iff:
  "copy_inv d \<longleftrightarrow> distinct (map cj_id (copy_jobs d)) \<and> distinct (map cc_id (copy_cleanup d)) \<and>
     uniq_dests (copy_jobs d) \<and> distinct (map sc_id (server_copies d)) \<and> distinct (map server_dest (server_copies d))"
  by (auto simp: copy_inv_def distinct_dests_iff)

lemma map_upd_where_key: "(\<And>c. k (f c) = k c) \<Longrightarrow> map k (upd_where p f rs) = map k rs"
  by (induction rs) (auto simp: upd_where_def)

lemma upd_copy_inv:
  assumes inv: "copy_inv d" and f: "keeps_dest f"
    and act: "\<And>c. c \<in> set (copy_jobs d) \<Longrightarrow> cj_id c = uid \<Longrightarrow> P c \<Longrightarrow> copy_active (f c) \<Longrightarrow>
      copy_active c \<or> \<not> dest_taken d uid (copy_dest c)"
  shows "copy_inv (d\<lparr>copy_jobs := upd_where (\<lambda>c. cj_id c = uid \<and> P c) f (copy_jobs d)\<rparr>)"
proof -
  let ?cs = "copy_jobs d" and ?p = "\<lambda>c. cj_id c = uid \<and> P c"
  have id: "cj_id (f c) = cj_id c" "copy_dest (f c) = copy_dest c" for c using f by (simp_all add: keeps_dest_def)
  have set: "set (upd_where ?p f ?cs) = (\<lambda>c. if ?p c then f c else c) ` set ?cs" by (simp add: upd_where_def)
  have U: "uniq_dests ?cs" and D: "distinct (map cj_id ?cs)" using inv by (simp_all add: copy_inv_iff)
  have "uniq_dests (upd_where ?p f ?cs)"
    unfolding uniq_dests_def
  proof (intro ballI impI)
    fix x y assume "x \<in> set (upd_where ?p f ?cs)" "y \<in> set (upd_where ?p f ?cs)"
      and act2: "copy_active x \<and> copy_active y \<and> copy_dest x = copy_dest y"
    then obtain c c' where c: "c \<in> set ?cs" "x = (if ?p c then f c else c)"
      and c': "c' \<in> set ?cs" "y = (if ?p c' then f c' else c')" unfolding set by blast
    have keys: "cj_id x = cj_id c" "cj_id y = cj_id c'" "copy_dest c = copy_dest c'"
      using c(2) c'(2) act2 id by (auto split: if_splits)
    show "cj_id x = cj_id y"
    proof (rule ccontr)
      assume ne: "cj_id x \<noteq> cj_id y"
      then consider "copy_active c" "copy_active c'" | "\<not> copy_active c" | "\<not> copy_active c'" by blast
      then show False
      proof cases
        case 1
        then show False using U c(1) c'(1) keys ne unfolding uniq_dests_def by metis
      next
        case 2
        then have "?p c" "copy_active (f c)" using c(2) act2 by (auto split: if_splits)
        then have free: "\<not> dest_taken d uid (copy_dest c)" using act c(1) 2 by blast
        have "cj_id c' \<noteq> uid" using \<open>?p c\<close> keys ne by simp
        then have "copy_active c'" using c'(2) act2 by simp
        then show False using free c'(1) keys(3) \<open>cj_id c' \<noteq> uid\<close> unfolding dest_taken_def by metis
      next
        case 3
        then have "?p c'" "copy_active (f c')" using c'(2) act2 by (auto split: if_splits)
        then have free: "\<not> dest_taken d uid (copy_dest c')" using act c'(1) 3 by blast
        have "cj_id c \<noteq> uid" using \<open>?p c'\<close> keys ne by simp
        then have "copy_active c" using c(2) act2 by simp
        then show False using free c(1) keys(3) \<open>cj_id c \<noteq> uid\<close> unfolding dest_taken_def by metis
      qed
    qed
  qed
  then show ?thesis using inv id by (simp add: copy_inv_iff map_upd_where_key)
qed

section \<open>Every operation keeps the invariant\<close>

text \<open>Calls that leave the tables alone, as destruction rules on their results.\<close>

named_theorems copy_frame

lemma copy_jobs_db_inv: "db_inv d \<Longrightarrow> copy_inv (d\<lparr>copy_jobs := cs\<rparr>) \<Longrightarrow> db_inv (d\<lparr>copy_jobs := cs\<rparr>)"
  by (simp add: db_inv_def inv_frame)

lemma upd_copy_db_inv:
  assumes "db_inv d" "keeps_dest f" "upd_copy uid P f d = Inr (a, d')"
    and "\<And>c. c \<in> set (copy_jobs d) \<Longrightarrow> cj_id c = uid \<Longrightarrow> P c \<Longrightarrow> copy_active (f c) \<Longrightarrow>
      copy_active c \<or> \<not> dest_taken d uid (copy_dest c)"
  shows "db_inv d'"
  unfolding upd_copyD(1) [OF assms(3)] using assms(1,2,4)
  by (intro copy_jobs_db_inv upd_copy_inv) (auto simp: db_inv_def)

lemma Discard_jdb [simp]: "jdb (snd (snd (Discard env j s))) = jdb j"
  by (simp add: Discard_def Let_def case_prod_beta split: option.split)

lemma give_up_jdb [simp]: "jdb (snd (give_up env j s e)) = jdb j"
  by (simp add: give_up_def)

lemma releaseCopy_jdb [simp]: "jdb (releaseCopy j uid) = jdb j"
  by (simp add: releaseCopy_def)

lemma claimCopy_jdb [simp]: "jdb (snd (claimCopy j uid)) = jdb j"
  by (simp add: claimCopy_def)

lemma claimCopy_jdb' [copy_frame]: "claimCopy j uid = (r, j') \<Longrightarrow> jdb j' = jdb j"
  using claimCopy_jdb [of j uid] by simp

lemma insertCopy_inv:
  assumes "db_inv (jdb j)"
  shows "db_inv (jdb (snd (insertCopy env j job)))"
  unfolding insertCopy_def using assms
proof (rule tx_db_inv)
  fix a d assume inv: "db_inv (jdb j)"
    and ins: "(let r = copy_row_of job in
       if copy_of (jdb j) (cj_id r) \<noteq> None \<or> copy_active r \<and> dest_taken (jdb j) (cj_id r) (copy_dest r) then Inl ErrCopyBusy
       else Inr ((), (jdb j)\<lparr>copy_jobs := copy_jobs (jdb j) @ [r]\<rparr>)) = Inr (a, d)"
  define r where "r = copy_row_of job"
  have r: "copy_of (jdb j) (cj_id r) = None" "\<not> (copy_active r \<and> dest_taken (jdb j) (cj_id r) (copy_dest r))"
      "d = (jdb j)\<lparr>copy_jobs := copy_jobs (jdb j) @ [r]\<rparr>"
    using ins unfolding Let_def r_def [symmetric] by (simp_all split: if_splits)
  have new: "cj_id r \<notin> cj_id ` set (copy_jobs (jdb j))"
    using r(1) by (auto simp: copy_of_def sel_one_None_iff)
  have old: "uniq_dests (copy_jobs (jdb j))" using inv by (simp add: db_inv_def copy_inv_iff)
  have free: "copy_dest c \<noteq> copy_dest r" if "c \<in> set (copy_jobs (jdb j))" "copy_active c" "copy_active r" for c
  proof
    assume "copy_dest c = copy_dest r"
    moreover have "cj_id c \<noteq> cj_id r" using new that(1) by (metis image_eqI)
    ultimately show False using r(2) that unfolding dest_taken_def by blast
  qed
  have "uniq_dests (copy_jobs (jdb j) @ [r])"
    unfolding uniq_dests_def
  proof (intro ballI impI)
    fix x y assume xy: "x \<in> set (copy_jobs (jdb j) @ [r])" "y \<in> set (copy_jobs (jdb j) @ [r])"
      "copy_active x \<and> copy_active y \<and> copy_dest x = copy_dest y"
    then consider "x \<in> set (copy_jobs (jdb j))" "y \<in> set (copy_jobs (jdb j))"
      | "x = r" "y = r" | "x \<in> set (copy_jobs (jdb j))" "y = r" | "x = r" "y \<in> set (copy_jobs (jdb j))"
      by auto
    then show "cj_id x = cj_id y"
    proof cases
      case 1
      then show ?thesis using old xy(3) unfolding uniq_dests_def by blast
    next
      case 3
      then show ?thesis using free [of x] xy(3) by simp
    next
      case 4
      then show ?thesis using free [of y] xy(3) by simp
    qed simp
  qed
  then have "copy_inv ((jdb j)\<lparr>copy_jobs := copy_jobs (jdb j) @ [r]\<rparr>)"
    using db_invD(3) [OF inv] new by (simp add: copy_inv_iff)
  then show "db_inv d" unfolding r(3) by (rule copy_jobs_db_inv [OF inv])
qed

lemma publish_copy_inv: "db_inv (jdb j) \<Longrightarrow> db_inv (jdb (snd (publish_copy env j s job)))"
  using insertCopy_inv [of "snd (claimCopy j (sg_ID s))" env job]
  by (auto simp: publish_copy_def case_prod_beta split: option.split sum.split)

lemma NewStaging_jdb [simp]: "jdb (snd (NewStaging env uid j want)) = jdb j"
  by (simp add: NewStaging_def Let_def split: sum.split prod.split)

lemma NewStaging_jdb' [copy_frame]: "NewStaging env uid j want = (r, j') \<Longrightarrow> jdb j' = jdb j"
  using NewStaging_jdb [of env uid j want] by simp

lemma LinkStaging_jdb [simp]: "jdb (snd (LinkStaging env uid j src name want)) = jdb j"
  by (simp add: LinkStaging_def Let_def split: sum.split prod.split option.split)

lemma LinkStaging_jdb' [copy_frame]: "LinkStaging env uid j src name want = (r, j') \<Longrightarrow> jdb j' = jdb j"
  using LinkStaging_jdb [of env uid j src name want] by simp

lemma BeginCopy_inv: "db_inv (jdb j) \<Longrightarrow> db_inv (jdb (snd (BeginCopy env uid j spec want)))"
  by (auto simp: BeginCopy_def intro!: publish_copy_inv dest!: copy_frame split: option.split prod.split sum.split)

lemma BeginCopyFromWhole_inv:
  "db_inv (jdb j) \<Longrightarrow> db_inv (jdb (snd (BeginCopyFromWhole env uid1 uid2 j spec src name want)))"
  by (auto simp: BeginCopyFromWhole_def Let_def intro!: publish_copy_inv dest!: copy_frame
    split: option.split prod.split sum.split)

lemma checkpoint_inv:
  assumes "db_inv (jdb j)"
  shows "db_inv (jdb (snd (snd (checkpoint env j c))))"
proof -
  have "db_inv (jdb (snd (tx env (upd_copy uid (\<lambda>r. cj_state r = CopyPreparing)
      (\<lambda>r. r\<lparr>cj_checkpoint := off, cj_crc32c := crc, cj_state := st\<rparr>)) j)))" for uid off crc st
    using assms
  proof (rule tx_db_inv)
    fix a d assume inv: "db_inv (jdb j)" and up: "upd_copy uid (\<lambda>r. cj_state r = CopyPreparing)
      (\<lambda>r. r\<lparr>cj_checkpoint := off, cj_crc32c := crc, cj_state := st\<rparr>) (jdb j) = Inr (a, d)"
    show "db_inv d"
      using inv by (rule upd_copy_db_inv [OF _ _ up]) (auto simp: keeps_dest_def copy_dest_def copy_active_def)
  qed
  then show ?thesis
    using assms by (auto simp: checkpoint_def Let_def case_prod_beta split: sum.split option.split)
qed

lemma verify_copy_jdb [simp]: "jdb (snd (verify_copy env j p job)) = jdb j"
  by (simp add: verify_copy_def Let_def split: sum.split prod.split option.split)

lemma open_prepare_jdb [simp]: "jdb (snd (open_prepare env j uid mode)) = jdb j"
  by (auto simp: open_prepare_def Let_def case_prod_beta split: sum.split option.split)

lemma open_prepare_jdb' [copy_frame]: "open_prepare env j uid mode = (r, j') \<Longrightarrow> jdb j' = jdb j"
  using open_prepare_jdb [of env j uid mode] by simp

lemma retry_tx_inv:
  assumes "db_inv d" "retry_tx job d = Inr (a, d')"
  shows "db_inv d'"
proof -
  let ?hit = "\<lambda>c. (cj_state c = CopyFailed \<or> cj_state c = CopyCancelled) \<and> cj_revision c = jb_Revision job"
  have free: "\<And>c. c \<in> set (copy_jobs d) \<Longrightarrow> cj_id c = jb_ID job \<Longrightarrow> ?hit c \<Longrightarrow> \<not> dest_taken d (jb_ID job) (copy_dest c)"
    and up: "upd_copy (jb_ID job) ?hit
      (\<lambda>c. c\<lparr>cj_state := jb_State job, cj_last_error := [], cj_revision := cj_revision c + 1\<rparr>) d = Inr (a, d')"
    using assms(2) by (auto simp: retry_tx_def Let_def split: if_splits)
  show ?thesis
    using assms(1) by (rule upd_copy_db_inv [OF _ _ up]) (use free in \<open>auto simp: keeps_dest_def copy_dest_def\<close>)
qed

lemma open_finish_inv:
  assumes "db_inv (jdb j)"
  shows "db_inv (jdb (snd (open_finish env j mode job s)))"
proof -
  have "db_inv (jdb (snd (tx env (retry_tx job) j)))" using assms by (rule tx_db_inv) (rule retry_tx_inv)
  then show ?thesis using assms by (auto simp: open_finish_def case_prod_beta split: sum.split)
qed

lemma openCopy_inv: "db_inv (jdb j) \<Longrightarrow> db_inv (jdb (snd (openCopy env j uid mode)))"
  by (auto simp: openCopy_def intro!: open_finish_inv dest!: copy_frame split: sum.split prod.split)

lemma Copy_Close_jdb [simp]: "jdb (snd (snd (Copy_Close env j c))) = jdb j"
  by (simp add: Copy_Close_def Let_def)

lemma RetryCopy_inv: "db_inv (jdb j) \<Longrightarrow> db_inv (jdb (snd (RetryCopy env j uid)))"
  using openCopy_inv [of j env uid copyRetry]
  by (auto simp: RetryCopy_def case_prod_beta split: sum.split)

lemma submit_tx_inv:
  assumes "db_inv d" "submit_tx env j u d = Inr (a, d')"
  shows "db_inv d'"
proof -
  obtain b d1 where up: "upd_copy (u_ID u) (\<lambda>c. cj_state c = CopyReady) (\<lambda>c. c\<lparr>cj_state := CopySubmitted\<rparr>) d = Inr (b, d1)"
      and ins: "insertUploadTx env j u d1 = Inr (a, d')"
    using assms(2) by (auto simp: submit_tx_def split: if_splits sum.splits)
  have "db_inv d1"
    using assms(1)
    by (rule upd_copy_db_inv [OF _ _ up]) (auto simp: keeps_dest_def copy_dest_def copy_active_def)
  then show ?thesis using ins by (rule insertUploadTx_inv)
qed

lemma Submit_inv:
  assumes "db_inv (jdb j)"
  shows "db_inv (jdb (snd (snd (Submit env j c u))))"
proof -
  have "db_inv (jdb (snd (tx env (submit_tx env j v) j)))" for v
    using assms by (rule tx_db_inv) (rule submit_tx_inv)
  then show ?thesis using assms by (auto simp: Submit_def Let_def case_prod_beta split: sum.split option.split)
qed

lemma with_copy_inv:
  assumes "db_inv (jdb j)" and "\<And>j1. db_inv (jdb j1) \<Longrightarrow> db_inv (jdb (snd (body j1)))"
  shows "db_inv (jdb (snd (with_copy j uid body)))"
  using assms(1) assms(2) [of "snd (claimCopy j uid)"]
  by (simp add: with_copy_def case_prod_beta Let_def split: option.split)

lemma fail_copy_tx_inv:
  assumes "db_inv d" "fail_copy_tx uid reason d = Inr (a, d')"
  shows "db_inv d'"
proof -
  have "d' = d \<or> upd_copy uid (\<lambda>c. cj_state c \<in> {CopyPreparing, CopyReady, CopyFailed})
      (\<lambda>c. c\<lparr>cj_state := CopyFailed, cj_last_error := reason\<rparr>) d = Inr (a, d')"
    using assms(2) by (simp add: fail_copy_tx_def split: option.splits if_splits)
  then show ?thesis
  proof
    assume up: "upd_copy uid (\<lambda>c. cj_state c \<in> {CopyPreparing, CopyReady, CopyFailed})
      (\<lambda>c. c\<lparr>cj_state := CopyFailed, cj_last_error := reason\<rparr>) d = Inr (a, d')"
    show ?thesis
      using assms(1) by (rule upd_copy_db_inv [OF _ _ up]) (auto simp: keeps_dest_def copy_dest_def copy_active_def)
  qed (use assms(1) in simp)
qed

lemma FailCopy_inv:
  assumes "db_inv (jdb j)"
  shows "db_inv (jdb (snd (FailCopy env j uid reason)))"
proof -
  have "db_inv (jdb (snd (tx env (fail_copy_tx uid reason) j1)))" if "db_inv (jdb j1)" for j1
    using that by (rule tx_db_inv) (rule fail_copy_tx_inv)
  then show ?thesis unfolding FailCopy_def by (rule with_copy_inv [OF assms])
qed

lemma cancel_copy_tx_inv:
  assumes "db_inv d" "cancel_copy_tx uid d = Inr (a, d')"
  shows "db_inv d'"
proof -
  let ?f = "\<lambda>c. c\<lparr>cj_state := CopyCancelled, cj_last_error := [], cj_revision := cj_revision c + 1\<rparr>"
  have d': "d' = d\<lparr>copy_jobs := upd_where (\<lambda>c. cj_id c = uid) ?f (copy_jobs d)\<rparr>"
    using assms(2) by (simp add: cancel_copy_tx_def split: option.splits if_splits)
  have "copy_inv (d\<lparr>copy_jobs := upd_where (\<lambda>c. cj_id c = uid \<and> True) ?f (copy_jobs d)\<rparr>)"
    using db_invD(3) [OF assms(1)]
    by (rule upd_copy_inv) (simp_all add: keeps_dest_def copy_dest_def copy_active_def)
  then show ?thesis unfolding d' by (intro copy_jobs_db_inv [OF assms(1)]) simp
qed

lemma CancelCopy_inv:
  assumes "db_inv (jdb j)"
  shows "db_inv (jdb (snd (CancelCopy env j uid)))"
proof -
  have "db_inv (jdb (snd (tx env (cancel_copy_tx uid) j)))"
    using assms by (rule tx_db_inv) (rule cancel_copy_tx_inv)
  then show ?thesis using assms by (simp add: CancelCopy_def split: sum.split)
qed

lemma uniq_dests_subset: "uniq_dests cs \<Longrightarrow> set cs' \<subseteq> set cs \<Longrightarrow> uniq_dests cs'"
  unfolding uniq_dests_def by blast

lemma begin_copy_cleanup_tx_inv:
  assumes "db_inv d" "begin_copy_cleanup_tx uid p d = Inr (a, d')"
  shows "db_inv d'"
proof (cases "cnt_where (\<lambda>c. cc_id c = uid) (copy_cleanup d) \<noteq> 0")
  case True
  then show ?thesis using assms by (auto simp: begin_copy_cleanup_tx_def guarded_Inr simp del: cnt_where_0_iff)
next
  case False
  then obtain c where c: "copy_of d uid = Some c"
    using assms(2) by (cases "copy_of d uid") (auto simp: begin_copy_cleanup_tx_def guarded_Inr)
  define r where "r = \<lparr>cc_id = cj_id c, cc_spec = cj_spec c, cc_want = cj_want c,
    cc_checkpoint = cj_checkpoint c, cc_crc32c = cj_crc32c c, cc_revision = cj_revision c\<rparr>"
  have d': "d' = d\<lparr>copy_cleanup := copy_cleanup d @ [r],
      copy_jobs := del_where (\<lambda>c. cj_id c = uid) (copy_jobs d)\<rparr>"
    using assms(2) False c by (simp add: begin_copy_cleanup_tx_def guarded_Inr r_def split: if_splits)
  have "cc_id r = uid" using sel_one_SomeD [OF c [unfolded copy_of_def]] by (simp add: r_def)
  moreover have "uid \<notin> cc_id ` set (copy_cleanup d)"
  proof
    assume "uid \<in> cc_id ` set (copy_cleanup d)"
    then obtain x where "x \<in> set (copy_cleanup d)" "cc_id x = uid" by (metis imageE)
    then show False using False by simp
  qed
  ultimately have new: "cc_id r \<notin> cc_id ` set (copy_cleanup d)" by simp
  have inv: "copy_inv d" using assms(1) by (rule db_invD)
  have "uniq_dests (del_where (\<lambda>c. cj_id c = uid) (copy_jobs d))"
    by (rule uniq_dests_subset [of "copy_jobs d"]) (use inv in \<open>simp_all add: copy_inv_iff del_where_def\<close>)
  then have "copy_inv d'" using inv new unfolding d' by (simp add: copy_inv_iff distinct_map_del_where)
  then show ?thesis using assms(1) unfolding d' by (simp add: db_inv_def inv_frame)
qed

lemma BeginCopyCleanup_inv:
  assumes "db_inv (jdb j)"
  shows "db_inv (jdb (snd (BeginCopyCleanup env j uid)))"
proof -
  have "db_inv (jdb (snd (tx env (begin_copy_cleanup_tx uid p) j1)))" if "db_inv (jdb j1)" for p j1
    using that by (rule tx_db_inv) (rule begin_copy_cleanup_tx_inv)
  then have "db_inv (jdb (snd (with_copy j uid (tx env (begin_copy_cleanup_tx uid p)))))" for p
    by (rule with_copy_inv [OF assms])
  then show ?thesis using assms by (simp add: BeginCopyCleanup_def split: sum.split)
qed

lemma finish_copy_cleanup_tx_inv:
  assumes "db_inv d" "finish_copy_cleanup_tx env dur uid p d fs = (Inr (a, d'), fs')"
  shows "db_inv d'"
proof -
  have "d' = d\<lparr>copy_cleanup := del_where (\<lambda>c. cc_id c = uid) (copy_cleanup d)\<rparr>"
    using assms(2) by (auto simp: finish_copy_cleanup_tx_def split: if_splits option.splits prod.splits)
  then show ?thesis using assms(1) by (simp add: db_inv_def inv_frame copy_inv_iff distinct_map_del_where)
qed

lemma FinishCopyCleanup_inv:
  assumes "db_inv (jdb j)"
  shows "db_inv (jdb (snd (FinishCopyCleanup env j uid)))"
proof -
  have "db_inv (jdb (snd (txf env (finish_copy_cleanup_tx env (durability j) uid p) j1)))" if "db_inv (jdb j1)" for p j1
    using that by (rule txf_db_inv) (rule finish_copy_cleanup_tx_inv)
  then have "db_inv (jdb (snd (with_copy j uid (txf env (finish_copy_cleanup_tx env (durability j) uid p)))))" for p
    by (rule with_copy_inv [OF assms])
  then show ?thesis using assms by (simp add: FinishCopyCleanup_def split: sum.split)
qed

lemma begin_server_copy_tx_inv:
  assumes "db_inv d" "begin_server_copy_tx uid spec d = Inr (a, d')"
  shows "db_inv d'"
proof -
  define r where "r = \<lparr>sc_id = uid, sc_spec = spec, sc_target_remote = sv_TargetRemote spec,
    sc_target_parent = sv_TargetParentID spec, sc_target_name = sv_TargetName spec, sc_last_error = []\<rparr>"
  have d': "d' = d\<lparr>server_copies := server_copies d @ [r]\<rparr>"
    and dest: "\<forall>c \<in> set (server_copies d). server_dest c \<noteq> server_dest r"
    and uid: "\<forall>c \<in> set (server_copies d). sc_id c \<noteq> sc_id r"
    using assms(2) by (auto simp: begin_server_copy_tx_def r_def server_dest_def split: if_splits)
  have "server_dest r \<notin> server_dest ` set (server_copies d)" "sc_id r \<notin> sc_id ` set (server_copies d)"
    using dest uid by (metis imageE)+
  then have "copy_inv d'" using db_invD(3) [OF assms(1)] unfolding d' by (simp add: copy_inv_iff)
  then show ?thesis using assms(1) unfolding d' by (simp add: db_inv_def inv_frame)
qed

lemma BeginServerCopy_inv:
  assumes "db_inv (jdb j)"
  shows "db_inv (jdb (snd (BeginServerCopy env uid j spec)))"
proof -
  have "db_inv (jdb (snd (tx env (begin_server_copy_tx uid spec) j)))"
    using assms by (rule tx_db_inv) (rule begin_server_copy_tx_inv)
  then show ?thesis using assms by (simp add: BeginServerCopy_def split: option.split)
qed

lemma FinishServerCopy_inv: "db_inv (jdb j) \<Longrightarrow> db_inv (jdb (snd (FinishServerCopy env j uid)))"
  unfolding FinishServerCopy_def
  by (rule tx_db_inv) (auto simp: db_inv_def inv_frame copy_inv_iff distinct_map_del_where)

lemma NoteServerCopyError_inv: "db_inv (jdb j) \<Longrightarrow> db_inv (jdb (snd (NoteServerCopyError env j uid reason)))"
  unfolding NoteServerCopyError_def
  by (rule tx_db_inv) (auto simp: db_inv_def inv_frame copy_inv_iff server_dest_def map_upd_where_key)

lemmas copy_ops_inv =
  BeginCopy_inv BeginCopyFromWhole_inv checkpoint_inv openCopy_inv RetryCopy_inv Submit_inv FailCopy_inv
  CancelCopy_inv BeginCopyCleanup_inv FinishCopyCleanup_inv BeginServerCopy_inv FinishServerCopy_inv
  NoteServerCopyError_inv

end
