(* ===== verification/CopyProps.thy ===== *)
theory CopyProps
  imports CopyCleanup
begin

text \<open>
  What copy jobs promise: a reopened copy has the checkpointed bytes, a prepared payload enters the
  upload queue exactly once, and a cancellation wins over every handle and every older retry.
\<close>

section \<open>Reopening rebuilds the staging state\<close>

lemma prefix_loop_step:
  assumes "off < cp" "n = min hash_buf (cp - off)" "chunk = take n (drop off data)" "length chunk = n"
  shows "prefix_loop data cp off full pre =
    prefix_loop data cp (off + n) (feed_full chunk full) (feed_prefix off chunk pre)"
  using assms(1,4) unfolding prefix_loop.simps [of data cp off]
  by (simp add: Let_def assms(2) [symmetric] assms(3) [symmetric] del: length_take)

lemma prefix_loop_after:
  assumes "off \<le> cp" "cp \<le> length data"
  shows "prefix_loop data cp off (full_after want (take off data)) (prefix_after want (take off data)) =
    Some (full_after want (take cp data), prefix_after want (take cp data))"
  using assms
proof (induction "cp - off" arbitrary: off rule: less_induct)
  case less
  show ?case
  proof (cases "off < cp")
    case False
    then have "off = cp" using less.prems by simp
    then show ?thesis by (subst prefix_loop.simps) simp
  next
    case True
    define n where "n = min hash_buf (cp - off)"
    define chunk where "chunk = take n (drop off data)"
    have n: "0 < n" "off + n \<le> cp" using True by (auto simp: n_def hash_buf_def)
    then have len: "length chunk = n" using less.prems by (simp add: chunk_def)
    have "take off data @ chunk = take (off + n) data" by (simp add: chunk_def take_add)
    then have feed: "feed_full chunk (full_after want (take off data)) = full_after want (take (off + n) data)"
      "feed_prefix off chunk (prefix_after want (take off data)) = prefix_after want (take (off + n) data)"
      using feed_full_after [of chunk want "take off data"] feed_prefix_after [of "take off data" chunk want]
        less.prems by (simp_all add: min_absorb2)
    have "prefix_loop data cp off (full_after want (take off data)) (prefix_after want (take off data)) =
        prefix_loop data cp (off + n) (full_after want (take (off + n) data)) (prefix_after want (take (off + n) data))"
      using prefix_loop_step [OF True n_def chunk_def len] feed by simp
    moreover have "cp - (off + n) < cp - off" using n by linarith
    ultimately show ?thesis using less.hyps [of "off + n"] less.prems n by simp
  qed
qed

lemma CRC_in_withCRC [simp]: "HashCRC32C \<in> set (withCRC want)"
  by (simp add: withCRC_def)

lemma withCRC_idem [simp]: "withCRC (withCRC want) = withCRC want"
  by (simp add: withCRC_def)

lemma full_after_CRC: "HashCRC32C \<in> set want \<Longrightarrow> full_after want data HashCRC32C = Some data"
  by (simp add: full_after_def is_full_def)

text \<open>
  A validated file: its first \<open>cp\<close> bytes have the recorded checksum, and they are all that is left.
\<close>

lemma verify_copy_ok:
  assumes run: "verify_copy env j p job = (Inr s, j')" and cp: "0 \<le> jb_Checkpoint job"
  shows "\<exists>i. sg_file s = i \<and> os_lookup (jos j) p = Some (i, KReg) \<and>
    jos j' = set_data i (take (nat (jb_Checkpoint job)) (os_data (jos j) i)) (jos j) \<and>
    jb_Checkpoint job \<le> int (length (os_data (jos j) i)) \<and>
    digest env HashCRC32C (take (nat (jb_Checkpoint job)) (os_data (jos j) i)) = jb_CRC32C job"
    and "staging_ok (jos j') s" "sg_size s = jb_Checkpoint job" "sg_want s = withCRC (jb_Want job)"
    "sg_open s" "sg_Path s = p" "sg_ID s = jb_ID job" "sg_immutable s = (jb_State job = CopyReady)"
    "jdb j' = jdb j" "copyOpen j' = copyOpen j"
proof -
  obtain named f where n: "os_lstat env (jos j) p = Inr named" "is_regular named" "os_open env (jos j) p = Inr f"
      "fi_ino named = f" "jb_Checkpoint job \<le> int (length (os_data (jos j) f))"
    using run by (auto simp: verify_copy_def Let_def split: sum.splits if_splits)
  let ?d = "os_data (jos j) f" and ?cp = "jb_Checkpoint job" and ?w = "withCRC (jb_Want job)"
  let ?t = "take (nat ?cp) ?d"
  have loop: "prefix_loop ?d (nat ?cp) 0 (new_full ?w) (new_prefix ?w) = Some (full_after ?w ?t, prefix_after ?w ?t)"
    using prefix_loop_after [of 0 "nat ?cp" ?d ?w] n(5) cp by (simp add: after_nil)
  have s: "s = (newStagingState f (jb_ID job) p (jb_Want job))\<lparr>sg_full := full_after ?w ?t, sg_prefix := prefix_after ?w ?t,
        sg_size := ?cp, sg_pos := ?cp, sg_immutable := (jb_State job = CopyReady)\<rparr>"
    and j': "j' = j\<lparr>jos := set_data f ?t (jos j)\<rparr>" and crc: "digest env HashCRC32C ?t = jb_CRC32C job"
    using run n loop
    by (auto simp: verify_copy_def Let_def newStagingState_def full_after_CRC split: if_splits)
  have look: "os_lookup (jos j) p = Some (f, KReg)"
    using n(1,2,4) by (auto simp: os_lstat_def node_info_def is_regular_def split: if_splits option.splits prod.splits)
  show "\<exists>i. sg_file s = i \<and> os_lookup (jos j) p = Some (i, KReg) \<and>
      jos j' = set_data i (take (nat ?cp) (os_data (jos j) i)) (jos j) \<and>
      ?cp \<le> int (length (os_data (jos j) i)) \<and>
      digest env HashCRC32C (take (nat ?cp) (os_data (jos j) i)) = jb_CRC32C job"
    using s j' crc look n(5) by (auto simp: newStagingState_def Let_def)
  have "length ?t = nat ?cp" using n(5) cp by simp
  then show "staging_ok (jos j') s" using s j' cp by (auto simp: staging_ok_def newStagingState_def Let_def)
qed (use run in \<open>auto simp: verify_copy_def Let_def newStagingState_def split: sum.splits if_splits option.splits prod.splits\<close>)

text \<open>The row behind a successful read.\<close>

lemma GetCopy_ok:
  assumes "GetCopy env j uid = Inr job"
  shows "scanCopy job = Inr job" "jb_ID job = uid" "job \<in> set (copyRowsSQL (jdb j))"
    "sel_one (\<lambda>c. jb_ID c = uid) (copyRowsSQL (jdb j)) = Some job"
proof -
  obtain c where c: "sel_one (\<lambda>c. jb_ID c = uid) (copyRowsSQL (jdb j)) = Some c" "scanCopy c = Inr job"
    using assms by (auto simp: GetCopy_def copy_query_def dbq_def split: sum.splits if_splits option.splits)
  then have "c = job" by (auto simp: scanCopy_def split: option.splits if_splits)
  then show "scanCopy job = Inr job" "jb_ID job = uid" "job \<in> set (copyRowsSQL (jdb j))"
    "sel_one (\<lambda>c. jb_ID c = uid) (copyRowsSQL (jdb j)) = Some job"
    using c sel_one_SomeD [OF c(1)] by auto
qed

lemma scanCopy_bounds:
  assumes "scanCopy job = Inr job'"
  shows "0 \<le> jb_Checkpoint job" "jb_Checkpoint job \<le> cs_Size (jb_Spec job)"
    "jb_State job = CopyReady \<or> jb_State job = CopySubmitted \<Longrightarrow> jb_Checkpoint job = cs_Size (jb_Spec job)"
  using assms by (auto simp: scanCopy_def split: option.splits if_splits)

lemma sel_one_copyRows:
  "sel_one (\<lambda>c. jb_ID c = uid) (copyRowsSQL d) =
     (case copy_of d uid of
        Some c \<Rightarrow> Some (job_of_row c)
      | None \<Rightarrow> map_option job_of_cleanup (sel_one (\<lambda>c. cc_id c = uid) (copy_cleanup d)))"
proof -
  have "sel_one (\<lambda>c. jb_ID c = uid) (map job_of_row cs) = map_option job_of_row (sel_one (\<lambda>c. cj_id c = uid) cs)" for cs
    by (induction cs) (auto simp: job_of_row_def)
  moreover have "sel_one (\<lambda>c. jb_ID c = uid) (map job_of_cleanup cs) =
      map_option job_of_cleanup (sel_one (\<lambda>c. cc_id c = uid) cs)" for cs
    by (induction cs) (auto simp: job_of_cleanup_def)
  ultimately show ?thesis
    by (simp add: copyRowsSQL_def sel_one_append copy_of_def split: option.split)
qed

lemma open_prepare_ok:
  assumes "open_prepare env j uid mode = (Inr (job, s), j')"
  obtains found p where "GetCopy env (snd (claimCopy j uid)) uid = Inr found" "open_state mode found = Inr job"
    "copyPath env j uid = Inr p" "verify_copy env (snd (claimCopy j uid)) p job = (Inr s, j')"
    "owner j" "uid \<notin> copyOpen j" "snd (claimCopy j uid) = j\<lparr>copyOpen := insert uid (copyOpen j)\<rparr>"
proof -
  have cl: "fst (claimCopy j uid) = None"
    using assms by (auto simp: open_prepare_def split: option.splits prod.splits)
  then have c: "owner j" "uid \<notin> copyOpen j" "snd (claimCopy j uid) = j\<lparr>copyOpen := insert uid (copyOpen j)\<rparr>"
    by (auto simp: claimCopy_def split: if_splits)
  have path: "copyPath env (snd (claimCopy j uid)) uid = copyPath env j uid"
    unfolding c(3) by (simp add: copyPath_def jabs_def)
  show ?thesis
    using assms cl that c path
    by (auto simp: open_prepare_def Let_def case_prod_beta prod_eq_iff split: option.splits sum.splits)
qed

lemma open_state_ok:
  assumes "open_state mode found = Inr job"
  shows "jb_ID job = jb_ID found" "jb_Spec job = jb_Spec found" "jb_Want job = jb_Want found"
    "jb_Checkpoint job = jb_Checkpoint found" "jb_CRC32C job = jb_CRC32C found" "jb_Revision job = jb_Revision found"
    "jb_State job = CopyReady \<or> jb_State job = CopyPreparing"
    "jb_State found \<noteq> CopySubmitted" "jb_State found \<noteq> CopyPurging"
    "mode = copyResume \<Longrightarrow> job = found"
    "mode = copyRetry \<Longrightarrow> jb_State found = CopyFailed \<or> jb_State found = CopyCancelled"
  using assms by (auto simp: open_state_def split: copyOpenMode.splits if_splits)

text \<open>A journal with one copy job, for the witnesses.\<close>

definition copy_env :: env where
  "copy_env = sample_env\<lparr>uuid_ok := \<lambda>s. s = ''x''\<rparr>"

definition sample_id :: string where
  "sample_id = ''x''"

definition sample_spec :: CopySpec where
  "sample_spec = \<lparr>cs_MetaIdentity = [], cs_TargetParentIno = 1, cs_SourceMount = [], cs_SourceRootID = [],
     cs_SourceAccountBinding = [], cs_TargetMount = [], cs_TargetRootID = [], cs_TargetAccountBinding = [],
     cs_SourcePath = ''/a'', cs_SourceRemote = ''s'', cs_SourceID = ''i'', cs_SourceVersion = [],
     cs_Size = 0, cs_TargetPath = ''/b'', cs_TargetRemote = ''r'', cs_TargetParentID = ''p'', cs_Mode = ''strict''\<rparr>"

definition sample_job :: "CopyState \<Rightarrow> CopyJob" where
  "sample_job st = \<lparr>jb_ID = sample_id, jb_Spec = sample_spec, jb_Want = [HashCRC32C], jb_State = st,
     jb_Checkpoint = 0, jb_CRC32C = ''00000000'', jb_LastError = [], jb_Revision = 0\<rparr>"

definition sample_copy_path :: string where
  "sample_copy_path = ''/j/copies/x.part''"

definition sample_copy_fs :: "byte list \<Rightarrow> osfs" where
  "sample_copy_fs bs = set_data 9 bs (set_name sample_copy_path (9, KReg) sample_fs)"

definition sample_copy_journal :: "CopyState \<Rightarrow> byte list \<Rightarrow> Journal" where
  "sample_copy_journal st bs =
     (sample_journal [])\<lparr>jdb := empty_db\<lparr>copy_jobs := [copy_row_of (sample_job st)]\<rparr>, jos := sample_copy_fs bs\<rparr>"

lemma copy_env_calm: "calm copy_env"
  unfolding calm_def by (simp add: copy_env_def sample_env_def)

lemma sample_copy_inv: "db_inv (jdb (sample_copy_journal st bs))"
  unfolding sample_copy_journal_def
  using copy_jobs_db_inv [OF empty_db_inv, of "[copy_row_of (sample_job st)]"]
  by (simp add: copy_inv_def empty_db_def)

lemma not_islD: "\<not> isl (fst x) \<Longrightarrow> \<exists>a b. x = (Inr a, b)"
  by (cases x; cases "fst x") auto

lemma openCopy_facts:
  assumes "openCopy env j uid mode = (Inr c, j')"
  shows "uid \<notin> copyOpen j \<and> uid \<in> copyOpen j' \<and>
    sg_size (ch_staging c) = jb_Checkpoint (ch_job c) \<and> jb_Checkpoint (ch_job c) \<le> cs_Size (jb_Spec (ch_job c)) \<and>
    (let i = sg_file (ch_staging c); n = nat (jb_Checkpoint (ch_job c)) in
       os_data (jos j') i = take n (os_data (jos j) i) \<and> length (os_data (jos j') i) = n \<and>
       digest env HashCRC32C (os_data (jos j') i) = jb_CRC32C (ch_job c) \<and>
       (\<forall>k. k \<noteq> i \<longrightarrow> os_data (jos j') k = os_data (jos j) k) \<and> os_names (jos j') = os_names (jos j)) \<and>
    staging_ok (jos j') (ch_staging c) \<and>
    (sg_immutable (ch_staging c) \<longleftrightarrow> jb_State (ch_job c) = CopyReady)"
proof -
  obtain job s j1 where prep: "open_prepare env j uid mode = (Inr (job, s), j1)"
      and fin: "open_finish (after 3 env) j1 mode job s = (Inr c, j')"
    using assms by (auto simp: openCopy_def split: sum.splits prod.splits)
  from open_prepare_ok [OF prep] obtain found p where o: "GetCopy env (snd (claimCopy j uid)) uid = Inr found"
    "open_state mode found = Inr job" "verify_copy env (snd (claimCopy j uid)) p job = (Inr s, j1)"
    "uid \<notin> copyOpen j" "snd (claimCopy j uid) = j\<lparr>copyOpen := insert uid (copyOpen j)\<rparr>" by metis
  note st = open_state_ok [OF o(2)] and bd = scanCopy_bounds [OF GetCopy_ok(1) [OF o(1)]]
  have cp: "0 \<le> jb_Checkpoint job" "jb_Checkpoint job \<le> cs_Size (jb_Spec job)" using st bd by simp_all
  note v = verify_copy_ok [OF o(3) cp(1)]
  have c: "ch_staging c = s" "jb_Checkpoint (ch_job c) = jb_Checkpoint job" "jb_CRC32C (ch_job c) = jb_CRC32C job"
    "jb_Spec (ch_job c) = jb_Spec job" "jb_State (ch_job c) = jb_State job" "jos j' = jos j1" "copyOpen j' = copyOpen j1"
    using fin tx_rest(1,7) [of "after 3 env" "retry_tx job" j1]
    by (auto simp: open_finish_def case_prod_beta split: if_splits sum.splits)
  obtain i where i: "sg_file s = i" "jos j1 = set_data i (take (nat (jb_Checkpoint job)) (os_data (jos j) i)) (jos j)"
      "jb_Checkpoint job \<le> int (length (os_data (jos j) i))"
      "digest env HashCRC32C (take (nat (jb_Checkpoint job)) (os_data (jos j) i)) = jb_CRC32C job"
    using v(1) unfolding o(5) by auto
  show ?thesis
    using i v(2,3,8,10) c cp o(4) unfolding o(5) by (simp add: Let_def min_absorb2)
qed

text \<open>
  C20. A reopened copy is exactly its checkpoint. Whenever a job can be opened, whatever the mode,
  its file starts with the bytes whose checksum the row records, an uncheckpointed tail is gone,
  the handle is exclusive, and the rebuilt state computes the digests of just those bytes, so that
  later writes continue where the checkpoint ended.
\<close>

theorem openCopy_exact:
  assumes "openCopy env j uid mode = (Inr c, j')"
  shows "uid \<notin> copyOpen j \<and> uid \<in> copyOpen j' \<and>
    sg_size (ch_staging c) = jb_Checkpoint (ch_job c) \<and> jb_Checkpoint (ch_job c) \<le> cs_Size (jb_Spec (ch_job c)) \<and>
    (let i = sg_file (ch_staging c); n = nat (jb_Checkpoint (ch_job c)) in
       os_data (jos j') i = take n (os_data (jos j) i) \<and> length (os_data (jos j') i) = n \<and>
       digest env HashCRC32C (os_data (jos j') i) = jb_CRC32C (ch_job c) \<and>
       (\<forall>k. k \<noteq> i \<longrightarrow> os_data (jos j') k = os_data (jos j) k) \<and> os_names (jos j') = os_names (jos j)) \<and>
    staging_ok (jos j') (ch_staging c) \<and>
    (sg_immutable (ch_staging c) \<longleftrightarrow> jb_State (ch_job c) = CopyReady)"
  using assms by (rule openCopy_facts)

theorem openCopy_exact_witness:
  "\<exists>c j'. openCopy copy_env (sample_copy_journal CopyPreparing [1, 2]) sample_id copyResume = (Inr c, j') \<and>
     os_data (jos j') (sg_file (ch_staging c)) = [] \<and> staging_ok (jos j') (ch_staging c)"
proof -
  let ?j = "sample_copy_journal CopyPreparing [1, 2]"
  have "\<not> isl (fst (openCopy copy_env ?j sample_id copyResume))" by code_simp
  then obtain c j' where o: "openCopy copy_env ?j sample_id copyResume = (Inr c, j')" using not_islD by metis
  have "jb_Checkpoint (ch_job (projr (fst (openCopy copy_env ?j sample_id copyResume)))) = 0" by code_simp
  then have "jb_Checkpoint (ch_job c) = 0" using o by simp
  then show ?thesis using openCopy_exact [OF o] o by (auto simp: Let_def)
qed

section \<open>Rows of jobs\<close>

lemma copy_of_iff: "db_inv d \<Longrightarrow> copy_of d uid = Some c \<longleftrightarrow> c \<in> set (copy_jobs d) \<and> cj_id c = uid"
  unfolding copy_of_def by (rule sel_one_key_iff) (simp add: db_inv_def copy_inv_def)

lemma copy_of_id: "copy_of d uid = Some c \<Longrightarrow> cj_id c = uid"
  using sel_one_SomeD by (fastforce simp: copy_of_def)

lemma copy_of_upd:
  assumes "\<And>c. cj_id (f c) = cj_id c"
  shows "copy_of (d\<lparr>copy_jobs := upd_where q f (copy_jobs d)\<rparr>) x = map_option (\<lambda>c. if q c then f c else c) (copy_of d x)"
  unfolding copy_of_def by (simp add: sel_one_upd_where assms)

lemma upd_copy_row:
  assumes "db_inv d" "upd_copy uid P f d = Inr (a, d')" "\<And>c. cj_id (f c) = cj_id c"
  obtains c where "copy_of d uid = Some c" "P c" "copy_of d' uid = Some (f c)"
    "\<And>x. x \<noteq> uid \<Longrightarrow> copy_of d' x = copy_of d x" "uploads d' = uploads d"
proof -
  obtain c where c: "c \<in> set (copy_jobs d)" "cj_id c = uid" "P c" using upd_copyD(2) [OF assms(2)] by blast
  then have row: "copy_of d uid = Some c" using copy_of_iff [OF assms(1)] by simp
  note d' = upd_copyD(1) [OF assms(2)]
  have "copy_of d' uid = Some (f c)" unfolding d' using row c by (simp add: copy_of_upd assms(3))
  moreover have "copy_of d' x = copy_of d x" if "x \<noteq> uid" for x
    unfolding d' using that by (cases "copy_of d x") (auto simp: copy_of_upd assms(3) dest: copy_of_id)
  ultimately show ?thesis using that row c(3) d' by simp
qed

lemma upd_copy_refused:
  assumes "db_inv d" "copy_of d uid = Some c" "\<not> P c"
  shows "upd_copy uid P f d = Inl ErrCopyState"
proof -
  have "\<forall>r \<in> set (copy_jobs d). \<not> (cj_id r = uid \<and> P r)"
    using assms(2,3) copy_of_iff [OF assms(1), of uid] by (metis option.inject)
  then have "cnt_where (\<lambda>c. cj_id c = uid \<and> P c) (copy_jobs d) = 0" by simp
  then show ?thesis by (simp add: upd_copy_def del: cnt_where_0_iff)
qed

lemma tx_Inl: "fn (jdb j) = Inl e \<Longrightarrow> \<exists>e'. tx env fn j = (Inl e', j)"
  by (simp add: tx_def)

lemma insertUploadTx_copy_jobs:
  assumes "insertUploadTx env j u d = Inr (a, d')"
  shows "copy_jobs d' = copy_jobs d"
  using assms by (cases rule: insertUploadTx_cases) (simp add: upsert_upload_def upd_id_def split: option.split)

section \<open>Submission happens once\<close>

lemma submit_tx_ok:
  assumes "db_inv d" "submit_tx env j u d = Inr (a, d')"
  obtains c r where "copy_of d (u_ID u) = Some c" "cj_state c = CopyReady" "row_of d (u_ID u) = None"
    "copy_of d' (u_ID u) = Some (c\<lparr>cj_state := CopySubmitted\<rparr>)"
    "row_of d' (u_ID u) = Some r" "stored_as u r" "\<And>x. x \<noteq> u_ID u \<Longrightarrow> row_of d' x = row_of d x"
    "\<And>x. x \<noteq> u_ID u \<Longrightarrow> copy_of d' x = copy_of d x"
proof -
  obtain b d1 where none: "cnt_where (\<lambda>r. r_id r = u_ID u) (uploads d) = 0"
      and up: "upd_copy (u_ID u) (\<lambda>c. cj_state c = CopyReady) (\<lambda>c. c\<lparr>cj_state := CopySubmitted\<rparr>) d = Inr (b, d1)"
      and ins: "insertUploadTx env j u d1 = Inr (a, d')"
    using assms(2) by (auto simp: submit_tx_def split: if_splits sum.splits)
  obtain c where c: "copy_of d (u_ID u) = Some c" "cj_state c = CopyReady"
      "copy_of d1 (u_ID u) = Some (c\<lparr>cj_state := CopySubmitted\<rparr>)"
      "\<And>x. x \<noteq> u_ID u \<Longrightarrow> copy_of d1 x = copy_of d x" "uploads d1 = uploads d"
    by (rule upd_copy_row [OF assms(1) up]) simp_all
  have same: "copy_of d' x = copy_of d1 x" for x
    using insertUploadTx_copy_jobs [OF ins] by (simp add: copy_of_def)
  have rows: "row_of d1 x = row_of d x" for x using c(5) by (simp add: row_of_def)
  have "row_of d (u_ID u) = None" using none by (simp add: row_of_def sel_one_None_iff)
  then show ?thesis
    using that c same rows insertUploadTx_row [OF ins] by metis
qed

lemma Submit_ok:
  assumes "Submit env j c u = (Inr u', c', j')"
  obtains hashes where "Staging_Hashes env (jos j) (ch_staging c) = Inr hashes"
    "u' = submit_upload env c hashes u" "tx env (submit_tx env j u') j = (Inr (), j')"
    "jb_State (ch_job c) = CopyReady" "u_Remote u = cs_TargetRemote (jb_Spec (ch_job c))"
    "u_RemoteParentID u = cs_TargetParentID (jb_Spec (ch_job c))"
    "u_Name u = path_base (cs_TargetPath (jb_Spec (ch_job c)))"
  using assms that
  by (auto simp: Submit_def Let_def case_prod_beta prod_eq_iff split: if_splits sum.splits option.splits)

lemma openCopy_state:
  assumes "db_inv (jdb j)" "copy_of (jdb j) uid = Some r" "openCopy env j uid mode = (Inr c, j')"
  shows "cj_state r \<noteq> CopySubmitted" "mode = copyResume \<Longrightarrow> cj_state r \<noteq> CopyCancelled"
proof -
  obtain job s j1 where prep: "open_prepare env j uid mode = (Inr (job, s), j1)"
    using assms(3) by (auto simp: openCopy_def split: sum.splits prod.splits)
  from open_prepare_ok [OF prep] obtain found where o: "GetCopy env (snd (claimCopy j uid)) uid = Inr found"
    "open_state mode found = Inr job" by metis
  have "found = job_of_row r"
    using GetCopy_ok(4) [OF o(1)] assms(2) by (simp add: sel_one_copyRows)
  then have "jb_State found = cj_state r" by (simp add: job_of_row_def)
  moreover have "jb_State found \<noteq> CopySubmitted" "mode = copyResume \<Longrightarrow> jb_State found \<noteq> CopyCancelled"
    using o(2) by (auto simp: open_state_def split: copyOpenMode.splits if_splits)
  ultimately show "cj_state r \<noteq> CopySubmitted" "mode = copyResume \<Longrightarrow> cj_state r \<noteq> CopyCancelled" by auto
qed

text \<open>A handle can submit only a job whose row is ready.\<close>

lemma Submit_refused:
  assumes "db_inv (jdb j)" "copy_of (jdb j) (jb_ID (ch_job c)) = Some r" "cj_state r \<noteq> CopyReady"
  shows "\<exists>e. Submit env j c u = (Inl e, c, j)"
proof (rule ccontr)
  assume "\<nexists>e. Submit env j c u = (Inl e, c, j)"
  then obtain hashes a where t: "fst (tx env (submit_tx env j (submit_upload env c hashes u)) j) = Inr a"
    using tx_error
    by (fastforce simp: Submit_def Let_def case_prod_beta split: if_splits sum.splits option.splits)
  have "submit_tx env j (submit_upload env c hashes u) (jdb j) = Inl ErrCopyState \<or>
      submit_tx env j (submit_upload env c hashes u) (jdb j) = Inl ECopyExists"
    using upd_copy_refused [OF assms(1,2), of "\<lambda>c. cj_state c = CopyReady"] assms(3)
    by (simp add: submit_tx_def submit_upload_def)
  then show False using t by (auto simp: tx_def split: if_splits)
qed

text \<open>
  C18. A prepared copy enters the upload queue exactly once. When \<open>Submit\<close> succeeds, one
  transaction has turned the ready job into a submitted one and created its upload, which was not
  there before: pending, at the reserved destination, owning the copy's file with its size and
  digests. From then on no handle of the job can submit again, under any environment, and no mode
  can reopen it.
\<close>

theorem Submit_once:
  assumes "db_inv (jdb j)" and "Submit env j c u = (Inr u', c', j')"
  shows "row_of (jdb j) (jb_ID (ch_job c)) = None \<and>
    (\<exists>r. row_of (jdb j') (jb_ID (ch_job c)) = Some r \<and> r_state r = StatePending \<and>
       r_blob_path r = sg_Path (ch_staging c) \<and> r_size r = cs_Size (jb_Spec (ch_job c)) \<and>
       Inr (r_hashes r) = Staging_Hashes env (jos j) (ch_staging c) \<and>
       r_remote r = cs_TargetRemote (jb_Spec (ch_job c)) \<and>
       r_remote_parent_id r = cs_TargetParentID (jb_Spec (ch_job c)) \<and>
       r_name r = path_base (cs_TargetPath (jb_Spec (ch_job c)))) \<and>
    (\<exists>q. copy_of (jdb j') (jb_ID (ch_job c)) = Some q \<and> cj_state q = CopySubmitted) \<and>
    (\<forall>x. x \<noteq> jb_ID (ch_job c) \<longrightarrow> row_of (jdb j') x = row_of (jdb j) x \<and> copy_of (jdb j') x = copy_of (jdb j) x) \<and>
    (\<forall>env2 c2 u2. jb_ID (ch_job c2) = jb_ID (ch_job c) \<longrightarrow> (\<exists>e. Submit env2 j' c2 u2 = (Inl e, c2, j'))) \<and>
    (\<forall>env2 mode. isl (fst (openCopy env2 j' (jb_ID (ch_job c)) mode)))"
proof -
  obtain hashes where h: "Staging_Hashes env (jos j) (ch_staging c) = Inr hashes"
    "u' = submit_upload env c hashes u" "tx env (submit_tx env j u') j = (Inr (), j')"
    "u_Remote u = cs_TargetRemote (jb_Spec (ch_job c))"
    "u_RemoteParentID u = cs_TargetParentID (jb_Spec (ch_job c))"
    "u_Name u = path_base (cs_TargetPath (jb_Spec (ch_job c)))"
    using Submit_ok [OF assms(2)] by metis
  have uid: "u_ID u' = jb_ID (ch_job c)" using h(2) by (simp add: submit_upload_def)
  obtain d where d: "submit_tx env j u' (jdb j) = Inr ((), d)" "jdb j' = d"
    using h(3) by (cases rule: tx_cases) auto
  obtain q r where s: "row_of (jdb j) (u_ID u') = None" "copy_of d (u_ID u') = Some (q\<lparr>cj_state := CopySubmitted\<rparr>)"
    "row_of d (u_ID u') = Some r" "stored_as u' r" "\<And>x. x \<noteq> u_ID u' \<Longrightarrow> row_of d x = row_of (jdb j) x"
    "\<And>x. x \<noteq> u_ID u' \<Longrightarrow> copy_of d x = copy_of (jdb j) x"
    using submit_tx_ok [OF assms(1) d(1)] by metis
  have inv: "db_inv (jdb j')" using Submit_inv [OF assms(1), of env c u] assms(2) by simp
  have row: "copy_of (jdb j') (jb_ID (ch_job c)) = Some (q\<lparr>cj_state := CopySubmitted\<rparr>)" using s(2) d(2) uid by simp
  have "isl (fst (openCopy env2 j' (jb_ID (ch_job c)) mode))" for env2 mode
  proof (cases "openCopy env2 j' (jb_ID (ch_job c)) mode")
    case (Pair a b)
    then show ?thesis using openCopy_state(1) [OF inv row] by (cases a) auto
  qed
  moreover have "\<exists>e. Submit env2 j' c2 u2 = (Inl e, c2, j')" if "jb_ID (ch_job c2) = jb_ID (ch_job c)" for env2 c2 u2
    using Submit_refused [OF inv, of c2] row that by simp
  moreover have "r_state r = StatePending \<and> r_blob_path r = sg_Path (ch_staging c) \<and>
      r_size r = cs_Size (jb_Spec (ch_job c)) \<and> r_hashes r = hashes \<and>
      r_remote r = cs_TargetRemote (jb_Spec (ch_job c)) \<and>
      r_remote_parent_id r = cs_TargetParentID (jb_Spec (ch_job c)) \<and>
      r_name r = path_base (cs_TargetPath (jb_Spec (ch_job c)))"
    using s(4) h(4-6) unfolding h(2) by (simp add: stored_as_def submit_upload_def)
  ultimately show ?thesis using s(1,3,5,6) row d(2) h(1) unfolding uid by auto
qed

theorem Submit_once_witness:
  "\<exists>c j u u' c' j'. openCopy copy_env (sample_copy_journal CopyReady []) sample_id copyResume = (Inr c, j) \<and>
     Submit copy_env j c u = (Inr u', c', j') \<and>
     (\<exists>r. row_of (jdb j') sample_id = Some r \<and> r_state r = StatePending) \<and>
     isl (fst (openCopy copy_env j' sample_id copyResume))"
proof -
  let ?o = "openCopy copy_env (sample_copy_journal CopyReady []) sample_id copyResume"
  let ?u = "(sample_upload [] [])\<lparr>u_Name := ''b''\<rparr>"
  have "\<not> isl (fst ?o)" by code_simp
  then obtain c j where o: "?o = (Inr c, j)" using not_islD by metis
  have "\<not> isl (fst (Submit copy_env (snd ?o) (projr (fst ?o)) ?u))" by code_simp
  then have "\<not> isl (fst (Submit copy_env j c ?u))" using o by simp
  then obtain u' c' j' where s: "Submit copy_env j c ?u = (Inr u', c', j')"
    using not_islD by (metis prod.exhaust_sel)
  have inv: "db_inv (jdb j)" using openCopy_inv [OF sample_copy_inv, of copy_env CopyReady "[]" sample_id copyResume] o by simp
  have "jb_ID (ch_job (projr (fst ?o))) = sample_id" by code_simp
  then have "jb_ID (ch_job c) = sample_id" using o by simp
  then have "\<exists>r. row_of (jdb j') sample_id = Some r \<and> r_state r = StatePending"
    "isl (fst (openCopy copy_env j' sample_id copyResume))"
    using Submit_once [OF inv s] by auto
  then show ?thesis using o s by blast
qed

section \<open>Cancellation wins\<close>

lemma CancelCopy_ok:
  assumes "db_inv (jdb j)" "CancelCopy env j uid = (Inr v, j')"
  obtains r where "copy_of (jdb j) uid = Some r" "cj_state r \<noteq> CopySubmitted"
    "copy_of (jdb j') uid = Some (r\<lparr>cj_state := CopyCancelled, cj_last_error := [], cj_revision := cj_revision r + 1\<rparr>)"
    "db_inv (jdb j')" "jos j' = jos j" "copyOpen j' = copyOpen j"
    "\<And>x. x \<noteq> uid \<Longrightarrow> copy_of (jdb j') x = copy_of (jdb j) x" "uploads (jdb j') = uploads (jdb j)"
proof -
  let ?f = "\<lambda>c. c\<lparr>cj_state := CopyCancelled, cj_last_error := [], cj_revision := cj_revision c + 1\<rparr>"
  have t: "tx env (cancel_copy_tx uid) j = (Inr v, j')"
    using assms(2) by (auto simp: CancelCopy_def split: if_splits sum.splits)
  then obtain d where d: "cancel_copy_tx uid (jdb j) = Inr (v, d)" "j' = j\<lparr>jdb := d\<rparr>"
    by (cases rule: tx_cases) auto
  then obtain r where r: "copy_of (jdb j) uid = Some r" "cj_state r \<noteq> CopySubmitted"
      and d': "d = (jdb j)\<lparr>copy_jobs := upd_where (\<lambda>c. cj_id c = uid) ?f (copy_jobs (jdb j))\<rparr>"
    by (auto simp: cancel_copy_tx_def split: option.splits if_splits)
  have "copy_of d uid = Some (?f r)" unfolding d' using r(1) copy_of_id [OF r(1)] by (simp add: copy_of_upd)
  moreover have "copy_of d x = copy_of (jdb j) x" if "x \<noteq> uid" for x
    unfolding d' using that by (cases "copy_of (jdb j) x") (auto simp: copy_of_upd dest: copy_of_id)
  moreover have "db_inv d" using cancel_copy_tx_inv [OF assms(1) d(1)] .
  ultimately show ?thesis using that r d(2) d' by simp
qed

lemma checkpoint_refused:
  assumes "db_inv (jdb j)" "copy_of (jdb j) (jb_ID (ch_job c)) = Some r" "cj_state r \<noteq> CopyPreparing"
  shows "\<exists>e. checkpoint env j c = (Some e, c, j)"
proof -
  have "upd_copy (jb_ID (ch_job c)) (\<lambda>r. cj_state r = CopyPreparing) f (jdb j) = Inl ErrCopyState" for f
    by (rule upd_copy_refused [OF assms(1,2)]) (rule assms(3))
  then have "tx env (upd_copy (jb_ID (ch_job c)) (\<lambda>r. cj_state r = CopyPreparing) f) j =
      (Inl (if dbf env 0 = DBBegin \<or> dbf env 0 = DBStmt then EDb else ErrCopyState), j)" for f
    by (simp add: tx_def)
  then show ?thesis
    by (simp add: checkpoint_def Let_def split: sum.split option.split)
qed

lemma retry_refused:
  assumes "db_inv (jdb j)" "copy_of (jdb j) (jb_ID job) = Some r" "cj_revision r \<noteq> jb_Revision job"
  shows "\<exists>e. open_finish env j copyRetry job s = (Inl e, releaseCopy j (jb_ID job))"
proof -
  have "\<exists>e. retry_tx job (jdb j) = Inl e"
    using upd_copy_refused [OF assms(1,2)] assms(3) by (simp add: retry_tx_def Let_def)
  then obtain e where "tx env (retry_tx job) j = (Inl e, j)" using tx_Inl by blast
  then show ?thesis by (simp add: open_finish_def)
qed

text \<open>
  C19. Cancellation wins. After \<open>CancelCopy\<close> has succeeded, no handle of the job, opened at any
  time, can checkpoint or submit; reporting a failure leaves the job cancelled; resuming is refused;
  and a retry that validated the job before the cancellation, and reaches its transaction only now,
  is refused as well, because the cancellation raised the revision. None of these calls changes
  the tables.
\<close>

theorem CancelCopy_wins:
  assumes "db_inv (jdb j)" and "CancelCopy env j uid = (Inr v, j')"
  shows "(\<exists>r. copy_of (jdb j') uid = Some r \<and> cj_state r = CopyCancelled) \<and>
    (\<forall>env2 c u. jb_ID (ch_job c) = uid \<longrightarrow>
       (\<exists>e. checkpoint env2 j' c = (Some e, c, j')) \<and> (\<exists>e. Submit env2 j' c u = (Inl e, c, j'))) \<and>
    (\<forall>env2 reason. jdb (snd (FailCopy env2 j' uid reason)) = jdb j') \<and>
    (\<forall>env2. isl (fst (ResumeCopy env2 j' uid))) \<and>
    (\<forall>env0 j0 env2 job s. open_prepare env0 j0 uid copyRetry = (Inr (job, s), j) \<longrightarrow>
       (\<exists>e. open_finish env2 j' copyRetry job s = (Inl e, releaseCopy j' uid)))"
proof -
  obtain r where r: "copy_of (jdb j) uid = Some r"
    "copy_of (jdb j') uid = Some (r\<lparr>cj_state := CopyCancelled, cj_last_error := [], cj_revision := cj_revision r + 1\<rparr>)"
    and inv: "db_inv (jdb j')"
    using CancelCopy_ok [OF assms] by metis
  have fail: "jdb (snd (FailCopy env2 j' uid reason)) = jdb j'" for env2 reason
  proof -
    have "jdb (snd (tx env2 (fail_copy_tx uid reason) j1)) = jdb j1" if "jdb j1 = jdb j'" for j1
      using r(2) that by (simp add: tx_def fail_copy_tx_def)
    then show ?thesis by (simp add: FailCopy_def with_copy_def case_prod_beta Let_def split: option.split)
  qed
  have resume: "isl (fst (ResumeCopy env2 j' uid))" for env2
  proof (cases "ResumeCopy env2 j' uid")
    case (Pair a b)
    then show ?thesis using openCopy_state(2) [OF inv r(2)] by (cases a) (auto simp: ResumeCopy_def)
  qed
  have retry: "\<exists>e. open_finish env2 j' copyRetry job s = (Inl e, releaseCopy j' uid)"
    if prep: "open_prepare env0 j0 uid copyRetry = (Inr (job, s), j)" for env0 j0 env2 job s
  proof -
    from open_prepare_ok [OF prep] obtain found where o: "GetCopy env0 (snd (claimCopy j0 uid)) uid = Inr found"
      "open_state copyRetry found = Inr job" by metis
    have "jdb j = jdb j0" using open_prepare_jdb' [OF prep] .
    then have "found = job_of_row r" using GetCopy_ok(4) [OF o(1)] r(1) by (simp add: sel_one_copyRows)
    then have job: "jb_Revision job = cj_revision r" "jb_ID job = uid"
      using open_state_ok(1,6) [OF o(2)] copy_of_id [OF r(1)] by (simp_all add: job_of_row_def)
    show ?thesis using retry_refused [OF inv, of job _ env2 s] r(2) job by simp
  qed
  show ?thesis
    using r(2) fail resume retry checkpoint_refused [OF inv] Submit_refused [OF inv] by auto
qed

theorem CancelCopy_wins_witness:
  "\<exists>v j'. CancelCopy copy_env (sample_copy_journal CopyReady []) sample_id = (Inr v, j') \<and>
     isl (fst (ResumeCopy copy_env j' sample_id))"
proof -
  have "\<not> isl (fst (CancelCopy copy_env (sample_copy_journal CopyReady []) sample_id))" by code_simp
  then obtain v j' where c: "CancelCopy copy_env (sample_copy_journal CopyReady []) sample_id = (Inr v, j')"
    using not_islD by metis
  show ?thesis using CancelCopy_wins [OF sample_copy_inv c] c by auto
qed

end
