(* ===== verification/CopyOutcomes.thy ===== *)
theory CopyOutcomes
  imports CopyProps
begin

text \<open>
  Crashes and cleanup of copy jobs, paging through them, and the intents of server-side copies.
\<close>

section \<open>A checkpoint survives a crash\<close>

lemma Staging_Hashes_Inr:
  assumes "staging_ok fs s" "Staging_Hashes env fs s = Inr h"
  shows "h = ref_hashes env (sg_want s) (os_data fs (sg_file s))"
proof (cases "sg_streaming s \<and> sg_pos s = sg_size s")
  case True
  then show ?thesis using assms by (auto simp: Staging_Hashes_def staging_ok_def sum_after)
next
  case False
  let ?d = "os_data fs (sg_file s)"
  have "hash_loop ?d (length ?d) 0 (new_full (sg_want s)) (new_prefix (sg_want s)) =
      (full_after (sg_want s) ?d, prefix_after (sg_want s) ?d)"
    using hash_loop_after [of 0 ?d "length ?d" "sg_want s"] by (simp add: after_nil)
  then show ?thesis
    using assms False by (auto simp: Staging_Hashes_def hashFile_def staging_ok_def sum_after split: if_splits)
qed

lemma ref_hashes_CRC:
  "HashCRC32C \<in> set want \<Longrightarrow> ref_hashes env want data HashCRC32C = Some (digest env HashCRC32C data)"
  by (simp add: ref_hashes_def hashed_part_def is_full_def)

lemma checkpoint_ok:
  assumes "db_inv (jdb j)" "checkpoint env j c = (None, c', j')" "staging_ok (jos j) (ch_staging c)"
    "HashCRC32C \<in> set (sg_want (ch_staging c))"
  obtains r where "copy_of (jdb j) (jb_ID (ch_job c)) = Some r" "cj_state r = CopyPreparing"
    "copy_of (jdb j') (jb_ID (ch_job c)) = Some (r\<lparr>cj_checkpoint := sg_size (ch_staging c),
       cj_crc32c := digest env HashCRC32C (os_data (jos j) (sg_file (ch_staging c))),
       cj_state := (if sg_size (ch_staging c) = cs_Size (jb_Spec (ch_job c)) then CopyReady else CopyPreparing)\<rparr>)"
    "jos j' = jos j" "owner j' = owner j" "jdir j' = jdir j"
proof -
  let ?s = "ch_staging c" and ?uid = "jb_ID (ch_job c)"
  obtain h where h: "Staging_Hashes env (jos j) ?s = Inr h"
    using assms(2) by (auto simp: checkpoint_def split: if_splits sum.splits)
  have "h HashCRC32C = Some (digest env HashCRC32C (os_data (jos j) (sg_file ?s)))"
    using Staging_Hashes_Inr [OF assms(3) h] ref_hashes_CRC [OF assms(4)] by simp
  then have t: "tx env (upd_copy ?uid (\<lambda>r. cj_state r = CopyPreparing)
      (\<lambda>r. r\<lparr>cj_checkpoint := sg_size ?s, cj_crc32c := digest env HashCRC32C (os_data (jos j) (sg_file ?s)),
             cj_state := (if sg_size ?s = cs_Size (jb_Spec (ch_job c)) then CopyReady else CopyPreparing)\<rparr>)) j = (Inr (), j')"
    using assms(2) h
    by (auto simp: checkpoint_def Let_def case_prod_beta prod_eq_iff split: if_splits sum.splits option.splits)
  then obtain d where d: "upd_copy ?uid (\<lambda>r. cj_state r = CopyPreparing)
      (\<lambda>r. r\<lparr>cj_checkpoint := sg_size ?s, cj_crc32c := digest env HashCRC32C (os_data (jos j) (sg_file ?s)),
             cj_state := (if sg_size ?s = cs_Size (jb_Spec (ch_job c)) then CopyReady else CopyPreparing)\<rparr>) (jdb j) = Inr ((), d)"
      "j' = j\<lparr>jdb := d\<rparr>"
    by (cases rule: tx_cases) auto
  show ?thesis
    by (rule upd_copy_row [OF assms(1) d(1)]) (use that d(2) in auto)
qed

text \<open>
  Reopening succeeds when the row is readable and the file still starts with the recorded bytes.
\<close>

lemma verify_copy_succeeds:
  assumes "calm env" "filepath_abs (jos j) p = Some p" "map_of (os_names (jos j)) p = Some (i, KReg)"
    and "0 \<le> jb_Checkpoint job" "jb_Checkpoint job \<le> int (length (os_data (jos j) i))"
    and "digest env HashCRC32C (take (nat (jb_Checkpoint job)) (os_data (jos j) i)) = jb_CRC32C job"
    and "jb_State job = CopyReady \<Longrightarrow> int (length (os_data (jos j) i)) = jb_Checkpoint job"
  shows "\<exists>s j'. verify_copy env j p job = (Inr s, j') \<and> sg_file s = i"
proof -
  let ?d = "os_data (jos j) i" and ?cp = "jb_Checkpoint job" and ?w = "withCRC (jb_Want job)"
  have loop: "prefix_loop ?d (nat ?cp) 0 (new_full ?w) (new_prefix ?w) =
      Some (full_after ?w (take (nat ?cp) ?d), prefix_after ?w (take (nat ?cp) ?d))"
    using prefix_loop_after [of 0 "nat ?cp" ?d ?w] assms(4,5) by (simp add: after_nil)
  have "os_lstat env (jos j) p = Inr (node_info (jos j) (i, KReg))" "os_open env (jos j) p = Inr i"
    using assms(1-3) follow_regular [OF assms(3)]
    by (simp_all add: os_lstat_def os_lookup_def os_open_def resolve_def)
  then show ?thesis
    using assms loop
    by (auto simp: verify_copy_def Let_def newStagingState_def node_info_def is_regular_def full_after_CRC)
qed

lemma copyPath_cong:
  "os_cwd (jos j) = os_cwd (jos j') \<Longrightarrow> jdir j = jdir j' \<Longrightarrow> copyPath env j uid = copyPath env j' uid"
  by (simp add: copyPath_def jabs_def filepath_abs_def)

lemma GetCopy_cong:
  assumes "os_cwd (jos j) = os_cwd (jos j')" "jdir j = jdir j'" "jdb j = jdb j'"
  shows "GetCopy env j uid = GetCopy env j' uid"
  unfolding GetCopy_def copyPath_cong [OF assms(1,2)] by (simp add: copy_query_def dbq_def assms(3) split: sum.split)

lemma openCopy_succeeds:
  assumes "calm env" "owner j" "uid \<notin> copyOpen j" "copyPath env j uid = Inr p"
    and "GetCopy env j uid = Inr job" "jb_State job = CopyReady \<or> jb_State job = CopyPreparing"
    and "map_of (os_names (jos j)) p = Some (i, KReg)"
    and "0 \<le> jb_Checkpoint job" "jb_Checkpoint job \<le> int (length (os_data (jos j) i))"
    and "digest env HashCRC32C (take (nat (jb_Checkpoint job)) (os_data (jos j) i)) = jb_CRC32C job"
    and "jb_State job = CopyReady \<Longrightarrow> int (length (os_data (jos j) i)) = jb_Checkpoint job"
  shows "\<exists>c j'. ResumeCopy env j uid = (Inr c, j') \<and> ch_job c = job \<and> sg_file (ch_staging c) = i"
proof -
  define j1 where "j1 = j\<lparr>copyOpen := insert uid (copyOpen j)\<rparr>"
  have same: "copyPath env j1 x = copyPath env j x" "GetCopy env j1 x = GetCopy env j x" for x
    by (rule copyPath_cong GetCopy_cong; simp add: j1_def)+
  have cl: "claimCopy j uid = (None, j1)" using assms(2,3) by (simp add: claimCopy_def j1_def)
  have "filepath_abs (jos j) p = Some p"
    using assms(4) filepath_abs_idem by (fastforce simp: copyPath_def jabs_def split: if_splits option.splits)
  then obtain s j2 where v: "verify_copy env j1 p job = (Inr s, j2)" "sg_file s = i"
    using verify_copy_succeeds [OF assms(1), of j1 p i job] assms(7-11) by (auto simp: j1_def)
  have st: "open_state copyResume job = Inr job" using assms(6) by (auto simp: open_state_def)
  have "open_prepare env j uid copyResume = (Inr (job, s), j2)"
    using cl st v(1) assms(4,5) by (simp add: open_prepare_def same)
  then show ?thesis using v(2) by (simp add: ResumeCopy_def openCopy_def open_finish_def)
qed

text \<open>
  C21. A checkpoint survives a crash. Suppose a checkpoint succeeded and the process then died,
  having written any further bytes that no checkpoint covers. Then the job can be resumed, without
  faults, and the resumed handle has exactly the checkpointed bytes, at the checkpointed offset.
  The hash's hexadecimal form is the documented behaviour of \<open>hash/crc32\<close> and \<open>encoding/hex\<close>.
\<close>

theorem checkpoint_survives_crash:
  assumes "db_inv (jdb j)" and "checkpoint env j c = (None, c', j1)"
    and "staging_ok (jos j) (ch_staging c)" and "HashCRC32C \<in> set (sg_want (ch_staging c))"
    and "copy_of (jdb j) uid = Some r" and "uid = jb_ID (ch_job c)" and "cj_spec r = jb_Spec (ch_job c)"
    and "CopySpec_validate (cj_spec r) = None" and "sg_size (ch_staging c) \<le> cs_Size (cj_spec r)"
    and "copyPath env2 j uid = Inr p" and "i = sg_file (ch_staging c)"
    and "map_of (os_names (jos j)) p = Some (i, KReg)" and "owner j" and "calm env2"
    and "digest env2 = digest env" and "\<And>bs. lower_hex8 (digest env HashCRC32C bs)"
    and "sg_size (ch_staging c) = cs_Size (cj_spec r) \<Longrightarrow> tail = []"
    and "j2 = j1\<lparr>jos := set_data i (os_data (jos j1) i @ tail) (jos j1), copyOpen := {}\<rparr>"
  shows "\<exists>c2 j3. ResumeCopy env2 j2 uid = (Inr c2, j3) \<and>
    os_data (jos j3) (sg_file (ch_staging c2)) = os_data (jos j) (sg_file (ch_staging c)) \<and>
    sg_size (ch_staging c2) = sg_size (ch_staging c) \<and> staging_ok (jos j3) (ch_staging c2)"
proof -
  let ?s = "ch_staging c" and ?d = "os_data (jos j) i"
  define st where "st = (if sg_size ?s = cs_Size (jb_Spec (ch_job c)) then CopyReady else CopyPreparing)"
  define q where "q = r\<lparr>cj_checkpoint := sg_size ?s, cj_crc32c := digest env HashCRC32C ?d, cj_state := st\<rparr>"
  have cp: "copy_of (jdb j1) uid = Some q" "jos j1 = jos j" "owner j1 = owner j" "jdir j1 = jdir j"
  proof -
    obtain x where "copy_of (jdb j) uid = Some x"
      "copy_of (jdb j1) uid = Some (x\<lparr>cj_checkpoint := sg_size ?s, cj_crc32c := digest env HashCRC32C ?d, cj_state := st\<rparr>)"
      "jos j1 = jos j" "owner j1 = owner j" "jdir j1 = jdir j"
      using checkpoint_ok [OF assms(1-4)] unfolding assms(6,11) st_def by metis
    then show "copy_of (jdb j1) uid = Some q" "jos j1 = jos j" "owner j1 = owner j" "jdir j1 = jdir j"
      using assms(5) by (simp_all add: q_def)
  qed
  have len: "sg_size ?s = int (length ?d)" using assms(3,11) by (simp add: staging_ok_def)
  let ?job = "job_of_row q"
  have job: "jb_Checkpoint ?job = int (length ?d)" "jb_CRC32C ?job = digest env HashCRC32C ?d" "jb_State ?job = st"
    "jb_Spec ?job = cj_spec r"
    by (simp_all add: job_of_row_def q_def len)
  have scan: "scanCopy ?job = Inr ?job"
    using assms(7-9,16) len unfolding scanCopy_def job by (auto simp: st_def)
  have j2: "jdb j2 = jdb j1" "os_names (jos j2) = os_names (jos j)" "os_data (jos j2) i = ?d @ tail"
    "owner j2" "copyOpen j2 = {}"
    using assms(13,18) cp by simp_all
  have path: "copyPath env2 j2 uid = Inr p"
    using assms(10,18) cp(2,4) copyPath_cong [of j2 j env2 uid] by simp
  have get: "GetCopy env2 j2 uid = Inr ?job"
    using path cp(1) scan assms(14) j2(1)
    by (simp add: GetCopy_def copy_query_def dbq_def sel_one_copyRows)
  have "\<exists>c2 j3. ResumeCopy env2 j2 uid = (Inr c2, j3) \<and> ch_job c2 = ?job \<and> sg_file (ch_staging c2) = i"
    using assms(14) j2(4) _ path get
  proof (rule openCopy_succeeds)
    show "uid \<notin> copyOpen j2" by (simp add: j2)
    show "jb_State ?job = CopyReady \<or> jb_State ?job = CopyPreparing" unfolding job by (simp add: st_def)
    show "map_of (os_names (jos j2)) p = Some (i, KReg)" using assms(12) j2(2) by simp
    show "digest env2 HashCRC32C (take (nat (jb_Checkpoint ?job)) (os_data (jos j2) i)) = jb_CRC32C ?job"
      unfolding job j2 by (simp add: assms(15))
    show "jb_State ?job = CopyReady \<Longrightarrow> int (length (os_data (jos j2) i)) = jb_Checkpoint ?job"
      unfolding job j2 using assms(7,17) by (auto simp: st_def split: if_splits)
  qed (simp_all add: job j2)
  then obtain c2 j3 where res: "ResumeCopy env2 j2 uid = (Inr c2, j3)" "ch_job c2 = ?job" "sg_file (ch_staging c2) = i"
    by blast
  note ex = openCopy_facts [OF res(1) [unfolded ResumeCopy_def]]
  show ?thesis
    using ex res job(1) j2(3) len assms(11) by (auto simp: Let_def)
qed

theorem checkpoint_survives_crash_witness:
  "\<exists>c j0 c' j1 c2 j3. openCopy copy_env (sample_copy_journal CopyPreparing []) sample_id copyResume = (Inr c, j0) \<and>
     checkpoint copy_env j0 c = (None, c', j1) \<and>
     ResumeCopy copy_env (j1\<lparr>jos := set_data 9 (os_data (jos j1) 9 @ []) (jos j1), copyOpen := {}\<rparr>) sample_id = (Inr c2, j3) \<and>
     sg_size (ch_staging c2) = sg_size (ch_staging c)"
proof -
  let ?j = "sample_copy_journal CopyPreparing []"
  let ?o = "openCopy copy_env ?j sample_id copyResume"
  have "\<not> isl (fst ?o)" by code_simp
  then obtain c j0 where o: "?o = (Inr c, j0)" using not_islD by metis
  have "fst (checkpoint copy_env (snd ?o) (projr (fst ?o))) = None" by code_simp
  then have "fst (checkpoint copy_env j0 c) = None" using o by simp
  then obtain c' j1 where k: "checkpoint copy_env j0 c = (None, c', j1)" by (metis prod.collapse)
  have inv: "db_inv (jdb j0)" using openCopy_inv [OF sample_copy_inv, of copy_env CopyPreparing "[]" sample_id copyResume] o by simp
  have ok: "staging_ok (jos j0) (ch_staging c)" using openCopy_facts [OF o] by simp
  have want: "HashCRC32C \<in> set (sg_want (ch_staging c))"
  proof -
    have "HashCRC32C \<in> set (sg_want (ch_staging (projr (fst ?o))))" by code_simp
    then show ?thesis using o by simp
  qed
  have row: "copy_of (jdb j0) sample_id = Some (copy_row_of (sample_job CopyPreparing))"
  proof -
    have "copy_of (jdb (snd ?o)) sample_id = Some (copy_row_of (sample_job CopyPreparing))" by code_simp
    then show ?thesis using o by simp
  qed
  have h: "sample_id = jb_ID (ch_job (projr (fst ?o)))"
    "cj_spec (copy_row_of (sample_job CopyPreparing)) = jb_Spec (ch_job (projr (fst ?o)))"
    "sg_size (ch_staging (projr (fst ?o))) \<le> cs_Size (cj_spec (copy_row_of (sample_job CopyPreparing)))"
    "copyPath copy_env (snd ?o) sample_id = Inr sample_copy_path" "9 = sg_file (ch_staging (projr (fst ?o)))"
    "map_of (os_names (jos (snd ?o))) sample_copy_path = Some (9, KReg)" "owner (snd ?o)"
    by code_simp+
  have val: "CopySpec_validate (cj_spec (copy_row_of (sample_job CopyPreparing))) = None" by code_simp
  have hex: "lower_hex8 (digest copy_env HashCRC32C bs)" for bs by (simp add: copy_env_def sample_env_def lower_hex8_def)
  define j2 where "j2 = j1\<lparr>jos := set_data 9 (os_data (jos j1) 9 @ []) (jos j1), copyOpen := {}\<rparr>"
  have "\<exists>c2 j3. ResumeCopy copy_env j2 sample_id = (Inr c2, j3) \<and>
    os_data (jos j3) (sg_file (ch_staging c2)) = os_data (jos j0) (sg_file (ch_staging c)) \<and>
    sg_size (ch_staging c2) = sg_size (ch_staging c) \<and> staging_ok (jos j3) (ch_staging c2)"
  proof (rule checkpoint_survives_crash)
    show "db_inv (jdb j0)" by (rule inv)
    show "checkpoint copy_env j0 c = (None, c', j1)" by (rule k)
    show "staging_ok (jos j0) (ch_staging c)" by (rule ok)
    show "HashCRC32C \<in> set (sg_want (ch_staging c))" by (rule want)
    show "copy_of (jdb j0) sample_id = Some (copy_row_of (sample_job CopyPreparing))" by (rule row)
    show "sample_id = jb_ID (ch_job c)" using h(1) o by simp
    show "cj_spec (copy_row_of (sample_job CopyPreparing)) = jb_Spec (ch_job c)" using h(2) o by simp
    show "CopySpec_validate (cj_spec (copy_row_of (sample_job CopyPreparing))) = None" by (rule val)
    show "sg_size (ch_staging c) \<le> cs_Size (cj_spec (copy_row_of (sample_job CopyPreparing)))" using h(3) o by simp
    show "copyPath copy_env j0 sample_id = Inr sample_copy_path" using h(4) o by simp
    show "9 = sg_file (ch_staging c)" using h(5) o by simp
    show "map_of (os_names (jos j0)) sample_copy_path = Some (9, KReg)" using h(6) o by simp
    show "owner j0" using h(7) o by simp
    show "calm copy_env" by (rule copy_env_calm)
    show "digest copy_env = digest copy_env" by (rule refl)
    show "lower_hex8 (digest copy_env HashCRC32C bs)" for bs by (rule hex)
    show "[] = ([] :: byte list)" by (rule refl)
    show "j2 = j1\<lparr>jos := set_data 9 (os_data (jos j1) 9 @ []) (jos j1), copyOpen := {}\<rparr>" by (rule j2_def)
  qed
  then show ?thesis using o k unfolding j2_def by blast
qed

section \<open>Cleanup\<close>

lemma copy_unlink_fs:
  assumes "filepath_abs fs p = Some p"
  shows "snd (copy_unlink env dur p fs) = fs \<or> snd (copy_unlink env dur p fs) = del_name p fs"
    and "fst (copy_unlink env dur p fs) = None \<Longrightarrow> map_of (os_names (snd (copy_unlink env dur p fs))) p = None"
proof -
  have rm: "os_remove env fs p = (Some EIO, fs) \<or> os_remove env fs p = (Some ENOENT, fs) \<and> map_of (os_names fs) p = None \<or>
      os_remove env fs p = (None, del_name p fs)"
    using assms by (auto simp: os_remove_def split: option.splits)
  then show "snd (copy_unlink env dur p fs) = fs \<or> snd (copy_unlink env dur p fs) = del_name p fs"
    by (auto simp: copy_unlink_def Let_def split: sum.split option.split oserr.split)
  show "fst (copy_unlink env dur p fs) = None \<Longrightarrow> map_of (os_names (snd (copy_unlink env dur p fs))) p = None"
    using rm by (auto simp: copy_unlink_def Let_def split: sum.splits option.splits oserr.splits if_splits)
qed

lemma copyPath_abs: "copyPath env j uid = Inr p \<Longrightarrow> filepath_abs (jos j') p = Some p"
  using filepath_abs_idem by (fastforce simp: copyPath_def jabs_def split: if_splits option.splits)

lemma payload_del_name:
  assumes "filepath_abs fs (r_blob_path r) = Some (r_blob_path r)" "map_of (os_names fs) (r_blob_path r) = Some (i, KReg)"
    "r_blob_path r \<noteq> p"
  shows "payload (del_name p fs) r = payload fs r"
  using assms follow_regular [of fs "r_blob_path r" i] follow_regular [of "del_name p fs" "r_blob_path r" i]
  by (simp add: payload_def resolve_def)

text \<open>
  C22. Cleaning up a copy job takes its own name and nothing else. A failing \<open>FinishCopyCleanup\<close>
  leaves all tables as they were, so it can be repeated; a successful one removes exactly the
  cleanup intent, and the private name is gone from disk. Either way no other name of the file
  system changes, and every upload with a canonical path to a regular file keeps its payload.
\<close>

theorem FinishCopyCleanup_outcome:
  assumes "FinishCopyCleanup env j uid = (res, j')"
  shows "(isl res \<longrightarrow> jdb j' = jdb j) \<and>
    (\<not> isl res \<longrightarrow> (\<exists>p. copyPath env j uid = Inr p \<and> map_of (os_names (jos j')) p = None) \<and>
       jdb j' = (jdb j)\<lparr>copy_cleanup := del_where (\<lambda>c. cc_id c = uid) (copy_cleanup (jdb j))\<rparr>) \<and>
    (\<forall>q. copyPath env j uid \<noteq> Inr q \<longrightarrow> map_of (os_names (jos j')) q = map_of (os_names (jos j)) q) \<and>
    os_data (jos j') = os_data (jos j) \<and>
    (\<forall>r \<in> set (uploads (jdb j)). \<forall>i. filepath_abs (jos j) (r_blob_path r) = Some (r_blob_path r) \<and>
       map_of (os_names (jos j)) (r_blob_path r) = Some (i, KReg) \<longrightarrow> payload (jos j') r = payload (jos j) r)"
proof (cases "copyPath env j uid")
  case (Inl e)
  then show ?thesis using assms by (auto simp: FinishCopyCleanup_def)
next
  case (Inr p)
  show ?thesis
  proof (cases "claimCopy j uid")
    case (Pair err j1)
    show ?thesis
    proof (cases err)
      case (Some e)
      then have "j1 = j" using Pair by (auto simp: claimCopy_def split: if_splits)
      then show ?thesis using assms Inr Pair Some by (auto simp: FinishCopyCleanup_def with_copy_def)
    next
      case None
      let ?fn = "finish_copy_cleanup_tx env (durability j) uid p"
      have j1: "jdb j1 = jdb j" "jos j1 = jos j" using Pair None by (auto simp: claimCopy_def split: if_splits)
      have res: "res = fst (txf env ?fn j1)" and j': "jdb j' = jdb (snd (txf env ?fn j1))" "jos j' = jos (snd (txf env ?fn j1))"
        using assms Inr Pair None
        by (auto simp: FinishCopyCleanup_def with_copy_def case_prod_beta Let_def releaseCopy_def)
      note un = copy_unlink_fs [OF copyPath_abs [OF Inr, of j], of env "durability j"]
      have db: "isl res \<longrightarrow> jdb j' = jdb j"
        "\<not> isl res \<longrightarrow> jdb j' = (jdb j)\<lparr>copy_cleanup := del_where (\<lambda>c. cc_id c = uid) (copy_cleanup (jdb j))\<rparr> \<and>
           map_of (os_names (jos j')) p = None"
        unfolding res j' using un(2)
        by (auto simp: txf_def finish_copy_cleanup_tx_def j1 split: option.splits prod.splits sum.splits)
      have fs: "jos j' = jos j \<or> jos j' = del_name p (jos j) \<and> (\<forall>r \<in> set (uploads (jdb j)). r_blob_path r \<noteq> p)"
        unfolding j' using un(1)
        by (auto simp: txf_def finish_copy_cleanup_tx_def j1 copyUploadsAbsent_def split: option.splits prod.splits sum.splits if_splits)
      then have "payload (jos j') r = payload (jos j) r"
        if "r \<in> set (uploads (jdb j))" "filepath_abs (jos j) (r_blob_path r) = Some (r_blob_path r)"
          "map_of (os_names (jos j)) (r_blob_path r) = Some (i, KReg)" for r i
        using payload_del_name [OF that(2,3), of p] that(1) by auto
      moreover have "map_of (os_names (jos j')) q = map_of (os_names (jos j)) q" if "p \<noteq> q" for q
        using fs that by auto
      moreover have "os_data (jos j') = os_data (jos j)" using fs by auto
      ultimately show ?thesis using db Inr by auto
    qed
  qed
qed

definition sample_cleanup_journal :: Journal where
  "sample_cleanup_journal = snd (BeginCopyCleanup copy_env (sample_copy_journal CopyFailed [1, 2]) sample_id)"

theorem FinishCopyCleanup_outcome_witness:
  "\<exists>j'. FinishCopyCleanup copy_env sample_cleanup_journal sample_id = (Inr (), j') \<and>
     jdb j' = (jdb sample_cleanup_journal)\<lparr>copy_cleanup := del_where (\<lambda>c. cc_id c = sample_id)
       (copy_cleanup (jdb sample_cleanup_journal))\<rparr> \<and>
     length (copy_cleanup (jdb sample_cleanup_journal)) = 1"
proof -
  have "\<not> isl (fst (FinishCopyCleanup copy_env sample_cleanup_journal sample_id))" by code_simp
  then obtain v j' where f: "FinishCopyCleanup copy_env sample_cleanup_journal sample_id = (Inr v, j')"
    using not_islD by metis
  have "length (copy_cleanup (jdb sample_cleanup_journal)) = 1" by code_simp
  then show ?thesis using FinishCopyCleanup_outcome [OF f] f by auto
qed

section \<open>Paging through the jobs\<close>

text \<open>
  The rows of both tables in the order of their ids. They are readable, and no id is in both
  tables; the paging laws then hold for \<open>ListCopyJobs\<close> as they do for the uploads.
\<close>

definition copy_list :: "jdb \<Rightarrow> CopyJob list" where
  "copy_list d = sort_key jb_ID (copyRowsSQL d)"

definition copy_listable :: "env \<Rightarrow> Journal \<Rightarrow> bool" where
  "copy_listable env j \<longleftrightarrow>
     db_inv (jdb j) \<and> (\<forall>n. dbf env n = DBOk) \<and> \<not> uuid_ok env [] \<and>
     (\<forall>c \<in> set (copyRowsSQL (jdb j)). scanCopy c = Inr c \<and> \<not> isl (copyPath env j (jb_ID c))) \<and>
     cj_id ` set (copy_jobs (jdb j)) \<inter> cc_id ` set (copy_cleanup (jdb j)) = {}"

definition copy_page :: "env \<times> Journal \<Rightarrow> nat \<Rightarrow> string \<Rightarrow> CopyJob list \<times> string" where
  "copy_page q limit cursor =
     (let (env, j) = q in
      page_of jb_ID limit (sort_key jb_ID (sel_where (\<lambda>c. cursor < jb_ID c) (copyRowsSQL (jdb j)))))"

lemma scan_rows_all:
  assumes "\<forall>c \<in> set cs. scanCopy c = Inr c \<and> \<not> isl (copyPath env j (jb_ID c))"
  shows "scan_rows env j cs = Inr cs"
  using assms by (induction cs) (auto split: sum.split)

lemma copy_ids_distinct:
  assumes "copy_listable env j"
  shows "distinct (map jb_ID (copyRowsSQL (jdb j)))"
proof -
  have "map jb_ID (copyRowsSQL d) = map cj_id (copy_jobs d) @ map cc_id (copy_cleanup d)" for d
    by (simp add: copyRowsSQL_def job_of_row_def job_of_cleanup_def)
  then show ?thesis using assms by (simp add: copy_listable_def db_inv_def copy_inv_def)
qed

lemma copy_list_sorted:
  assumes "copy_listable env j"
  shows "sorted_wrt (<) (map jb_ID (copy_list (jdb j)))"
proof -
  have "distinct (map jb_ID (copy_list (jdb j)))"
    using copy_ids_distinct [OF assms] by (simp add: copy_list_def distinct_map)
  then show ?thesis by (simp add: copy_list_def strict_sorted_iff)
qed

lemma copy_ids_nonempty:
  assumes "copy_listable env j" "c \<in> set (copy_list (jdb j))"
  shows "jb_ID c \<noteq> []"
  using assms by (force simp: copy_listable_def copy_list_def copyPath_def)

interpretation copy_paging: cursor_paging "\<lambda>(env, j). copy_listable env j" "\<lambda>(env, j). copy_list (jdb j)" jb_ID copy_page
proof (unfold_locales, goal_cases)
  case (1 q)
  then show ?case using copy_list_sorted by (cases q) simp
next
  case (2 q r)
  then show ?case using copy_ids_nonempty by (cases q) simp
next
  case (3 q limit cursor)
  show ?case by (cases q) (simp add: copy_page_def copy_list_def sel_where_def filter_sort)
qed

lemma ListCopyJobs_page:
  assumes "copy_listable env j" "1 \<le> limit" "limit \<le> 1000" "cursor = [] \<or> \<not> isl (copyPath env j cursor)"
  shows "ListCopyJobs env j cursor limit = Inr (copy_page (env, j) (nat limit) cursor)"
proof -
  let ?rs = "sort_key jb_ID (sel_where (\<lambda>c. cursor < jb_ID c) (copyRowsSQL (jdb j)))"
  have "scan_rows env j (take n ?rs) = Inr (take n ?rs)" for n
    using assms(1) by (intro scan_rows_all) (auto simp: copy_listable_def sel_where_def dest!: in_set_takeD)
  then have q: "copy_query env (\<lambda>d. scan_rows env j (take (nat limit + 1)
      (sort_key jb_ID (sel_where (\<lambda>c. cursor < jb_ID c) (copyRowsSQL d))))) j = Inr (take (nat limit + 1) ?rs)"
    using assms(1) by (simp add: copy_query_def dbq_def copy_listable_def)
  have cur: "\<exists>p. (if cursor = [] then Inr [] else copyPath env j cursor) = Inr p"
    using assms(4) by (cases "copyPath env j cursor") auto
  have "1 \<le> nat limit" using assms(2) by simp
  then have "length (take (nat limit + 1) ?rs) > nat limit \<longleftrightarrow> length ?rs > nat limit"
    "take (nat limit) (take (nat limit + 1) ?rs) = take (nat limit) ?rs"
    "take (nat limit + 1) ?rs ! (nat limit - 1) = ?rs ! (nat limit - 1)"
    "length ?rs \<le> nat limit \<Longrightarrow> take (nat limit + 1) ?rs = ?rs"
    by (auto simp: min_def)
  then show ?thesis
    using assms(2,3) cur q
    by (auto simp: ListCopyJobs_def copy_page_def page_of_def simp del: length_take length_sort take_take)
qed

text \<open>Two ways to page that agree on the cursors a scan can meet give the same scan.\<close>

lemma scan_cong:
  assumes "\<And>c. c \<in> S \<Longrightarrow> f c = g c" "\<And>c rs n. c \<in> S \<Longrightarrow> g c = Inr (rs, n) \<Longrightarrow> n \<noteq> [] \<Longrightarrow> n \<in> S" "cursor \<in> S"
  shows "scan f fuel cursor = scan g fuel cursor"
  using assms(3)
proof (induction fuel arbitrary: cursor)
  case (Suc fuel)
  then show ?case using assms(1) [OF Suc.prems] assms(2) [OF Suc.prems] by (auto split: sum.split)
qed simp

text \<open>
  C24. Paging through copy jobs ends and is complete. When the stored rows are readable and no id is in both
  tables, a client that follows the cursor of \<open>ListCopyJobs\<close> with any legal page size over unchanged tables
  reaches the page without a further cursor after at most one call more than there are jobs, and has then seen every
  job, active, finished or being purged, exactly once and in the order of the ids.
\<close>

theorem ListCopyJobs_complete:
  assumes "copy_listable env j" and "1 \<le> limit" and "limit \<le> 1000"
  shows "scan (\<lambda>cursor. ListCopyJobs env j cursor limit) (Suc (length (copyRowsSQL (jdb j)))) [] =
      Some (Inr (sort_key jb_ID (copyRowsSQL (jdb j)))) \<and>
    distinct (map jb_ID (copyRowsSQL (jdb j)))"
proof
  let ?S = "insert [] (jb_ID ` set (copyRowsSQL (jdb j)))"
  have "scan (\<lambda>cursor. ListCopyJobs env j cursor limit) fuel [] =
      scan (\<lambda>c. Inr (copy_page (env, j) (nat limit) c)) fuel []" for fuel
  proof (rule scan_cong [where S = ?S])
    fix c assume c: "c \<in> ?S"
    have "c = [] \<or> \<not> isl (copyPath env j c)" using c assms(1) by (auto simp: copy_listable_def)
    then show "ListCopyJobs env j c limit = Inr (copy_page (env, j) (nat limit) c)"
      using ListCopyJobs_page [OF assms] by simp
    let ?rs = "sort_key jb_ID (sel_where (\<lambda>x. c < jb_ID x) (copyRowsSQL (jdb j)))"
    fix rs n assume "Inr (copy_page (env, j) (nat limit) c) = (Inr (rs, n) :: jerr + _)" "n \<noteq> []"
    then have n: "nat limit - 1 < length ?rs" "n = jb_ID (?rs ! (nat limit - 1))"
      by (auto simp: copy_page_def page_of_def split: if_splits)
    then show "n \<in> ?S"
      using nth_mem [OF n(1)] by (auto simp: sel_where_def)
  qed simp
  moreover have "scan (\<lambda>c. Inr (copy_page (env, j) (nat limit) c) :: jerr + _) (Suc (length (copy_list (jdb j)))) [] =
      Some (Inr (copy_list (jdb j)))"
    by (rule copy_paging.scan_complete [of "(env, j)" "nat limit", unfolded prod.case]) (use assms in simp_all)
  ultimately show "scan (\<lambda>cursor. ListCopyJobs env j cursor limit) (Suc (length (copyRowsSQL (jdb j)))) [] =
      Some (Inr (sort_key jb_ID (copyRowsSQL (jdb j))))"
    by (simp add: copy_list_def del: scan.simps)
  show "distinct (map jb_ID (copyRowsSQL (jdb j)))" by (rule copy_ids_distinct [OF assms(1)])
qed

theorem ListCopyJobs_complete_witness:
  "scan (\<lambda>cursor. ListCopyJobs copy_env (sample_copy_journal CopyReady []) cursor 1) 2 [] =
     Some (Inr [job_of_row (copy_row_of (sample_job CopyReady))])"
proof -
  let ?j = "sample_copy_journal CopyReady []" and ?c = "job_of_row (copy_row_of (sample_job CopyReady))"
  have rows: "copyRowsSQL (jdb ?j) = [?c]"
    by (simp add: copyRowsSQL_def sample_copy_journal_def empty_db_def)
  have "scanCopy ?c = Inr ?c \<and> \<not> isl (copyPath copy_env ?j (jb_ID ?c))" by code_simp
  then have "copy_listable copy_env ?j"
    unfolding copy_listable_def rows using sample_copy_inv [of CopyReady "[]"]
    by (simp add: copy_env_def sample_env_def sample_copy_journal_def empty_db_def)
  from ListCopyJobs_complete [OF this, of 1] show ?thesis unfolding rows by (simp add: eval_nat_numeral)
qed

section \<open>Server-side copies\<close>

text \<open>
  C23. At most one server-side copy per destination is unresolved. When \<open>BeginServerCopy\<close> returns
  an id, the destination had no intent before, \<open>ServerCopyAt\<close> now finds exactly the recorded
  specification, every further \<open>BeginServerCopy\<close> to that destination fails and changes nothing,
  and only finishing this very intent frees the destination again.
\<close>

theorem server_copy_reserved:
  assumes "db_inv (jdb j)" and "BeginServerCopy env uid j spec = (Inr x, j')" and "dbf env2 0 = DBOk"
  shows "ServerCopyAt env2 j (sv_TargetRemote spec) (sv_TargetParentID spec) (sv_TargetName spec) = Inr None \<and>
    ServerCopyAt env2 j' (sv_TargetRemote spec) (sv_TargetParentID spec) (sv_TargetName spec) =
      Inr (Some \<lparr>sy_ID = x, sy_Spec = spec, sy_LastError = []\<rparr>) \<and>
    (\<forall>env3 uid3 spec3. sv_TargetRemote spec3 = sv_TargetRemote spec \<and> sv_TargetParentID spec3 = sv_TargetParentID spec \<and>
       sv_TargetName spec3 = sv_TargetName spec \<longrightarrow> (\<exists>e. BeginServerCopy env3 uid3 j' spec3 = (Inl e, j'))) \<and>
    (\<forall>env3 y. ServerCopyAt env2 (snd (FinishServerCopy env3 j' y))
        (sv_TargetRemote spec) (sv_TargetParentID spec) (sv_TargetName spec) = Inr None \<longrightarrow> y = x)"
proof -
  let ?P = "\<lambda>c. sc_target_remote c = sv_TargetRemote spec \<and> sc_target_parent c = sv_TargetParentID spec \<and>
    sc_target_name c = sv_TargetName spec"
  define r where "r = \<lparr>sc_id = uid, sc_spec = spec, sc_target_remote = sv_TargetRemote spec,
    sc_target_parent = sv_TargetParentID spec, sc_target_name = sv_TargetName spec, sc_last_error = []\<rparr>"
  have "tx env (begin_server_copy_tx uid spec) j = (Inr x, j')"
    using assms(2) by (auto simp: BeginServerCopy_def split: option.splits)
  then obtain d where d: "begin_server_copy_tx uid spec (jdb j) = Inr (x, d)" "j' = j\<lparr>jdb := d\<rparr>"
    by (cases rule: tx_cases) auto
  then have x: "x = uid" and free: "\<forall>c \<in> set (server_copies (jdb j)). \<not> ?P c"
      and d': "d = (jdb j)\<lparr>server_copies := server_copies (jdb j) @ [r]\<rparr>"
    by (auto simp: begin_server_copy_tx_def r_def split: if_splits)
  have none: "sel_one ?P (server_copies (jdb j)) = None" using free by (simp add: sel_one_None_iff)
  have "ServerCopyAt env2 j (sv_TargetRemote spec) (sv_TargetParentID spec) (sv_TargetName spec) = Inr None"
    using assms(3) none by (simp add: ServerCopyAt_def dbq_def)
  moreover have "ServerCopyAt env2 j' (sv_TargetRemote spec) (sv_TargetParentID spec) (sv_TargetName spec) =
      Inr (Some \<lparr>sy_ID = x, sy_Spec = spec, sy_LastError = []\<rparr>)"
    using assms(3) none d(2) d' x by (simp add: ServerCopyAt_def dbq_def sel_one_append server_copy_of_def r_def)
  moreover have "\<exists>e. BeginServerCopy env3 uid3 j' spec3 = (Inl e, j')"
    if "sv_TargetRemote spec3 = sv_TargetRemote spec" "sv_TargetParentID spec3 = sv_TargetParentID spec"
      "sv_TargetName spec3 = sv_TargetName spec" for env3 uid3 spec3
  proof -
    have "begin_server_copy_tx uid3 spec3 (jdb j') = Inl ErrServerCopyBusy"
      using that d(2) d' by (simp add: begin_server_copy_tx_def r_def)
    then show ?thesis using tx_Inl by (fastforce simp: BeginServerCopy_def split: option.split)
  qed
  moreover have "y = x" if gone: "ServerCopyAt env2 (snd (FinishServerCopy env3 j' y))
      (sv_TargetRemote spec) (sv_TargetParentID spec) (sv_TargetName spec) = Inr None" for env3 y
  proof (rule ccontr)
    assume "y \<noteq> x"
    then have "r \<in> set (server_copies (jdb (snd (FinishServerCopy env3 j' y))))"
      using d(2) d' x by (auto simp: FinishServerCopy_def tx_def del_where_def r_def)
    then show False
      using gone assms(3) by (auto simp: ServerCopyAt_def dbq_def sel_one_None_iff r_def)
  qed
  ultimately show ?thesis by blast
qed

definition sample_server_spec :: ServerCopySpec where
  "sample_server_spec = \<lparr>sv_MetaIdentity = ''m'', sv_TargetMount = [], sv_TargetRootID = [], sv_TargetAccountBinding = [],
     sv_SourcePath = ''/a'', sv_SourceRemote = ''r'', sv_SourceID = ''i'', sv_SourceVersion = [], sv_Size = 1,
     sv_TargetPath = ''/b'', sv_TargetRemote = ''r'', sv_TargetParentID = ''p'', sv_TargetParentIno = 2, sv_TargetName = ''b''\<rparr>"

theorem server_copy_reserved_witness:
  "\<exists>j'. BeginServerCopy copy_env ''q'' (sample_journal []) sample_server_spec = (Inr ''q'', j') \<and>
     ServerCopyAt copy_env j' ''r'' ''p'' ''b'' = Inr (Some \<lparr>sy_ID = ''q'', sy_Spec = sample_server_spec, sy_LastError = []\<rparr>)"
proof -
  have "\<not> isl (fst (BeginServerCopy copy_env ''q'' (sample_journal []) sample_server_spec))"
    "fst (BeginServerCopy copy_env ''q'' (sample_journal []) sample_server_spec) = Inr ''q''" by code_simp+
  then obtain j' where b: "BeginServerCopy copy_env ''q'' (sample_journal []) sample_server_spec = (Inr ''q'', j')"
    by (metis prod.collapse)
  have inv: "db_inv (jdb (sample_journal []))" by (rule sample_inv) simp_all
  have db: "dbf copy_env 0 = DBOk" by (simp add: copy_env_def sample_env_def)
  show ?thesis using server_copy_reserved [OF inv b db] b by (simp add: sample_server_spec_def)
qed

end
