(* ===== verification/GoStrconv.thy ===== *)
theory GoStrconv
  imports GoStd
begin

text \<open>
  \<open>strconv.FormatInt\<close> and \<open>strconv.ParseInt\<close> in base 10 for 64 bits, and that they are inverse.
\<close>

definition digit :: "nat \<Rightarrow> char" where
  "digit n = char_of (48 + n)"

fun nat_digits :: "nat \<Rightarrow> string" where
  "nat_digits n = (if n < 10 then [digit n] else nat_digits (n div 10) @ [digit (n mod 10)])"

declare nat_digits.simps [simp del]

definition FormatInt :: "int \<Rightarrow> string" where
  "FormatInt i = (if i < 0 then CHR ''-'' # nat_digits (nat (- i)) else nat_digits (nat i))"

definition is_digit :: "char \<Rightarrow> bool" where
  "is_digit c \<longleftrightarrow> 48 \<le> (of_char c :: nat) \<and> (of_char c :: nat) \<le> 57"

definition digits_value :: "string \<Rightarrow> nat" where
  "digits_value s = foldl (\<lambda>a c. 10 * a + (of_char c - 48)) 0 s"

text \<open>
  The value with its error dropped, as \<open>n, _ := strconv.ParseInt(s, 10, 64)\<close> gives it: 0 for a
  syntax error and the nearest bound for a number out of range.
\<close>

definition ParseInt64 :: "string \<Rightarrow> int" where
  "ParseInt64 s =
     (let neg = (s \<noteq> [] \<and> hd s = CHR ''-'');
          body = (if s \<noteq> [] \<and> (hd s = CHR ''-'' \<or> hd s = CHR ''+'') then tl s else s) in
      if body = [] \<or> \<not> list_all is_digit body then 0
      else
        (let v = int (digits_value body) in
         if neg then max (- v) (- 9223372036854775808) else min v 9223372036854775807))"

lemma of_char_digit [simp]: "n < 10 \<Longrightarrow> of_char (digit n) = 48 + n"
  by (simp add: digit_def)

lemma is_digit_digit [simp]: "n < 10 \<Longrightarrow> is_digit (digit n)"
  by (simp add: is_digit_def)

lemma nat_digits_ok: "nat_digits n \<noteq> [] \<and> list_all is_digit (nat_digits n) \<and> digits_value (nat_digits n) = n"
proof (induction n rule: nat_digits.induct)
  case (1 n)
  show ?case
  proof (cases "n < 10")
    case True
    then show ?thesis by (simp add: digits_value_def nat_digits.simps [of n])
  next
    case False
    then have IH: "nat_digits (n div 10) \<noteq> []" "list_all is_digit (nat_digits (n div 10))"
      "digits_value (nat_digits (n div 10)) = n div 10" using 1 by simp_all
    have "nat_digits n = nat_digits (n div 10) @ [digit (n mod 10)]" using False by (simp add: nat_digits.simps [of n])
    then show ?thesis using IH by (simp add: digits_value_def)
  qed
qed

lemma digit_not_sign: "is_digit c \<Longrightarrow> c \<noteq> CHR ''-'' \<and> c \<noteq> CHR ''+''"
  by (auto simp: is_digit_def)

lemma Parse_Format:
  assumes "- 9223372036854775808 \<le> i" "i \<le> 9223372036854775807"
  shows "ParseInt64 (FormatInt i) = i"
proof -
  have h: "hd (nat_digits n) \<noteq> CHR ''-'' \<and> hd (nat_digits n) \<noteq> CHR ''+''" for n
    using nat_digits_ok [of n] digit_not_sign by (cases "nat_digits n") auto
  show ?thesis
    using assms h [of "nat i"] nat_digits_ok [of "nat i"] nat_digits_ok [of "nat (- i)"]
    by (auto simp: ParseInt64_def FormatInt_def Let_def)
qed

end
