(* ===== verification/JournalRecover.thy ===== *)
theory JournalRecover
  imports CopyOutcomes GoStrconv
begin

text \<open>
  Restart: \<open>Recover\<close> and \<open>verifyBlob\<close> of \<open>journal.go\<close>, \<open>copy_recovery.go\<close> and \<open>orphans.go\<close>. Rows that
  were in flight go back to the queue or, when their payload is gone, to the dead letters; then
  the files that no row names are swept from the staging, copies and objects directories.
\<close>

section \<open>Model\<close>

record Recovery =
  rv_Requeued :: "string list"
  rv_Lost :: "string list"
  rv_OrphanStaging :: "string list"
  rv_Skipped :: bool

definition empty_recovery :: Recovery where
  "empty_recovery = \<lparr>rv_Requeued = [], rv_Lost = [], rv_OrphanStaging = [], rv_Skipped = False\<rparr>"

text \<open>
  The cause for which a row's payload is refused, if any; the operating system's own words at its end
  are left out.
\<close>

definition verifyBlob :: "env \<Rightarrow> Journal \<Rightarrow> Upload \<Rightarrow> string option" where
  "verifyBlob env j u =
     (case os_stat env (jos j) (u_BlobPath u) of
        Inl e \<Rightarrow> Some (''blob missing after restart: '' @ u_BlobPath u)
      | Inr info \<Rightarrow>
          if fi_size info \<noteq> u_Size u then
            Some (''blob truncated after restart: '' @ FormatInt (fi_size info) @ '' of '' @ FormatInt (u_Size u) @
              '' bytes on disk'')
          else if durability j \<noteq> DurabilityCrash then None
          else
            (case u_Hashes u HashCRC32C of
               None \<Rightarrow> None
             | Some want \<Rightarrow>
                 if want = [] then None
                 else
                   (case os_open env (jos j) (u_BlobPath u) of
                      Inl e \<Rightarrow> Some ''blob unreadable after restart''
                    | Inr f \<Rightarrow>
                        (case crc32cOf env (jos j) f (u_BlobPath u) of
                           Inl e \<Rightarrow> Some ''blob unreadable after restart''
                         | Inr got \<Rightarrow>
                             if got \<noteq> want then
                               Some (''blob corrupt after restart: crc32c '' @ got @ '', expected '' @ want @
                                 '' (torn by a power loss?)'')
                             else None))))"

text \<open>The first loop: cancellations that no transfer will acknowledge any more.\<close>

fun recover_cancels :: "env \<Rightarrow> Upload list \<Rightarrow> Journal \<Rightarrow> jerr option \<times> env \<times> Journal" where
  "recover_cancels env [] j = (None, env, j)"
| "recover_cancels env (u # us) j =
     (if u_State u = StateCancelling then
        (case FinishCancel env j (u_ID u) of
           (Inl e, j') \<Rightarrow> (Some e, env, j')
         | (Inr _, j') \<Rightarrow> recover_cancels (after 1 env) us j')
      else recover_cancels env us j)"

definition live_names :: "Upload list \<Rightarrow> string set" where
  "live_names us = (\<lambda>u. path_base (u_BlobPath u)) ` {u \<in> set us. u_BlobPath u \<noteq> []}"

fun copy_paths :: "env \<Rightarrow> Journal \<Rightarrow> CopyJob list \<Rightarrow> jerr + string list" where
  "copy_paths env j [] = Inr []"
| "copy_paths env j (c # cs) =
     (if jb_State c = CopySubmitted then copy_paths env j cs
      else
        (case copyPath env j (jb_ID c) of
           Inl e \<Rightarrow> Inl e
         | Inr p \<Rightarrow> (case copy_paths env j cs of Inl e \<Rightarrow> Inl e | Inr ps \<Rightarrow> Inr (p # ps))))"

definition copyRetention :: "env \<Rightarrow> Journal \<Rightarrow> Upload list \<Rightarrow> jerr + string set" where
  "copyRetention env j us =
     (case CopyJobs_all env j of
        Inl e \<Rightarrow> Inl e
      | Inr jobs \<Rightarrow>
          (case copy_paths env j jobs of
             Inl e \<Rightarrow> Inl e
           | Inr ps \<Rightarrow> Inr (set ps \<union> u_BlobPath ` set us)))"

text \<open>The second loop: rows that were pending or in flight.\<close>

definition interrupted_msg :: string where
  "interrupted_msg = ''interrupted by restart''"

fun recover_rows :: "env \<Rightarrow> Upload list \<Rightarrow> Recovery \<Rightarrow> Journal \<Rightarrow> jerr option \<times> env \<times> Recovery \<times> Journal" where
  "recover_rows env [] rec j = (None, env, rec, j)"
| "recover_rows env (u # us) rec j =
     (case verifyBlob env j u of
        Some cause \<Rightarrow>
          (case Fail env j (u_ID u) (Some cause) of
             (Inl e, j') \<Rightarrow> (Some e, env, rec, j')
           | (Inr _, j') \<Rightarrow> recover_rows (after 1 env) us (rec\<lparr>rv_Lost := rv_Lost rec @ [u_ID u]\<rparr>) j')
      | None \<Rightarrow>
          if u_State u = StateUploading then
            (case RetryUpload env j (u_ID u) (Some interrupted_msg) 0 of
               (Inl e, j') \<Rightarrow> (Some e, env, rec, j')
             | (Inr _, j') \<Rightarrow> recover_rows (after 1 env) us (rec\<lparr>rv_Requeued := rv_Requeued rec @ [u_ID u]\<rparr>) j')
          else recover_rows env us rec j)"

text \<open>A directory to sweep; one that does not exist is empty.\<close>

definition sweep_entries :: "env \<Rightarrow> osfs \<Rightarrow> string \<Rightarrow> oserr + (string \<times> fnode) list" where
  "sweep_entries env fs dir =
     (case os_readdir env fs dir of
        Inl ENOENT \<Rightarrow> Inr []
      | Inl e \<Rightarrow> Inl e
      | Inr es \<Rightarrow> Inr es)"

text \<open>
  Removal of the entries of a directory that are neither directories nor kept. A failed removal is
  passed over; the names that went away are reported.
\<close>

fun sweep :: "env \<Rightarrow> string \<Rightarrow> string set \<Rightarrow> (string \<times> fnode) list \<Rightarrow> osfs \<Rightarrow> string list \<times> osfs" where
  "sweep env dir keep [] fs = ([], fs)"
| "sweep env dir keep ((name, n) # es) fs =
     (if snd n = KDir \<or> name \<in> keep then sweep env dir keep es fs
      else
        (case os_remove env fs (path_join [dir, name]) of
           (None, fs') \<Rightarrow> (let (gone, fs'') = sweep env dir keep es fs' in (name # gone, fs''))
         | (Some e, fs') \<Rightarrow> sweep env dir keep es fs'))"

text \<open>The copies directory is swept by full path, and a failed removal ends the sweep.\<close>

fun clean_copies :: "env \<Rightarrow> string \<Rightarrow> string set \<Rightarrow> (string \<times> fnode) list \<Rightarrow> osfs \<Rightarrow> jerr option \<times> osfs" where
  "clean_copies env dir live [] fs = (None, fs)"
| "clean_copies env dir live ((name, n) # es) fs =
     (if snd n = KDir \<or> path_join [dir, name] \<in> live then clean_copies env dir live es fs
      else
        (case os_remove env fs (path_join [dir, name]) of
           (None, fs') \<Rightarrow> clean_copies env dir live es fs'
         | (Some e, fs') \<Rightarrow> (Some (EOs e), fs')))"

definition cleanCopyOrphans :: "env \<Rightarrow> Journal \<Rightarrow> string set \<Rightarrow> jerr option \<times> Journal" where
  "cleanCopyOrphans env j live =
     (case jabs j (path_join [jdir j, ''copies'']) of
        None \<Rightarrow> (Some (EOs EIO), j)
      | Some dir \<Rightarrow>
          (case os_readdir env (jos j) dir of
             Inl e \<Rightarrow> (Some (EOs e), j)
           | Inr es \<Rightarrow> (let (err, fs) = clean_copies env dir live es (jos j) in (err, j\<lparr>jos := fs\<rparr>))))"

text \<open>Everything of \<open>Recover\<close> that changes files, once the rows are settled.\<close>

definition recover_files ::
  "env \<Rightarrow> Journal \<Rightarrow> string set \<Rightarrow> string set \<Rightarrow> Recovery \<Rightarrow> (jerr + Recovery) \<times> Journal" where
  "recover_files env j live copyLive rec =
     (case sweep_entries env (jos j) (StagingDir j) of
        Inl e \<Rightarrow> (Inl (EOs e), j)
      | Inr staged \<Rightarrow>
          (let (gone, fs1) = sweep env (StagingDir j) {} staged (jos j);
               rec' = rec\<lparr>rv_OrphanStaging := gone\<rparr>;
               (err, j2) = cleanCopyOrphans env (j\<lparr>jos := fs1\<rparr>) copyLive in
           case err of
             Some e \<Rightarrow> (Inl e, j2)
           | None \<Rightarrow>
               (case sweep_entries env (jos j2) (ObjectsDir j2) of
                  Inl e \<Rightarrow> (Inl (EOs e), j2)
                | Inr objs \<Rightarrow> (Inr rec', j2\<lparr>jos := snd (sweep env (ObjectsDir j2) live objs (jos j2))\<rparr>))))"

definition Recover :: "env \<Rightarrow> Journal \<Rightarrow> (jerr + Recovery) \<times> Journal" where
  "Recover env j =
     (if \<not> owner j then (Inr (empty_recovery\<lparr>rv_Skipped := True\<rparr>), j)
      else
        (case list_uploads env j id of
           Inl e \<Rightarrow> (Inl e, j)
         | Inr allu \<Rightarrow>
             (case recover_cancels (after 1 env) allu j of
                (Some e, _, j1) \<Rightarrow> (Inl e, j1)
              | (None, env1, j1) \<Rightarrow>
                  (case copyRetention env1 j1 allu of
                     Inl e \<Rightarrow> (Inl e, j1)
                   | Inr copyLive \<Rightarrow>
                       (case list_uploads (after 3 env1) j1
                              (sel_where (\<lambda>r. r_state r = StatePending \<or> r_state r = StateUploading)) of
                          Inl e \<Rightarrow> (Inl e, j1)
                        | Inr rows \<Rightarrow>
                            (case recover_rows (after 4 env1) rows empty_recovery j1 of
                               (Some e, _, _, j2) \<Rightarrow> (Inl e, j2)
                             | (None, env2, rec, j2) \<Rightarrow> recover_files env2 j2 (live_names allu) copyLive rec))))))"

section \<open>Orphans\<close>

text \<open>The payloads in a directory that nothing names: how many, and how many bytes.\<close>

definition orphans_in :: "env \<Rightarrow> Journal \<Rightarrow> string set \<Rightarrow> string set \<Rightarrow> string \<Rightarrow> oserr + (nat \<times> int)" where
  "orphans_in env j live copyLive dir =
     (case sweep_entries env (jos j) dir of
        Inl e \<Rightarrow> Inl e
      | Inr es \<Rightarrow>
          (let os = filter (\<lambda>(name, n). snd n \<noteq> KDir \<and> name \<notin> live \<and> path_join [dir, name] \<notin> copyLive \<and>
                 \<not> osfail env CLstat (path_join [dir, name])) es in
           Inr (length os, sum_list (map (\<lambda>(name, n). fi_size (node_info (jos j) n)) os))))"

definition OrphanObjects :: "env \<Rightarrow> Journal \<Rightarrow> jerr + (nat \<times> int)" where
  "OrphanObjects env j =
     (case list_uploads env j id of
        Inl e \<Rightarrow> Inl e
      | Inr allu \<Rightarrow>
          (case copyRetention (after 1 env) j allu of
             Inl e \<Rightarrow> Inl e
           | Inr copyLive \<Rightarrow>
               (case (orphans_in env j (live_names allu) copyLive (ObjectsDir j),
                      orphans_in env j (live_names allu) copyLive (CopiesDir j)) of
                  (Inr (n, b), Inr (m, c)) \<Rightarrow> Inr (n + m, b + c)
                | (Inl e, _) \<Rightarrow> Inl (EOs e)
                | (_, Inl e) \<Rightarrow> Inl (EOs e))))"

end
