(* ===== verification/RecoverProps.thy ===== *)
theory RecoverProps
  imports JournalRecover
begin

text \<open>
  A restart settles every row: what becomes of it depends on the check of its payload only, and the
  report names the lost and the requeued uploads.
\<close>

section \<open>Rows\<close>

text \<open>The same upload, up to where it is in the queue.\<close>

definition same_data :: "urow \<Rightarrow> urow \<Rightarrow> bool" where
  "same_data r r' \<longleftrightarrow>
     r' = r\<lparr>r_state := r_state r', r_attempt := r_attempt r', r_next_retry_at := r_next_retry_at r',
            r_last_error := r_last_error r'\<rparr>"

lemma same_data_fields:
  assumes "same_data r r'"
  shows "r_id r' = r_id r" "r_blob_path r' = r_blob_path r" "r_size r' = r_size r" "r_hashes r' = r_hashes r"
  by (subst assms [unfolded same_data_def], simp)+

text \<open>Where a row stands after a restart.\<close>

definition recovered_state :: "env \<Rightarrow> Journal \<Rightarrow> urow \<Rightarrow> State" where
  "recovered_state env j r =
     (if r_state r = StateCancelling then StateCancelled
      else if r_state r = StatePending \<or> r_state r = StateUploading then
        (if verifyBlob env j (scanUpload r) = None then StatePending else StateDead)
      else r_state r)"

lemma FinishCancel_row:
  assumes "FinishCancel env j uid = (Inr v, j')"
  shows "row_of (jdb j') x = map_option (\<lambda>r. if r_id r = uid \<and> r_state r = StateCancelling
      then r\<lparr>r_state := StateCancelled\<rparr> else r) (row_of (jdb j) x)"
    and "jos j' = jos j" "durability j' = durability j" "jdir j' = jdir j" "owner j' = owner j"
    "copy_jobs (jdb j') = copy_jobs (jdb j)" "copy_cleanup (jdb j') = copy_cleanup (jdb j)"
  using assms by (auto simp: FinishCancel_def tx_def row_of_def sel_one_upd_where split: if_splits)

definition same_frame :: "Journal \<Rightarrow> Journal \<Rightarrow> bool" where
  "same_frame j j' \<longleftrightarrow> jos j' = jos j \<and> durability j' = durability j \<and> jdir j' = jdir j \<and> owner j' = owner j \<and>
     copy_jobs (jdb j') = copy_jobs (jdb j) \<and> copy_cleanup (jdb j') = copy_cleanup (jdb j)"

lemma same_frame_refl [simp]: "same_frame j j"
  by (simp add: same_frame_def)

lemma same_frame_trans: "same_frame j j1 \<Longrightarrow> same_frame j1 j2 \<Longrightarrow> same_frame j j2"
  by (simp add: same_frame_def)

lemma tx_frame:
  assumes "\<And>a d. fn (jdb j) = Inr (a, d) \<Longrightarrow> copy_jobs d = copy_jobs (jdb j) \<and> copy_cleanup d = copy_cleanup (jdb j)"
  shows "same_frame j (snd (tx env fn j))"
proof (cases "tx env fn j")
  case (Pair r j')
  then show ?thesis
    using Pair by (cases rule: tx_cases) (use assms in \<open>auto simp: same_frame_def Pair\<close>)
qed

lemma recover_op_frame:
  "same_frame j (snd (FinishCancel env j uid))" "same_frame j (snd (Fail env j uid cause))"
  "same_frame j (snd (RetryUpload env j uid cause delay))"
  unfolding FinishCancel_def Fail_def RetryUpload_def Let_def
  by (auto intro!: tx_frame simp: guarded_Inr upd_id_def)

text \<open>An environment for files and clocks: only the count of database calls may differ.\<close>

lemma verifyBlob_frame:
  assumes "same_frame j j'"
  shows "verifyBlob (after n env) j' u = verifyBlob env j u"
proof -
  have "jos j' = jos j" "durability j' = durability j" using assms by (simp_all add: same_frame_def)
  moreover have "crc32cOf (after n env) = crc32cOf env" by (simp add: fun_eq_iff crc32cOf_def)
  ultimately show ?thesis unfolding verifyBlob_def by (simp only: os_after)
qed

lemma after_after [simp]: "after m (after n env) = after (n + m) env"
  by (simp add: after_def add.assoc)

lemma after_0 [simp]: "after 0 env = env"
  by (simp add: after_def)

lemma recover_cancels_rows:
  assumes "recover_cancels env us j = (None, env', j')"
  shows "same_frame j j'" "\<exists>n. env' = after n env"
    "row_of (jdb j') x = map_option (\<lambda>r. if r_state r = StateCancelling \<and> (\<exists>u \<in> set us. u_ID u = r_id r \<and> u_State u = StateCancelling)
      then r\<lparr>r_state := StateCancelled\<rparr> else r) (row_of (jdb j) x)"
proof -
  have "same_frame j j' \<and> (\<exists>n. env' = after n env) \<and>
    (\<forall>x. row_of (jdb j') x = map_option (\<lambda>r. if r_state r = StateCancelling \<and> (\<exists>u \<in> set us. u_ID u = r_id r \<and> u_State u = StateCancelling)
      then r\<lparr>r_state := StateCancelled\<rparr> else r) (row_of (jdb j) x))"
    using assms
  proof (induction us arbitrary: env j)
    case Nil
    then show ?case by (auto simp: option.map_ident intro: exI [of _ 0])
  next
    case (Cons u us)
    show ?case
    proof (cases "u_State u = StateCancelling")
      case False
      then have "recover_cancels env us j = (None, env', j')" using Cons.prems by simp
      from Cons.IH [OF this] show ?thesis using False by simp
    next
      case True
      then obtain v j1 where f: "FinishCancel env j (u_ID u) = (Inr v, j1)"
          and rest: "recover_cancels (after 1 env) us j1 = (None, env', j')"
        using Cons.prems by (auto split: sum.splits prod.splits)
      have fr: "same_frame j j1" using recover_op_frame(1) [of j env "u_ID u"] f by simp
      have "row_of (jdb j') x = map_option (\<lambda>r. if r_state r = StateCancelling \<and>
          (\<exists>w \<in> set (u # us). u_ID w = r_id r \<and> u_State w = StateCancelling)
          then r\<lparr>r_state := StateCancelled\<rparr> else r) (row_of (jdb j) x)" for x
        using Cons.IH [OF rest] FinishCancel_row(1) [OF f, of x] True
        by (cases "row_of (jdb j) x") auto
      moreover have "\<exists>n. env' = after n env" using Cons.IH [OF rest] by auto
      ultimately show ?thesis using Cons.IH [OF rest] same_frame_trans [OF fr] by blast
    qed
  qed
  then show "same_frame j j'" "\<exists>n. env' = after n env"
    "row_of (jdb j') x = map_option (\<lambda>r. if r_state r = StateCancelling \<and> (\<exists>u \<in> set us. u_ID u = r_id r \<and> u_State u = StateCancelling)
      then r\<lparr>r_state := StateCancelled\<rparr> else r) (row_of (jdb j) x)" by blast+
qed

lemma Fail_row:
  assumes "Fail env j uid cause = (Inr v, j')"
  shows "row_of (jdb j') x = (if x = uid then map_option (\<lambda>r. r\<lparr>r_state := StateDead,
      r_last_error := (case cause of None \<Rightarrow> [] | Some m \<Rightarrow> m)\<rparr>) (row_of (jdb j) x) else row_of (jdb j) x)"
proof -
  have rest: "row_of (d\<lparr>dead_letter := l\<rparr>) x = row_of d x" for d l x by (simp add: row_of_def)
  show ?thesis
    using assms by (auto simp: Fail_def Let_def tx_def guarded_Inr rest row_of_upd_id split: if_splits sum.splits)
qed

lemma RetryUpload_row:
  assumes "RetryUpload env j uid cause delay = (Inr v, j')"
  shows "row_of (jdb j') x = (if x = uid then map_option (\<lambda>r. r\<lparr>r_state := StatePending, r_attempt := r_attempt r + 1,
      r_next_retry_at := unixMilli (now env + delay), r_last_error := (case cause of None \<Rightarrow> [] | Some m \<Rightarrow> m)\<rparr>) (row_of (jdb j) x)
      else row_of (jdb j) x)"
  using assms by (auto simp: RetryUpload_def Let_def tx_def guarded_Inr row_of_upd_id split: if_splits sum.splits)

text \<open>What the second loop does to the row of one listed upload, and to its report.\<close>

definition settle :: "env \<Rightarrow> Journal \<Rightarrow> Upload \<Rightarrow> urow \<Rightarrow> urow" where
  "settle env j u r =
     (case verifyBlob env j u of
        Some cause \<Rightarrow> r\<lparr>r_state := StateDead, r_last_error := cause\<rparr>
      | None \<Rightarrow>
          if u_State u = StateUploading then
            r\<lparr>r_state := StatePending, r_attempt := r_attempt r + 1,
              r_next_retry_at := unixMilli (now env + 0), r_last_error := interrupted_msg\<rparr>
          else r)"

definition note_one :: "env \<Rightarrow> Journal \<Rightarrow> Upload \<Rightarrow> Recovery \<Rightarrow> Recovery" where
  "note_one env j u rec =
     (if verifyBlob env j u \<noteq> None then rec\<lparr>rv_Lost := rv_Lost rec @ [u_ID u]\<rparr>
      else if u_State u = StateUploading then rec\<lparr>rv_Requeued := rv_Requeued rec @ [u_ID u]\<rparr>
      else rec)"

lemma settle_frame:
  assumes "same_frame j j'"
  shows "settle (after n env) j' u = settle env j u" "note_one (after n env) j' u = note_one env j u"
  unfolding settle_def note_one_def verifyBlob_frame [OF assms] by (simp_all add: fun_eq_iff split: option.split)

lemma recover_rows_Cons:
  assumes "recover_rows env (u # us) rec j = (None, env', rec', j')"
  obtains n j1 where "recover_rows (after n env) us (note_one env j u rec) j1 = (None, env', rec', j')"
    "same_frame j j1"
    "\<And>x. row_of (jdb j1) x = (if x = u_ID u then map_option (settle env j u) (row_of (jdb j) x) else row_of (jdb j) x)"
proof (cases "verifyBlob env j u")
  case (Some cause)
  then obtain v j1 where f: "Fail env j (u_ID u) (Some cause) = (Inr v, j1)"
      "recover_rows (after 1 env) us (rec\<lparr>rv_Lost := rv_Lost rec @ [u_ID u]\<rparr>) j1 = (None, env', rec', j')"
    using assms by (auto split: prod.splits sum.splits)
  have "same_frame j j1" using recover_op_frame(2) [of j env "u_ID u" "Some cause"] f(1) by simp
  moreover have "row_of (jdb j1) x = (if x = u_ID u then map_option (settle env j u) (row_of (jdb j) x) else row_of (jdb j) x)" for x
    unfolding Fail_row [OF f(1)] settle_def Some by simp
  ultimately show ?thesis using that [of 1 j1] f(2) Some by (simp add: note_one_def)
next
  case None
  show ?thesis
  proof (cases "u_State u = StateUploading")
    case True
    then obtain v j1 where f: "RetryUpload env j (u_ID u) (Some interrupted_msg) 0 = (Inr v, j1)"
        "recover_rows (after 1 env) us (rec\<lparr>rv_Requeued := rv_Requeued rec @ [u_ID u]\<rparr>) j1 = (None, env', rec', j')"
      using assms None by (auto split: prod.splits sum.splits)
    have "same_frame j j1" using recover_op_frame(3) [of j env "u_ID u" "Some interrupted_msg" 0] f(1) by simp
    moreover have "row_of (jdb j1) x = (if x = u_ID u then map_option (settle env j u) (row_of (jdb j) x) else row_of (jdb j) x)" for x
      unfolding RetryUpload_row [OF f(1)] settle_def None using True by simp
    ultimately show ?thesis using that [of 1 j1] f(2) None True by (simp add: note_one_def)
  next
    case False
    have id: "settle env j u = (\<lambda>r. r)" by (simp add: fun_eq_iff settle_def None False)
    have "recover_rows env us rec j = (None, env', rec', j')" using assms None False by simp
    then show ?thesis using that [of 0 j] None False by (simp add: note_one_def id option.map_ident)
  qed
qed

lemma recover_rows_frame:
  "recover_rows env us rec j = (None, env', rec', j') \<Longrightarrow> same_frame j j' \<and> (\<exists>n. env' = after n env)"
proof (induction us arbitrary: env rec j)
  case Nil
  then show ?case by (auto intro: exI [of _ 0])
next
  case (Cons u us)
  obtain n j1 where c: "recover_rows (after n env) us (note_one env j u rec) j1 = (None, env', rec', j')" "same_frame j j1"
    using recover_rows_Cons [OF Cons.prems] by metis
  from Cons.IH [OF c(1)] show ?case using same_frame_trans [OF c(2)] by auto
qed

lemma recover_rows_report:
  "recover_rows env us rec j = (None, env', rec', j') \<Longrightarrow> rec' = fold (note_one env j) us rec"
proof (induction us arbitrary: env rec j)
  case (Cons u us)
  obtain n j1 where c: "recover_rows (after n env) us (note_one env j u rec) j1 = (None, env', rec', j')" "same_frame j j1"
    using recover_rows_Cons [OF Cons.prems] by metis
  have "note_one (after n env) j1 = note_one env j" using settle_frame(2) [OF c(2)] by (simp add: fun_eq_iff)
  then show ?case using Cons.IH [OF c(1)] by simp
qed simp

lemma recover_rows_row:
  assumes "recover_rows env us rec j = (None, env', rec', j')" "distinct (map u_ID us)"
  shows "row_of (jdb j') x = (case find (\<lambda>u. u_ID u = x) us of
    None \<Rightarrow> row_of (jdb j) x | Some u \<Rightarrow> map_option (settle env j u) (row_of (jdb j) x))"
  using assms
proof (induction us arbitrary: env rec j)
  case (Cons u us)
  obtain n j1 where c: "recover_rows (after n env) us (note_one env j u rec) j1 = (None, env', rec', j')" "same_frame j j1"
    "\<And>x. row_of (jdb j1) x = (if x = u_ID u then map_option (settle env j u) (row_of (jdb j) x) else row_of (jdb j) x)"
    using recover_rows_Cons [OF Cons.prems(1)] by metis
  have IH: "row_of (jdb j') x = (case find (\<lambda>u. u_ID u = x) us of
      None \<Rightarrow> row_of (jdb j1) x | Some u \<Rightarrow> map_option (settle env j u) (row_of (jdb j1) x))"
    using Cons.IH [OF c(1)] Cons.prems(2) unfolding settle_frame(1) [OF c(2)] by simp
  show ?case
  proof (cases "x = u_ID u")
    case True
    then have "find (\<lambda>u. u_ID u = x) us = None"
      using Cons.prems(2) unfolding find_None_iff by (metis distinct.simps(2) image_eqI list.simps(9) list.set_map)
    then show ?thesis using IH c(3) True by simp
  next
    case False
    then have "row_of (jdb j1) x = row_of (jdb j) x" using c(3) [of x] by simp
    then show ?thesis using IH False by (simp split: option.split)
  qed
qed simp

lemma note_one_fold:
  "rv_Lost (fold (note_one env j) us rec) = rv_Lost rec @ map u_ID (filter (\<lambda>u. verifyBlob env j u \<noteq> None) us)"
  "rv_Requeued (fold (note_one env j) us rec) = rv_Requeued rec @
     map u_ID (filter (\<lambda>u. verifyBlob env j u = None \<and> u_State u = StateUploading) us)"
  by (induction us arbitrary: rec) (auto simp: note_one_def)

lemma settle_state:
  "same_data r (settle env j u r)"
  "r_state r = u_State u \<Longrightarrow> u_State u = StatePending \<or> u_State u = StateUploading \<Longrightarrow>
   r_state (settle env j u r) = (if verifyBlob env j u = None then StatePending else StateDead)"
  by (auto simp: same_data_def settle_def split: option.split)

lemma find_scan:
  assumes "distinct (map r_id rs)"
  shows "find (\<lambda>u. u_ID u = x) (map scanUpload (sel_where P rs)) =
    (case sel_one (\<lambda>r. r_id r = x) rs of None \<Rightarrow> None | Some r \<Rightarrow> if P r then Some (scanUpload r) else None)"
  using assms
proof (induction rs)
  case (Cons r rs)
  have "sel_one (\<lambda>r. r_id r = x) rs = None" if "r_id r = x"
    using Cons.prems that unfolding sel_one_None_iff by (metis distinct.simps(2) image_eqI list.simps(9) list.set_map)
  then show ?case using Cons by (auto simp: sel_where_def scanUpload_def)
qed (simp add: sel_where_def)

lemma recover_files_jdb [simp]: "jdb (snd (recover_files env j live copyLive rec)) = jdb j"
  by (simp add: recover_files_def cleanCopyOrphans_def Let_def case_prod_beta split: sum.split option.split)

lemma recover_files_report:
  "recover_files env j live copyLive rec = (Inr rec', j') \<Longrightarrow>
   rv_Lost rec' = rv_Lost rec \<and> rv_Requeued rec' = rv_Requeued rec \<and> rv_Skipped rec' = rv_Skipped rec"
  by (auto simp: recover_files_def Let_def case_prod_beta split: sum.splits option.splits)

text \<open>The stages of a successful recovery.\<close>

lemma Recover_stages:
  assumes "owner j" "Recover env j = (Inr rec, j')"
  obtains env1 j1 copyLive env2 rec2 j2 where
    "recover_cancels (after 1 env) (map scanUpload (uploads (jdb j))) j = (None, env1, j1)"
    "copyRetention env1 j1 (map scanUpload (uploads (jdb j))) = Inr copyLive"
    "recover_rows (after 4 env1) (map scanUpload (sel_where (\<lambda>r. r_state r = StatePending \<or> r_state r = StateUploading)
       (uploads (jdb j1)))) empty_recovery j1 = (None, env2, rec2, j2)"
    "recover_files env2 j2 (live_names (map scanUpload (uploads (jdb j)))) copyLive rec2 = (Inr rec, j')"
proof -
  have l: "list_uploads env j id = Inr (map scanUpload (uploads (jdb j)))"
    using assms by (auto simp: Recover_def list_uploads_def dbq_def split: if_splits)
  obtain env1 j1 where c: "recover_cancels (after 1 env) (map scanUpload (uploads (jdb j))) j = (None, env1, j1)"
    using assms l by (auto simp: Recover_def split: prod.splits option.splits)
  obtain copyLive where k: "copyRetention env1 j1 (map scanUpload (uploads (jdb j))) = Inr copyLive"
    using assms l c by (auto simp: Recover_def split: sum.splits)
  have l2: "list_uploads (after 3 env1) j1 (sel_where (\<lambda>r. r_state r = StatePending \<or> r_state r = StateUploading)) =
      Inr (map scanUpload (sel_where (\<lambda>r. r_state r = StatePending \<or> r_state r = StateUploading) (uploads (jdb j1))))"
    using assms l c k by (auto simp: Recover_def list_uploads_def dbq_def split: if_splits)
  obtain env2 rec2 j2 where r: "recover_rows (after 4 env1) (map scanUpload (sel_where (\<lambda>r. r_state r = StatePending \<or> r_state r = StateUploading)
       (uploads (jdb j1)))) empty_recovery j1 = (None, env2, rec2, j2)"
    using assms l c k l2 by (auto simp: Recover_def split: prod.splits option.splits)
  show ?thesis using that [OF c k r] assms l c k l2 r by (simp add: Recover_def)
qed

lemma recover_cancels_inv: "db_inv (jdb j) \<Longrightarrow> db_inv (jdb (snd (snd (recover_cancels env us j))))"
proof (induction us arbitrary: env j)
  case (Cons u us)
  then show ?case
    using FinishCancel_inv [OF Cons.prems, of env "u_ID u"]
    by (auto split: sum.split prod.split)
qed simp

lemma scanUpload_state_id [simp]: "u_State (scanUpload r) = r_state r" "u_ID (scanUpload r) = r_id r"
  by (simp_all add: scanUpload_def)

definition in_queue :: "urow \<Rightarrow> bool" where
  "in_queue r \<longleftrightarrow> r_state r = StatePending \<or> r_state r = StateUploading"

definition settled :: "env \<Rightarrow> Journal \<Rightarrow> urow \<Rightarrow> urow" where
  "settled env j q =
     (if r_state q = StateCancelling then q\<lparr>r_state := StateCancelled\<rparr>
      else if in_queue q then settle env j (scanUpload q) q else q)"

lemma in_queue_alt: "in_queue = (\<lambda>r. r_state r = StatePending \<or> r_state r = StateUploading)"
  by (simp add: in_queue_def fun_eq_iff)

text \<open>What the two loops together do to each row, and what they report.\<close>

lemma Recover_trace:
  assumes "db_inv (jdb j)" "owner j" "Recover env j = (Inr rec, j')"
  obtains us where
    "\<And>x. row_of (jdb j') x = map_option (settled env j) (row_of (jdb j) x)"
    "\<And>u. u \<in> set us \<longleftrightarrow> (\<exists>q. u = scanUpload q \<and> row_of (jdb j) (r_id q) = Some q \<and> in_queue q)"
    "rv_Lost rec = map u_ID (filter (\<lambda>u. verifyBlob env j u \<noteq> None) us)"
    "rv_Requeued rec = map u_ID (filter (\<lambda>u. verifyBlob env j u = None \<and> u_State u = StateUploading) us)"
proof -
  obtain env1 j1 copyLive env2 rec2 j2 where
    c: "recover_cancels (after 1 env) (map scanUpload (uploads (jdb j))) j = (None, env1, j1)"
    and r: "recover_rows (after 4 env1) (map scanUpload (sel_where in_queue (uploads (jdb j1)))) empty_recovery j1 = (None, env2, rec2, j2)"
    and f: "recover_files env2 j2 (live_names (map scanUpload (uploads (jdb j)))) copyLive rec2 = (Inr rec, j')"
    by (rule Recover_stages [OF assms(2,3), folded in_queue_alt])
  have inv1: "db_inv (jdb j1)" using recover_cancels_inv [OF assms(1), of "after 1 env" "map scanUpload (uploads (jdb j))"] c by simp
  have fr1: "same_frame j j1" using recover_cancels_rows(1) [OF c] .
  obtain n where n: "after 4 env1 = after n env" using recover_cancels_rows(2) [OF c] by auto
  have row1: "row_of (jdb j1) x = map_option (\<lambda>r. if r_state r = StateCancelling then r\<lparr>r_state := StateCancelled\<rparr> else r) (row_of (jdb j) x)" for x
    using row_of_SomeD [of "jdb j" x] unfolding recover_cancels_rows(3) [OF c]
    by (cases "row_of (jdb j) x") auto
  have ids1: "distinct (map r_id (uploads (jdb j1)))" using inv1 by (simp add: db_inv_def upload_inv_ids)
  let ?us = "map scanUpload (sel_where in_queue (uploads (jdb j1)))"
  have dist: "distinct (map u_ID ?us)" using distinct_map_sel_where [OF ids1, of in_queue] by (simp add: comp_def)
  have jdb': "jdb j' = jdb j2" using recover_files_jdb [of env2 j2 "live_names (map scanUpload (uploads (jdb j)))" copyLive rec2] f by simp
  have row2: "row_of (jdb j') x = map_option (\<lambda>q. if in_queue q then settle env j (scanUpload q) q else q) (row_of (jdb j1) x)" for x
    unfolding jdb' recover_rows_row [OF r dist, unfolded n settle_frame(1) [OF fr1]] find_scan [OF ids1] row_of_def [symmetric]
    by (simp split: option.split)
  show ?thesis
  proof
    show "row_of (jdb j') x = map_option (settled env j) (row_of (jdb j) x)" for x
      unfolding row2 row1 by (cases "row_of (jdb j) x") (auto simp: settled_def in_queue_def)
    show "u \<in> set ?us \<longleftrightarrow> (\<exists>q. u = scanUpload q \<and> row_of (jdb j) (r_id q) = Some q \<and> in_queue q)" for u
    proof -
      have "q \<in> set (uploads (jdb j1)) \<and> in_queue q \<longleftrightarrow> row_of (jdb j) (r_id q) = Some q \<and> in_queue q" for q
        using row1 [of "r_id q"] row_of_iff [of "jdb j1" "r_id q" q] inv1
        by (auto simp: in_queue_def db_inv_def split: if_splits)
      then show ?thesis by (auto simp: sel_where_def)
    qed
    show "rv_Lost rec = map u_ID (filter (\<lambda>u. verifyBlob env j u \<noteq> None) ?us)"
      "rv_Requeued rec = map u_ID (filter (\<lambda>u. verifyBlob env j u = None \<and> u_State u = StateUploading) ?us)"
      using recover_files_report [OF f] recover_rows_report [OF r]
      by (simp_all add: n note_one_fold verifyBlob_frame [OF fr1] empty_recovery_def del: map_map filter_map)
  qed
qed

lemma same_data_state [simp]: "same_data r (r\<lparr>r_state := s\<rparr>)" "same_data r r"
  by (simp_all add: same_data_def)

lemma settled_state:
  "same_data q (settled env j q)" "r_state (settled env j q) = recovered_state env j q"
proof -
  show "same_data q (settled env j q)" unfolding settled_def by (simp add: settle_state(1))
  have "r_state (settle env j (scanUpload q) q) = (if verifyBlob env j (scanUpload q) = None then StatePending else StateDead)"
    if "in_queue q"
    by (rule settle_state(2)) (use that in \<open>simp_all add: in_queue_def\<close>)
  then show "r_state (settled env j q) = recovered_state env j q"
    by (simp add: settled_def recovered_state_def in_queue_def)
qed

text \<open>
  C25. A restart settles every row. After a successful \<open>Recover\<close> by the owner no row is in flight:
  pending and interrupted uploads are pending again if their payload is intact and dead letters if
  not, half-done cancellations are complete, everything else is where it was. No row appears,
  disappears or loses its data, and the report names exactly the lost and the requeued uploads.
\<close>

theorem Recover_settles:
  assumes "db_inv (jdb j)" and "owner j" and "Recover env j = (Inr rec, j')"
  shows "(\<forall>x. row_of (jdb j) x = None \<longrightarrow> row_of (jdb j') x = None) \<and>
    (\<forall>x r. row_of (jdb j) x = Some r \<longrightarrow>
       (\<exists>r'. row_of (jdb j') x = Some r' \<and> same_data r r' \<and> r_state r' = recovered_state env j r)) \<and>
    set (rv_Lost rec) = {x. \<exists>r. row_of (jdb j) x = Some r \<and> r_state r \<in> {StatePending, StateUploading} \<and>
       recovered_state env j r = StateDead} \<and>
    set (rv_Requeued rec) = {x. \<exists>r. row_of (jdb j) x = Some r \<and> r_state r = StateUploading \<and>
       recovered_state env j r = StatePending}"
proof -
  obtain us where row: "\<And>x. row_of (jdb j') x = map_option (settled env j) (row_of (jdb j) x)"
    and us: "\<And>u. u \<in> set us \<longleftrightarrow> (\<exists>q. u = scanUpload q \<and> row_of (jdb j) (r_id q) = Some q \<and> in_queue q)"
    and rep: "rv_Lost rec = map u_ID (filter (\<lambda>u. verifyBlob env j u \<noteq> None) us)"
      "rv_Requeued rec = map u_ID (filter (\<lambda>u. verifyBlob env j u = None \<and> u_State u = StateUploading) us)"
    by (rule Recover_trace [OF assms], rule that)
  have ids: "u_ID ` {u \<in> set us. P u} = {x. \<exists>q. row_of (jdb j) x = Some q \<and> in_queue q \<and> P (scanUpload q)}" for P
  proof (rule set_eqI)
    fix x
    have "x \<in> u_ID ` {u \<in> set us. P u} \<longleftrightarrow> (\<exists>q. x = r_id q \<and> row_of (jdb j) (r_id q) = Some q \<and> in_queue q \<and> P (scanUpload q))"
      unfolding image_iff mem_Collect_eq Bex_def us by (metis scanUpload_state_id(2))
    also have "\<dots> \<longleftrightarrow> (\<exists>q. row_of (jdb j) x = Some q \<and> in_queue q \<and> P (scanUpload q))"
      using row_of_SomeD by metis
    finally show "x \<in> u_ID ` {u \<in> set us. P u} \<longleftrightarrow> x \<in> {x. \<exists>q. row_of (jdb j) x = Some q \<and> in_queue q \<and> P (scanUpload q)}"
      by simp
  qed
  have "recovered_state env j q = StateDead \<longleftrightarrow> verifyBlob env j (scanUpload q) \<noteq> None" if "in_queue q" for q
    using that by (auto simp: in_queue_def recovered_state_def)
  then have "set (rv_Lost rec) = {x. \<exists>r. row_of (jdb j) x = Some r \<and> r_state r \<in> {StatePending, StateUploading} \<and>
       recovered_state env j r = StateDead}"
    by (simp add: rep ids) (metis in_queue_def)
  moreover have "recovered_state env j q = StatePending \<longleftrightarrow> verifyBlob env j (scanUpload q) = None" if "r_state q = StateUploading" for q
    using that by (simp add: recovered_state_def)
  then have "set (rv_Requeued rec) = {x. \<exists>r. row_of (jdb j) x = Some r \<and> r_state r = StateUploading \<and>
       recovered_state env j r = StatePending}"
    by (simp add: rep ids) (metis in_queue_def)
  ultimately show ?thesis by (simp add: row settled_state)
qed

definition sample_restart :: Journal where
  "sample_restart = sample_journal [sample_row 1 ''a'' StateUploading ''/j/objects/a'',
     sample_row 2 ''g'' StatePending ''/j/objects/g'', sample_row 3 ''c'' StateCancelling ''/j/objects/c'']"

lemma sample_restart_run:
  "fst (Recover sample_env sample_restart) =
     Inr \<lparr>rv_Requeued = [''a''], rv_Lost = [''g''], rv_OrphanStaging = [], rv_Skipped = False\<rparr>"
  by code_simp

theorem Recover_settles_witness:
  "\<exists>rec j'. Recover sample_env sample_restart = (Inr rec, j') \<and> rv_Lost rec = [''g''] \<and>
     set (rv_Lost rec) = {x. \<exists>r. row_of (jdb sample_restart) x = Some r \<and> r_state r \<in> {StatePending, StateUploading} \<and>
       recovered_state sample_env sample_restart r = StateDead}"
proof -
  obtain rec j' where run: "Recover sample_env sample_restart = (Inr rec, j')" "rv_Lost rec = [''g'']"
    using sample_restart_run by (metis Recovery.select_convs(2) prod.collapse)
  have "db_inv (jdb sample_restart)" unfolding sample_restart_def by (rule sample_inv) simp_all
  moreover have "owner sample_restart" by (simp add: sample_restart_def sample_journal_def)
  ultimately show ?thesis using Recover_settles [OF _ _ run(1)] run by blast
qed

end
