(* ===== verification/RecoverFiles.thy ===== *)
theory RecoverFiles
  imports RecoverProps
begin

text \<open>
  What a restart does to the files: the sweeps of \<open>Recover\<close> only ever take away names that no row
  of the queue uses.
\<close>

section \<open>Directory entries\<close>

text \<open>The names of a file system are the absolute, cleaned paths.\<close>

definition canonical :: "string \<Rightarrow> bool" where
  "canonical p \<longleftrightarrow> path_abs None p = Some p"

definition canonical_names :: "osfs \<Rightarrow> bool" where
  "canonical_names fs \<longleftrightarrow> (\<forall>(p, n) \<in> set (os_names fs). canonical p)"

lemma canonical_iff: "canonical p \<longleftrightarrow> is_abs p \<and> path_clean p = p"
  by (auto simp: canonical_def path_abs_def)

lemma canonical_filepath_abs: "canonical p \<Longrightarrow> filepath_abs fs p = Some p"
  unfolding canonical_def filepath_abs_def by (rule path_abs_idem)

lemma canonical_join:
  assumes "is_abs d"
  shows "canonical (path_join (d # ds))"
proof -
  obtain d' where d: "d = sep # d'" using assms by (auto simp: is_abs_def split: list.splits)
  let ?p = "join_on sep (d # filter (\<lambda>e. e \<noteq> []) ds)"
  have abs: "is_abs ?p" by (cases "filter (\<lambda>e. e \<noteq> []) ds") (simp_all add: d is_abs_def)
  then have "path_abs None ?p = Some (path_clean ?p)" by (simp add: path_abs_def)
  then have "canonical (path_clean ?p)" unfolding canonical_def by (rule path_abs_idem)
  then show ?thesis by (simp add: path_join_def d)
qed

lemma canonical_split:
  assumes "canonical p" "p \<noteq> [sep]"
  shows "path_join [path_dir p, path_base p] = p"
proof -
  obtain segs where p: "p = abs_path segs" and ok: "\<forall>s \<in> set segs. ok_seg s"
    using assms(1) path_abs_form unfolding canonical_def by blast
  then have "segs \<noteq> []" using assms(2) by (auto simp: abs_path_def)
  then obtain ss t where s: "segs = ss @ [t]" by (metis rev_exhaust)
  then show ?thesis using ok by (simp add: p path_dir_abs_path path_base_abs_path path_join_abs_path)
qed

text \<open>A listed entry is the file it names.\<close>

definition entries_of :: "string \<Rightarrow> (string \<times> fnode) list \<Rightarrow> bool" where
  "entries_of dir es \<longleftrightarrow>
     (\<forall>(name, n) \<in> set es. canonical (path_join [dir, name]) \<and> path_dir (path_join [dir, name]) = dir \<and>
        path_base (path_join [dir, name]) = name)"

lemma entries_of_Cons [simp]:
  "entries_of dir ((name, n) # es) \<longleftrightarrow> canonical (path_join [dir, name]) \<and> path_dir (path_join [dir, name]) = dir \<and>
     path_base (path_join [dir, name]) = name \<and> entries_of dir es"
  by (auto simp: entries_of_def)

lemma os_readdir_entries:
  assumes "os_readdir env fs dir = Inr es" "canonical_names fs" "canonical dir"
  shows "entries_of dir es"
  unfolding entries_of_def
proof (clarify)
  fix name n i
  assume "(name, n, i) \<in> set es"
  then obtain p where p: "(p, n, i) \<in> set (os_names fs)" "name = path_base p" "path_dir p = dir" "p \<noteq> dir"
    using assms(1) canonical_filepath_abs [OF assms(3), of fs]
    by (auto simp: os_readdir_def split: if_splits option.splits)
  have c: "canonical p" using p(1) assms(2) by (auto simp: canonical_names_def)
  have "p \<noteq> [sep]" using p(3,4) by (auto simp: path_dir_def path_clean_def is_abs_def clean_segs_def)
  then have "path_join [dir, name] = p" using canonical_split [OF c] p by simp
  then show "canonical (path_join [dir, name]) \<and> path_dir (path_join [dir, name]) = dir \<and>
      path_base (path_join [dir, name]) = name"
    using c p by simp
qed

section \<open>The sweeps\<close>

definition kept :: "string \<Rightarrow> osfs \<Rightarrow> osfs \<Rightarrow> bool" where
  "kept p fs fs' \<longleftrightarrow> map_of (os_names fs') p = map_of (os_names fs) p \<and> os_data fs' = os_data fs"

lemma kept_refl [simp]: "kept p fs fs"
  by (simp add: kept_def)

lemma kept_trans: "kept p fs fs1 \<Longrightarrow> kept p fs1 fs2 \<Longrightarrow> kept p fs fs2"
  by (simp add: kept_def)

lemma os_remove_kept:
  "canonical q \<Longrightarrow> q \<noteq> p \<Longrightarrow> kept p fs (snd (os_remove env fs q))"
  by (simp add: kept_def os_remove_other canonical_filepath_abs)

lemma os_remove_canonical: "canonical_names fs \<Longrightarrow> canonical_names (snd (os_remove env fs q))"
  by (auto simp: canonical_names_def os_remove_def del_name_def split: option.split)

lemma sweep_kept:
  "entries_of dir es \<Longrightarrow> path_dir p \<noteq> dir \<or> path_base p \<in> keep \<Longrightarrow> kept p fs (snd (sweep env dir keep es fs))"
proof (induction env dir keep es fs rule: sweep.induct)
  case (2 env dir keep name n es fs)
  show ?case
  proof (cases "snd n = KDir \<or> name \<in> keep")
    case False
    let ?q = "path_join [dir, name]"
    have "canonical ?q" "?q \<noteq> p" using "2.prems" False by auto
    then have k: "kept p fs (snd (os_remove env fs ?q))" by (rule os_remove_kept)
    obtain e fs' where r: "os_remove env fs ?q = (e, fs')" by fastforce
    then have "kept p fs' (snd (sweep env dir keep es fs'))"
      using "2.IH"(2,3) [OF False] "2.prems" by (cases e) auto
    then show ?thesis using False k r by (cases e) (auto simp: case_prod_beta intro: kept_trans)
  qed (use 2 in simp)
qed simp

lemma sweep_canonical: "canonical_names fs \<Longrightarrow> canonical_names (snd (sweep env dir keep es fs))"
proof (induction es arbitrary: fs)
  case (Cons x es)
  obtain name n where x: "x = (name, n)" by (cases x)
  obtain e fs' where r: "os_remove env fs (path_join [dir, name]) = (e, fs')" by fastforce
  then have "canonical_names fs'" using os_remove_canonical [OF Cons.prems, of env "path_join [dir, name]"] by simp
  then show ?case using Cons by (cases e) (auto simp: x r case_prod_beta)
qed simp

lemma clean_copies_kept:
  "entries_of dir es \<Longrightarrow> p \<in> live \<Longrightarrow> kept p fs (snd (clean_copies env dir live es fs))"
proof (induction env dir live es fs rule: clean_copies.induct)
  case (2 env dir live name n es fs)
  show ?case
  proof (cases "snd n = KDir \<or> path_join [dir, name] \<in> live")
    case False
    let ?q = "path_join [dir, name]"
    have "canonical ?q" "?q \<noteq> p" using "2.prems" False by auto
    then have k: "kept p fs (snd (os_remove env fs ?q))" by (rule os_remove_kept)
    obtain e fs' where r: "os_remove env fs ?q = (e, fs')" by fastforce
    then show ?thesis
      using False k "2.IH"(2) [OF False] "2.prems" by (cases e) (auto intro: kept_trans)
  qed (use 2 in simp)
qed simp

lemma clean_copies_canonical: "canonical_names fs \<Longrightarrow> canonical_names (snd (clean_copies env dir live es fs))"
proof (induction es arbitrary: fs)
  case (Cons x es)
  obtain name n where x: "x = (name, n)" by (cases x)
  obtain e fs' where r: "os_remove env fs (path_join [dir, name]) = (e, fs')" by fastforce
  then have "canonical_names fs'" using os_remove_canonical [OF Cons.prems, of env "path_join [dir, name]"] by simp
  then show ?case using Cons by (cases e) (auto simp: x r)
qed simp

section \<open>Recover\<close>

lemma sweep_entries_of:
  assumes "sweep_entries env fs dir = Inr es" "canonical_names fs" "canonical dir"
  shows "entries_of dir es"
  using assms os_readdir_entries [of env fs dir]
  by (auto simp: sweep_entries_def entries_of_def split: sum.splits oserr.splits)

lemma cleanCopyOrphans_files:
  assumes "canonical_names (jos j)" "is_abs (jdir j)" "p \<in> live"
  shows "kept p (jos j) (jos (snd (cleanCopyOrphans env j live)))"
    and "canonical_names (jos (snd (cleanCopyOrphans env j live)))"
    and "jdir (snd (cleanCopyOrphans env j live)) = jdir j"
proof -
  let ?dir = "path_join [jdir j, ''copies'']"
  have c: "canonical ?dir" using assms(2) by (rule canonical_join)
  then have "jabs j ?dir = Some ?dir" by (simp add: jabs_def canonical_filepath_abs)
  then show "kept p (jos j) (jos (snd (cleanCopyOrphans env j live)))"
    "canonical_names (jos (snd (cleanCopyOrphans env j live)))"
    "jdir (snd (cleanCopyOrphans env j live)) = jdir j"
    using clean_copies_kept [OF os_readdir_entries [OF _ assms(1) c] assms(3)] clean_copies_canonical [OF assms(1)] assms(1)
    by (simp_all add: cleanCopyOrphans_def Let_def case_prod_beta split: sum.split)
qed

lemma recover_files_kept:
  assumes "canonical_names (jos j)" "is_abs (jdir j)" "p \<in> copyLive" "path_base p \<in> live" "path_dir p \<noteq> StagingDir j"
  shows "kept p (jos j) (jos (snd (recover_files env j live copyLive rec)))"
proof (cases "sweep_entries env (jos j) (StagingDir j)")
  case (Inr staged)
  have cs: "canonical (StagingDir j)" and co: "canonical (ObjectsDir j)"
    using assms(2) by (simp_all add: StagingDir_def ObjectsDir_def canonical_join)
  define j1 where "j1 = j\<lparr>jos := snd (sweep env (StagingDir j) {} staged (jos j))\<rparr>"
  have k1: "kept p (jos j) (jos j1)"
    unfolding j1_def using sweep_kept [OF sweep_entries_of [OF Inr assms(1) cs]] assms(5) by simp
  have "canonical_names (jos j1)" "is_abs (jdir j1)" using assms(1,2) by (simp_all add: j1_def sweep_canonical)
  note c = cleanCopyOrphans_files [OF this assms(3), of env]
  define j2 where "j2 = snd (cleanCopyOrphans env j1 copyLive)"
  have k2: "kept p (jos j) (jos j2)" using kept_trans [OF k1 c(1)] by (simp add: j2_def)
  have n2: "canonical_names (jos j2)" and "ObjectsDir j2 = ObjectsDir j"
    using c(2,3) by (simp_all add: j2_def ObjectsDir_def j1_def)
  then have "kept p (jos j2) (snd (sweep env (ObjectsDir j2) live objs (jos j2)))"
    if "sweep_entries env (jos j2) (ObjectsDir j2) = Inr objs" for objs
    using sweep_kept [OF sweep_entries_of [OF that n2]] co assms(4) by simp
  then show ?thesis
    using k2 Inr
    by (auto simp: recover_files_def Let_def case_prod_beta j1_def [symmetric] j2_def [symmetric] intro: kept_trans split: option.split sum.split)
qed (simp add: recover_files_def)

lemma recover_loops_frame:
  "same_frame j (snd (snd (recover_cancels env us j)))"
  "same_frame j (snd (snd (snd (recover_rows env us rec j))))"
proof -
  show "same_frame j (snd (snd (recover_cancels env us j)))"
  proof (induction us arbitrary: env j)
    case (Cons u us)
    obtain r j1 where f: "FinishCancel env j (u_ID u) = (r, j1)" by fastforce
    then have "same_frame j j1" using recover_op_frame(1) [of j env "u_ID u"] by simp
    then show ?case using Cons f by (cases r) (auto intro: same_frame_trans)
  qed simp
  show "same_frame j (snd (snd (snd (recover_rows env us rec j))))"
  proof (induction us arbitrary: env rec j)
    case (Cons u us)
    obtain r j1 where f: "Fail env j (u_ID u) (verifyBlob env j u) = (r, j1)" by fastforce
    obtain q j2 where g: "RetryUpload env j (u_ID u) (Some interrupted_msg) 0 = (q, j2)" by fastforce
    have "same_frame j j1" "same_frame j j2" using recover_op_frame(2,3) [of j env "u_ID u"] f g by (metis snd_conv)+
    then show ?case using Cons f g by (cases r; cases q) (auto intro: same_frame_trans split: option.split)
  qed simp
qed

text \<open>
  C26. A restart keeps every payload the queue knows. Whatever happens during \<open>Recover\<close>, and whether or not
  it succeeds, the name of a row's payload still denotes the same file with the same bytes
  afterwards, for every row whose payload is not in the staging directory.
\<close>

theorem Recover_keeps_payloads:
  assumes "canonical_names (jos j)" and "is_abs (jdir j)" and "r \<in> set (uploads (jdb j))"
    and "canonical (r_blob_path r)" and "path_dir (r_blob_path r) \<noteq> StagingDir j"
  shows "kept (r_blob_path r) (jos j) (jos (snd (Recover env j)))"
proof -
  let ?all = "map scanUpload (uploads (jdb j))" and ?p = "r_blob_path r"
  have "?p \<noteq> []" using assms(4) by (auto simp: canonical_iff is_abs_def)
  then have live: "path_base ?p \<in> live_names ?all" and inall: "?p \<in> u_BlobPath ` set ?all"
    using assms(3) by (force simp: live_names_def scanUpload_def)+
  have ret: "?p \<in> L" if "copyRetention e k ?all = Inr L" for e k L
    using that inall by (auto simp: copyRetention_def split: sum.splits)
  have files: "kept ?p (jos j) (jos (snd (recover_files e k (live_names ?all) L rec)))"
    if "same_frame j k" "?p \<in> L" for e k L rec
    using that recover_files_kept [of k ?p L] assms live by (simp add: same_frame_def StagingDir_def)
  obtain x env1 j1 where c: "recover_cancels (after 1 env) ?all j = (x, env1, j1)" by (metis prod.exhaust)
  have f1: "same_frame j j1" using recover_loops_frame(1) [of j "after 1 env" ?all] c by simp
  have rows: "kept ?p (jos j) (jos (snd (case recover_rows e us rec j1 of (Some e, _, _, j2) \<Rightarrow> (Inl e, j2)
      | (None, env2, rec, j2) \<Rightarrow> recover_files env2 j2 (live_names ?all) L rec)))" if "?p \<in> L" for e us rec L
  proof (cases "recover_rows e us rec j1")
    case (fields y env2 rec2 j2)
    then have "same_frame j j2" using same_frame_trans [OF f1 recover_loops_frame(2)] by (metis snd_conv)
    then show ?thesis using files [OF _ that] by (cases y) (simp_all add: fields same_frame_def)
  qed
  show ?thesis
    using ret rows f1 unfolding Recover_def list_uploads_def dbq_def
    by (cases x) (simp_all add: c same_frame_def del: One_nat_def split: sum.split)
qed

theorem Recover_keeps_payloads_witness:
  "kept ''/j/objects/a'' (jos sample_restart) (jos (snd (Recover sample_env sample_restart)))"
proof -
  have "canonical_names (jos sample_restart)" "is_abs (jdir sample_restart)"
    "canonical ''/j/objects/a''" "path_dir ''/j/objects/a'' \<noteq> StagingDir sample_restart"
    by code_simp+
  moreover have "sample_row 1 ''a'' StateUploading ''/j/objects/a'' \<in> set (uploads (jdb sample_restart))"
    by (simp add: sample_restart_def sample_journal_def)
  ultimately show ?thesis
    using Recover_keeps_payloads [of sample_restart "sample_row 1 ''a'' StateUploading ''/j/objects/a''" sample_env] by simp
qed

end
