(* ===== verification/LifeCycle.thy ===== *)
theory LifeCycle
  imports QueueOutcomes CleanupProps RecoverFiles
begin

text \<open>
  The life cycle an upload goes through, as an abstract labelled transition system on the phase of
  one id, and the proof that every operation of the journal moves every id along it. The tables,
  payloads and side records of the journal are hidden; the phase is what they say about the id.
\<close>

section \<open>The abstract machine\<close>

datatype phase = Absent | At State | Discarded

datatype label =
    LCommit | LClaim | LNote | LSucceed | LRetry | LFail | LRequeue | LDrop
  | LStop | LStopped | LPurge | LDiscard | LResume | LRecover

text \<open>States that an ordinary operation refuses to leave.\<close>

definition halted :: "State \<Rightarrow> bool" where
  "halted s \<longleftrightarrow> s \<in> {StatePurging, StateCancelled, StateCancelling}"

inductive life :: "label \<Rightarrow> phase \<Rightarrow> phase \<Rightarrow> bool" where
  stay: "life l p p"
| commit_new: "s \<notin> {StateEmpty, StatePurging} \<Longrightarrow> life LCommit Absent (At s)"
| commit_again: "\<not> halted s \<Longrightarrow> s' \<notin> {StateEmpty, StatePurging} \<Longrightarrow> life LCommit (At s) (At s')"
| claim: "life LClaim (At StatePending) (At StateUploading)"
| succeed: "\<not> halted s \<Longrightarrow> life LSucceed (At s) (At StateDone)"
| prune: "life LSucceed (At StateDone) Absent"
| retry: "\<not> halted s \<Longrightarrow> life LRetry (At s) (At StatePending)"
| fail: "\<not> halted s \<Longrightarrow> life LFail (At s) (At StateDead)"
| requeue: "life LRequeue (At StateDead) (At StatePending)"
| drop: "\<not> halted s \<Longrightarrow> life LDrop (At s) Absent"
| stop_idle: "s \<in> {StatePending, StateDead} \<Longrightarrow> life LStop (At s) (At StateCancelled)"
| stop_running: "life LStop (At StateUploading) (At StateCancelling)"
| stopped: "life LStopped (At StateCancelling) (At StateCancelled)"
| purge: "life LPurge (At StateCancelled) (At StatePurging)"
| discard: "life LDiscard (At StatePurging) Discarded"
| resume: "life LResume (At StateCancelled) (At StatePending)"
| recover_stop: "life LRecover (At StateCancelling) (At StateCancelled)"
| recover_lost: "s \<in> {StatePending, StateUploading} \<Longrightarrow> life LRecover (At s) (At StateDead)"
| recover_again: "life LRecover (At StateUploading) (At StatePending)"

inductive_simps life_from [simp]: "life l Absent q" "life l Discarded q" "life l (At s) q"

lemma life_trans:
  assumes "l \<in> {LCommit, LDrop, LRecover}" "life l p q" "life l q r"
  shows "life l p r"
  using assms(2,3,1) by (cases rule: life.cases) (simp_all add: halted_def, blast+)

section \<open>The phase of an id\<close>

definition phase_of :: "jdb \<Rightarrow> string \<Rightarrow> phase" where
  "phase_of d x =
     (if x \<in> cl_upload ` set (upload_discarded d) then Discarded
      else (case row_of d x of None \<Rightarrow> Absent | Some r \<Rightarrow> At (r_state r)))"

lemma phase_frame:
  "uploads d' = uploads d \<Longrightarrow> upload_discarded d' = upload_discarded d \<Longrightarrow> phase_of d' x = phase_of d x"
  by (simp add: phase_of_def row_of_def)

lemma phase_At: "phase_of d x = At s \<Longrightarrow> \<exists>r. row_of d x = Some r \<and> r_state r = s"
  by (auto simp: phase_of_def split: if_splits option.splits)

lemma guard_not_halted: "guardNotCancelled d uid = None \<Longrightarrow> row_of d uid = Some r \<Longrightarrow> \<not> halted (r_state r)"
  using guard_cancel_row [of d uid r] by (simp add: halted_def)

lemma guard_phase:
  assumes "upload_inv d" "guardNotCancelled d uid = None"
  shows "phase_of d uid = Absent \<or> (\<exists>s. phase_of d uid = At s \<and> \<not> halted s)"
proof (cases "row_of d uid")
  case None
  then have "uid \<notin> cl_upload ` set (upload_discarded d)"
    using guard_discarded(2) [OF assms(1), of uid] assms(2) by (metis option.distinct(1))
  then show ?thesis using None by (simp add: phase_of_def)
next
  case (Some r)
  then have "uid \<notin> cl_upload ` set (upload_discarded d)"
    using guard_discarded(2) [OF assms(1), of uid] assms(2) by (metis option.distinct(1))
  then show ?thesis using Some guard_not_halted [OF assms(2) Some] by (simp add: phase_of_def)
qed

text \<open>Updates and deletions of rows.\<close>

lemma life_rows:
  assumes "upload_discarded d' = upload_discarded d"
    and "\<And>r. row_of d x = Some r \<Longrightarrow>
      life l (At (r_state r)) (case row_of d' x of None \<Rightarrow> Absent | Some r' \<Rightarrow> At (r_state r'))"
    and "row_of d x = None \<Longrightarrow> row_of d' x = None"
  shows "life l (phase_of d x) (phase_of d' x)"
proof (cases "x \<in> cl_upload ` set (upload_discarded d)")
  case False
  then show ?thesis
    using assms by (cases "row_of d x") (simp_all add: phase_of_def)
qed (simp add: phase_of_def assms(1))

lemma life_upd:
  assumes "keeps_keys f" "\<And>r. row_of d uid = Some r \<Longrightarrow> life l (At (r_state r)) (At (r_state (f r)))"
  shows "life l (phase_of d x) (phase_of (upd_id uid f d) x)"
  using assms by (intro life_rows) (auto simp: row_of_upd_id intro: stay simp del: life_from)

lemma phase_other_tables [simp]:
  "phase_of (upload_parts_update f1 d) x = phase_of d x" "phase_of (dead_letter_update f2 d) x = phase_of d x"
  "phase_of (upload_cancellation_update f3 d) x = phase_of d x" "phase_of (upload_cleanup_update f4 d) x = phase_of d x"
  "phase_of (upload_resume_history_update f5 d) x = phase_of d x" "phase_of (copy_jobs_update f6 d) x = phase_of d x"
  "phase_of (copy_cleanup_update f7 d) x = phase_of d x" "phase_of (server_copies_update f8 d) x = phase_of d x"
  by (simp_all add: phase_of_def row_of_def)

lemma life_tx:
  assumes "\<And>a d. fn (jdb j) = Inr (a, d) \<Longrightarrow> life l (phase_of (jdb j) x) (phase_of d x)"
  shows "life l (phase_of (jdb j) x) (phase_of (jdb (snd (tx env fn j))) x)"
proof (cases "tx env fn j")
  case (Pair r j')
  then show ?thesis by (cases rule: tx_cases) (use assms Pair in \<open>auto intro: stay simp del: life_from\<close>)
qed

section \<open>Commits\<close>

lemma upsert_discarded [simp]: "upload_discarded (upsert_upload u d) = upload_discarded d"
  by (simp add: upsert_upload_def upd_id_def split: option.split)

lemma insertUploadTx_life:
  assumes "upload_inv d" "insertUploadTx env j u d = Inr (a, d')"
  shows "life LCommit (phase_of d x) (phase_of d' x)"
  using assms(2)
proof (cases rule: insertUploadTx_cases)
  case (1 u')
  show ?thesis
  proof (cases "x = u_ID u")
    case True
    have "u_State u' \<notin> {StateEmpty, StatePurging}" using 1(4,6) by auto
    moreover obtain r where "row_of d' x = Some r" "r_state r = u_State u'"
      using True 1(1,2) by (auto simp: row_of_upsert upsert_row_def new_row_def split: option.split)
    moreover have "upload_discarded d' = upload_discarded d" by (simp add: 1(1))
    ultimately show ?thesis
      using guard_phase [OF assms(1) 1(5)] True by (auto simp: phase_of_def split: if_splits option.splits)
  next
    case False
    then show ?thesis using 1(1,2) by (auto intro!: life_rows stay simp: row_of_upsert split: option.split)
  qed
qed

lemma insert_all_life:
  "db_inv d \<Longrightarrow> insert_all env j us d = Inr (a, d') \<Longrightarrow> life LCommit (phase_of d x) (phase_of d' x)"
proof (induction us arbitrary: d)
  case (Cons u us)
  obtain b d1 where i: "insertUploadTx env j u d = Inr (b, d1)" "insert_all env j us d1 = Inr (a, d')"
    using Cons.prems(2) by (auto split: sum.splits)
  have "life LCommit (phase_of d x) (phase_of d1 x)"
    using insertUploadTx_life [OF _ i(1)] Cons.prems(1) by (simp add: db_inv_def)
  moreover have "life LCommit (phase_of d1 x) (phase_of d' x)"
    using Cons.IH [OF insertUploadTx_inv [OF Cons.prems(1) i(1)] i(2)] .
  ultimately show ?case using life_trans by blast
qed (simp add: stay)

lemma commit_each_life:
  "db_inv (jdb j) \<Longrightarrow> life LCommit (phase_of (jdb j) x) (phase_of (jdb (snd (commit_each env us j))) x)"
proof (induction us arbitrary: env j)
  case (Cons u us)
  define j1 where "j1 = snd (tx env (insertUploadTx env j u) j)"
  have "db_inv (jdb j1)" unfolding j1_def
    using Cons.prems by (rule tx_db_inv) (rule insertUploadTx_inv)
  then have "life LCommit (phase_of (jdb j1) x) (phase_of (jdb (snd (commit_each (after 1 env) us j1))) x)"
    by (rule Cons.IH)
  moreover have "life LCommit (phase_of (jdb j) x) (phase_of (jdb j1) x)"
    unfolding j1_def using Cons.prems by (intro life_tx insertUploadTx_life) (auto simp: db_inv_def)
  ultimately have "life LCommit (phase_of (jdb j) x) (phase_of (jdb (snd (commit_each (after 1 env) us j1))) x)"
    using life_trans by blast
  then show ?case by (simp add: Let_def case_prod_beta j1_def)
qed (simp add: stay)

lemma commitBatch_life:
  assumes "db_inv (jdb j)"
  shows "life LCommit (phase_of (jdb j) x) (phase_of (jdb (snd (commitBatch env j us))) x)"
proof -
  define j1 where "j1 = snd (tx env (insert_all env j us) j)"
  have "db_inv (jdb j1)" unfolding j1_def using assms by (rule tx_db_inv) (rule insert_all_inv)
  then have two: "life LCommit (phase_of (jdb j1) x) (phase_of (jdb (snd (commit_each e us j1))) x)" for e
    by (rule commit_each_life)
  have one: "life LCommit (phase_of (jdb j) x) (phase_of (jdb j1) x)"
    unfolding j1_def using assms by (intro life_tx insert_all_life) auto
  have "life LCommit (phase_of (jdb j) x) (phase_of (jdb (snd (commit_each e us j1))) x)" for e
    using one two life_trans by blast
  then show ?thesis using one
    by (auto simp: commitBatch_def Let_def case_prod_beta j1_def [symmetric] intro: stay simp del: life_from
      split: option.split sum.split)
qed

lemma Commit_life:
  assumes "db_inv (jdb j)"
  shows "life LCommit (phase_of (jdb j) x) (phase_of (jdb (snd (Commit env j u))) x)"
  using commitBatch_life [OF assms, of x env "[u]"]
  by (auto simp: Commit_def intro: stay simp del: life_from split: prod.split list.split option.split)

section \<open>Progress and outcomes\<close>

lemma Claim_life:
  assumes "db_inv (jdb j)"
  shows "life LClaim (phase_of (jdb j) x) (phase_of (jdb (snd (Claim env j remote n))) x)"
proof (cases "Claim env j remote n")
  case (Pair r j')
  show ?thesis
  proof (cases r)
    case (Inr us)
    then have c: "Claim env j remote n = (Inr us, j')" using Pair by simp
    have disc: "upload_discarded (jdb j') = upload_discarded (jdb j)"
      using c mark_uploading_rest [of _ "jdb j"] unfolding Claim_def
      by (cases rule: tx_cases) (auto simp: Let_def, metis jdb.select_convs(7) jdb.surjective jdb.update_convs(1))
    have "r_state q = StatePending" if q: "row_of (jdb j) x = Some q" and hit: "x \<in> r_id ` set (claim_rows env remote n (jdb j))" for q
    proof -
      obtain p where p: "p \<in> set (claim_rows env remote n (jdb j))" "r_id p = x" using hit by blast
      then have "row_of (jdb j) x = Some p" using claim_rows_in [OF p(1)] assms by (simp add: row_of_iff db_inv_def)
      then show ?thesis using q claim_rows_in [OF p(1)] by (simp add: claimable_def)
    qed
    then show ?thesis
      using disc Claim_ok(2) [OF c, of x] c by (auto intro!: life_rows intro: stay simp: claim)
  next
    case (Inl e)
    then have "j' = j" using Pair unfolding Claim_def by (auto elim: tx_cases)
    then show ?thesis using Pair by (simp add: stay)
  qed
qed

text \<open>Notes on a row that leave its state alone.\<close>

lemma note_life:
  "life LNote (phase_of (jdb j) x) (phase_of (jdb (snd (Retarget env j uid pid nm))) x)"
  "life LNote (phase_of (jdb j) x) (phase_of (jdb (snd (SetSession env j uid m))) x)"
  "life LNote (phase_of (jdb j) x) (phase_of (jdb (snd (RecordPart env j uid p))) x)"
  "life LNote (phase_of (jdb j) x) (phase_of (jdb (snd (Tombstone env j uid))) x)"
  "life LNote (phase_of (jdb j) x) (phase_of (jdb (snd (MarkPublished env j uid))) x)"
proof -
  have "row_of (d\<lparr>uploads := upd_where (\<lambda>r. r_id r = uid \<and> r_state r = StatePending)
      (\<lambda>r. r\<lparr>r_remote_parent_id := pid, r_name := nm\<rparr>) (uploads d)\<rparr>) x =
    map_option (\<lambda>r. if r_id r = uid \<and> r_state r = StatePending then r\<lparr>r_remote_parent_id := pid, r_name := nm\<rparr> else r)
      (row_of d x)" for d
    by (simp add: row_of_def sel_one_upd_where)
  then show "life LNote (phase_of (jdb j) x) (phase_of (jdb (snd (Retarget env j uid pid nm))) x)"
    unfolding Retarget_def by (intro life_tx life_rows) (auto simp: guarded_Inr split: if_splits)
qed (auto simp: SetSession_def RecordPart_def Let_def Tombstone_def MarkPublished_def guarded_Inr keeps_keys_def stay
    intro!: life_tx life_upd simp del: life_from split: if_splits)

lemma succeed_tx_discarded: "succeed_tx env uid d = Inr (b, d') \<Longrightarrow> upload_discarded d' = upload_discarded d"
proof -
  have "upload_discarded (forget_all ids e) = upload_discarded e" for ids e
    by (induction ids arbitrary: e) (simp_all add: forget_upload_def)
  then show "succeed_tx env uid d = Inr (b, d') \<Longrightarrow> upload_discarded d' = upload_discarded d"
    by (auto simp: succeed_tx_def guarded_Inr pruneDoneTx_def upd_id_def split: option.splits)
qed

lemma Succeed_life:
  assumes "db_inv (jdb j)"
  shows "life LSucceed (phase_of (jdb j) x) (phase_of (jdb (snd (Succeed env j uid))) x)"
proof -
  have "life LSucceed (phase_of (jdb j) x) (phase_of d x)" if ok: "succeed_tx env uid (jdb j) = Inr (b, d)" for b d
  proof -
    obtain r where r: "row_of (jdb j) uid = Some r" "r_state r \<notin> {StatePurging, StateCancelled, StateCancelling}"
      "row_of d uid = Some (finish_row env r)"
      "\<forall>x. x \<noteq> uid \<longrightarrow> row_of d x = row_of (jdb j) x \<or> (\<exists>q. row_of (jdb j) x = Some q \<and> row_of d x = None \<and>
        pruned (unixMilli (now env - doneRetention)) q d)"
      using succeed_tx_rows [OF assms ok] by metis
    show ?thesis
    proof (rule life_rows)
      show "upload_discarded d = upload_discarded (jdb j)" using ok by (rule succeed_tx_discarded)
      show "row_of d x = None" if "row_of (jdb j) x = None"
        using r(1,4) that by (cases "x = uid") auto
      show "life LSucceed (At (r_state q)) (case row_of d x of None \<Rightarrow> Absent | Some r' \<Rightarrow> At (r_state r'))"
        if q: "row_of (jdb j) x = Some q" for q
      proof (cases "x = uid")
        case True
        then show ?thesis using r q by (simp add: halted_def finish_row_def)
      next
        case False
        then consider "row_of d x = Some q" | "row_of d x = None" "r_state q = StateDone"
          using r(4) q by (auto simp: pruned_def finished_def)
        then show ?thesis by cases simp_all
      qed
    qed
  qed
  then have "life LSucceed (phase_of (jdb j) x) (phase_of (jdb (snd (tx env (succeed_tx env uid) j))) x)"
    by (intro life_tx)
  then show ?thesis by (auto simp: Succeed_def simp del: life_from split: prod.split sum.split)
qed

lemma outcome_life:
  "life LRetry (phase_of (jdb j) x) (phase_of (jdb (snd (RetryUpload env j uid c t))) x)"
  "life LRetry (phase_of (jdb j) x) (phase_of (jdb (snd (Defer env j uid t w))) x)"
  "life LFail (phase_of (jdb j) x) (phase_of (jdb (snd (Fail env j uid c))) x)"
  "life LRequeue (phase_of (jdb j) x) (phase_of (jdb (snd (Requeue env j uid))) x)"
  unfolding RetryUpload_def Defer_def Fail_def Requeue_def Let_def
  by (auto simp: guarded_Inr keeps_keys_def guard_not_halted intro!: life_tx life_upd split: option.splits if_splits)

section \<open>Drops\<close>

lemma drop_rows_life:
  assumes "\<And>r. row_of d uid = Some r \<Longrightarrow> \<not> halted (r_state r)"
  shows "life LDrop (phase_of d x) (phase_of (drop_rows uid d) x)"
proof -
  have "upload_discarded (drop_rows uid d) = upload_discarded d" by (simp add: drop_rows_def)
  then show ?thesis using assms by (intro life_rows) (auto simp: row_of_drop_rows)
qed

lemma dropIdle_life: "life LDrop (phase_of (jdb j) x) (phase_of (jdb (snd (dropIdle env j uid po))) x)"
proof (cases "dropIdle env j uid po")
  case (Pair r j')
  then show ?thesis
  proof (cases rule: dropIdle_cases)
    case (2 q)
    then show ?thesis using Pair drop_rows_life [of "jdb j" uid x] by (auto simp: halted_def simp del: life_from)
  qed (simp add: Pair stay)
qed

lemma drop_ids_life: "life LDrop (phase_of (jdb j) x) (phase_of (jdb (snd (drop_ids env ids n j))) x)"
proof (induction ids arbitrary: env n j)
  case (Cons uid ids)
  obtain r j1 where d: "dropIdle env j uid True = (r, j1)" by fastforce
  then have "life LDrop (phase_of (jdb j) x) (phase_of (jdb j1) x)" using dropIdle_life [of j x env uid True] by simp
  moreover note Cons.IH [of j1]
  ultimately have "life LDrop (phase_of (jdb j) x) (phase_of (jdb (snd (drop_ids e ids m j1))) x)" for e m
    using life_trans by blast
  with \<open>life LDrop (phase_of (jdb j) x) (phase_of (jdb j1) x)\<close> show ?case
    by (cases r) (simp_all add: d del: life_from)
qed (simp add: stay)

lemma Drop_life: "life LDrop (phase_of (jdb j) x) (phase_of (jdb (snd (Drop env j uid))) x)"
proof -
  have "life LDrop (phase_of (jdb j) x) (phase_of (jdb (snd (tx (after 1 env) (drop_tx uid) j))) x)"
  proof (rule life_tx)
    fix a d assume t: "drop_tx uid (jdb j) = Inr (a, d)"
    then have "d = drop_rows uid (jdb j)" "guardNotCancelled (jdb j) uid = None" by (auto simp: drop_tx_def guarded_Inr)
    then show "life LDrop (phase_of (jdb j) x) (phase_of d x)"
      using drop_rows_life [of "jdb j" uid x] guard_not_halted [of "jdb j" uid] by (auto simp del: life_from)
  qed
  then show ?thesis by (auto simp: Drop_def intro: stay simp del: life_from split: prod.split sum.split)
qed

lemma drop_all_life: "life LDrop (phase_of (jdb j) x) (phase_of (jdb (snd (drop_all env ids j))) x)"
proof (induction ids arbitrary: env j)
  case (Cons uid ids)
  obtain r j1 where d: "Drop env j uid = (r, j1)" by fastforce
  then have one: "life LDrop (phase_of (jdb j) x) (phase_of (jdb j1) x)" using Drop_life [of j x env uid] by simp
  then have "life LDrop (phase_of (jdb j) x) (phase_of (jdb (snd (drop_all e ids j1))) x)" for e
    using Cons.IH [of j1] life_trans by blast
  with one show ?case by (cases r) (simp_all add: d del: life_from)
qed (simp add: stay)

lemma drop_life:
  "life LDrop (phase_of (jdb j) x) (phase_of (jdb (snd (DropPending env j uid))) x)"
  "life LDrop (phase_of (jdb j) x) (phase_of (jdb (snd (DropSuperseded env j remote ino keepID))) x)"
  "life LDrop (phase_of (jdb j) x) (phase_of (jdb (snd (Purge env j age))) x)"
proof -
  show "life LDrop (phase_of (jdb j) x) (phase_of (jdb (snd (DropPending env j uid))) x)"
    unfolding DropPending_def by (rule dropIdle_life)
  show "life LDrop (phase_of (jdb j) x) (phase_of (jdb (snd (DropSuperseded env j remote ino keepID))) x)"
    by (auto simp: DropSuperseded_def intro: stay drop_ids_life simp del: life_from split: sum.split)
  show "life LDrop (phase_of (jdb j) x) (phase_of (jdb (snd (Purge env j age))) x)"
    using drop_all_life [of j x "after 1 env"]
    by (auto simp: Purge_def Let_def intro: stay simp del: life_from split: sum.split prod.split) (metis snd_conv)+
qed

section \<open>Stop, discard and resume\<close>

lemma RequestCancel_life: "life LStop (phase_of (jdb j) x) (phase_of (jdb (snd (RequestCancel env j uid))) x)"
  unfolding RequestCancel_def
  by (auto simp: keeps_keys_def stop_state_def stay intro!: life_tx life_upd split: option.splits if_splits)

lemma FinishCancel_life:
  assumes "l \<in> {LStopped, LRecover}"
  shows "life l (phase_of (jdb j) x) (phase_of (jdb (snd (FinishCancel env j uid))) x)"
proof -
  have "row_of (d\<lparr>uploads := upd_where (\<lambda>r. r_id r = uid \<and> r_state r = StateCancelling)
      (\<lambda>r. r\<lparr>r_state := StateCancelled\<rparr>) (uploads d)\<rparr>) x =
    map_option (\<lambda>r. if r_id r = uid \<and> r_state r = StateCancelling then r\<lparr>r_state := StateCancelled\<rparr> else r) (row_of d x)" for d
    by (simp add: row_of_def sel_one_upd_where)
  then show ?thesis
    using assms unfolding FinishCancel_def by (auto simp: stay intro!: life_tx life_rows)
qed

lemma BeginUploadCleanup_life:
  "life LPurge (phase_of (jdb j) x) (phase_of (jdb (snd (BeginUploadCleanup env j uid mi))) x)"
  unfolding BeginUploadCleanup_def begin_cleanup_tx_def
  by (auto simp: keeps_keys_def stay intro!: life_tx life_upd split: option.splits if_splits sum.splits)

lemma finish_cleanup_tx_life:
  assumes "finish_cleanup_tx env j uid mi d fs = (Inr (a, d'), fs')"
  shows "life LDiscard (phase_of d x) (phase_of d' x)"
proof -
  consider "d' = d" | out p where "uploadCleanupTx env j uid mi d = Inr out"
      "\<forall>c \<in> set (upload_discarded d). cl_upload c \<noteq> uid" "d' = discard_rows uid mi p d"
    using assms by (auto simp: finish_cleanup_tx_def Let_def split: sum.splits option.splits if_splits prod.splits)
  then show ?thesis
  proof cases
    case 2
    obtain r where r: "row_of d uid = Some r" "r_state r = StatePurging"
      using 2(1) by (auto simp: uploadCleanupTx_def split: option.splits if_splits)
    have "uid \<notin> cl_upload ` set (upload_discarded d)" using 2(2) by (metis imageE)
    then have "phase_of d uid = At StatePurging" using r by (simp add: phase_of_def)
    moreover have "phase_of d' x = (if x = uid then Discarded else phase_of d x)"
      using row_of_forget_upload [of uid d x] unfolding 2(3) by (simp add: discard_rows_def phase_of_def row_of_def)
    ultimately show ?thesis by (simp add: stay)
  qed (simp add: stay)
qed

lemma FinishUploadCleanup_life:
  "life LDiscard (phase_of (jdb j) x) (phase_of (jdb (snd (FinishUploadCleanup env j uid mi))) x)"
  using finish_cleanup_tx_life [of env j uid mi "jdb j" "jos j"]
  by (auto simp: FinishUploadCleanup_def txf_def stay simp del: life_from split: sum.split prod.split)

lemma resume_commit_life:
  "life LResume (phase_of (jdb j) x) (phase_of (jdb (snd (resume_commit env j p b))) x)"
  unfolding resume_commit_def resume_tx_def Let_def
  by (auto simp: resume_changed_def intro!: life_tx life_upd split: option.splits if_splits)

lemma resume_life:
  "life LResume (phase_of (jdb j) x) (phase_of (jdb (snd (CommitBound env j p b))) x)"
  "life LResume (phase_of (jdb j) x) (phase_of (jdb (snd (CommitResume env j p))) x)"
  using resume_commit_life by (auto simp: CommitBound_def CommitResume_def Let_def stay simp del: life_from)

section \<open>Restart\<close>

lemma recover_cancels_life:
  "life LRecover (phase_of (jdb j) x) (phase_of (jdb (snd (snd (recover_cancels env us j)))) x)"
proof (induction us arbitrary: env j)
  case (Cons u us)
  obtain r j1 where f: "FinishCancel env j (u_ID u) = (r, j1)" by fastforce
  then have one: "life LRecover (phase_of (jdb j) x) (phase_of (jdb j1) x)"
    using FinishCancel_life [of LRecover j x env "u_ID u"] by simp
  then have "life LRecover (phase_of (jdb j) x) (phase_of (jdb (snd (snd (recover_cancels e us j1)))) x)" for e
    using Cons.IH [of j1] life_trans by blast
  with one Cons.IH [of j] show ?case by (cases r) (simp_all add: f del: life_from)
qed (simp add: stay)

lemma recover_row_life:
  assumes "\<And>r. row_of (jdb j) uid = Some r \<Longrightarrow> r_state r \<in> {StatePending, StateUploading}"
  shows "life LRecover (phase_of (jdb j) x) (phase_of (jdb (snd (Fail env j uid c))) x)"
    and "life LRecover (phase_of (jdb j) x) (phase_of (jdb (snd (RetryUpload env j uid c t))) x)"
  unfolding Fail_def RetryUpload_def Let_def
  using assms by (auto simp: guarded_Inr keeps_keys_def intro!: life_tx life_upd split: option.splits if_splits)

lemma recover_rows_life:
  assumes "distinct (map u_ID us)"
    and "\<forall>u \<in> set us. \<forall>r. row_of (jdb j) (u_ID u) = Some r \<longrightarrow> r_state r \<in> {StatePending, StateUploading}"
  shows "life LRecover (phase_of (jdb j) x) (phase_of (jdb (snd (snd (snd (recover_rows env us rec j))))) x)"
  using assms
proof (induction us arbitrary: env rec j)
  case (Cons u us)
  have st: "\<And>r. row_of (jdb j) (u_ID u) = Some r \<Longrightarrow> r_state r \<in> {StatePending, StateUploading}" using Cons.prems(2) by simp
  have go: "life LRecover (phase_of (jdb j) x) (phase_of (jdb (snd (snd (snd (recover_rows e us rc j1))))) x)"
    if one: "life LRecover (phase_of (jdb j) x) (phase_of (jdb j1) x)"
      and same: "\<And>y. y \<noteq> u_ID u \<Longrightarrow> row_of (jdb j1) y = row_of (jdb j) y" for e rc j1
  proof -
    have "r_state r \<in> {StatePending, StateUploading}" if w: "w \<in> set us" and r: "row_of (jdb j1) (u_ID w) = Some r" for w r
    proof -
      have "u_ID w \<noteq> u_ID u" using Cons.prems(1) w by (metis distinct.simps(2) image_eqI list.set_map list.simps(9))
      then show ?thesis using same [of "u_ID w"] Cons.prems(2) w r by simp
    qed
    then have "life LRecover (phase_of (jdb j1) x) (phase_of (jdb (snd (snd (snd (recover_rows e us rc j1))))) x)"
      using Cons.prems(1) by (intro Cons.IH) auto
    then show ?thesis using one life_trans by blast
  qed
  show ?case
  proof (cases "verifyBlob env j u")
    case (Some cause)
    obtain r j1 where f: "Fail env j (u_ID u) (Some cause) = (r, j1)" by fastforce
    then have one: "life LRecover (phase_of (jdb j) x) (phase_of (jdb j1) x)"
      using recover_row_life(1) [of j "u_ID u" x env "Some cause", OF st] by simp
    show ?thesis
    proof (cases r)
      case (Inr v)
      then show ?thesis using go [OF one] Fail_row(1) [OF f [unfolded Inr]] f Some by (simp del: life_from)
    qed (simp add: Some f one del: life_from)
  next
    case None
    show ?thesis
    proof (cases "u_State u = StateUploading")
      case True
      obtain r j1 where f: "RetryUpload env j (u_ID u) (Some interrupted_msg) 0 = (r, j1)" by fastforce
      then have one: "life LRecover (phase_of (jdb j) x) (phase_of (jdb j1) x)"
        using recover_row_life(2) [of j "u_ID u" x env "Some interrupted_msg" 0, OF st] by simp
      show ?thesis
      proof (cases r)
        case (Inr v)
        then show ?thesis using go [OF one] RetryUpload_row(1) [OF f [unfolded Inr]] f None True by (simp del: life_from)
      qed (simp add: None True f one del: life_from)
    next
      case False
      then show ?thesis using go [OF stay refl] None by (simp del: life_from)
    qed
  qed
qed (simp add: stay)

lemma Recover_life:
  assumes "db_inv (jdb j)"
  shows "life LRecover (phase_of (jdb j) x) (phase_of (jdb (snd (Recover env j))) x)"
proof -
  let ?q = "sel_where (\<lambda>r. r_state r = StatePending \<or> r_state r = StateUploading)"
  obtain e env1 j1 where c: "recover_cancels (after 1 env) (map scanUpload (uploads (jdb j))) j = (e, env1, j1)"
    by (metis prod.exhaust)
  have one: "life LRecover (phase_of (jdb j) x) (phase_of (jdb j1) x)"
    using recover_cancels_life [of j x "after 1 env" "map scanUpload (uploads (jdb j))"] c by simp
  have inv: "db_inv (jdb j1)"
    using recover_cancels_inv [OF assms, of "after 1 env" "map scanUpload (uploads (jdb j))"] c by simp
  have ids: "distinct (map r_id (uploads (jdb j1)))" using inv by (simp add: db_inv_def upload_inv_ids)
  have "r_state r \<in> {StatePending, StateUploading}"
    if q: "q \<in> set (?q (uploads (jdb j1)))" and r: "row_of (jdb j1) (r_id q) = Some r" for q r
  proof -
    have "row_of (jdb j1) (r_id q) = Some q" using q inv by (simp add: row_of_iff db_inv_def table_simps)
    then show ?thesis using q r by (simp add: table_simps)
  qed
  then have "life LRecover (phase_of (jdb j1) x) (phase_of (jdb (snd (snd (snd
      (recover_rows e2 (map scanUpload (?q (uploads (jdb j1)))) rc j1))))) x)" for e2 rc
    using distinct_map_sel_where [OF ids] by (intro recover_rows_life) (auto simp: comp_def)
  then have two: "life LRecover (phase_of (jdb j) x) (phase_of (jdb (snd (snd (snd
      (recover_rows e2 (map scanUpload (?q (uploads (jdb j1)))) rc j1))))) x)" for e2 rc
    using one life_trans by blast
  have three: "life LRecover (phase_of (jdb j) x) (phase_of (jdb (snd (case recover_rows e2 (map scanUpload (?q (uploads (jdb j1)))) rc j1 of
      (Some e, _, _, j2) \<Rightarrow> (Inl e, j2) | (None, env2, rec, j2) \<Rightarrow> recover_files env2 j2 live L rec))) x)" for e2 rc live L
    using two [of e2 rc] by (auto simp del: life_from split: prod.split option.split)
  show ?thesis
    using one three unfolding Recover_def list_uploads_def dbq_def
    by (cases e) (simp_all add: c stay del: One_nat_def life_from split: sum.split)
qed

end
