(* ===== verification/JournalSystem.thy ===== *)
theory JournalSystem
  imports LifeCycle StagingProps
begin

text \<open>
  The journal as a system: its operations as calls, its steps with the files and the process
  changing in between, and what holds along every sequence of steps. The labels of the steps are
  those of the life cycle, which every step refines.
\<close>

section \<open>Copies do not move uploads\<close>

text \<open>A view of the tables in which the tables of copies do not show: no operation on copies changes it.\<close>

locale upload_view =
  fixes view :: "jdb \<Rightarrow> 'v"
  assumes no_copies [simp]: "view (copy_jobs_update f d) = view d" "view (copy_cleanup_update g d) = view d"
    "view (server_copies_update h d) = view d"
begin

lemma tx_view:
  assumes "\<And>a d. fn (jdb j) = Inr (a, d) \<Longrightarrow> view d = view (jdb j)"
  shows "view (jdb (snd (tx env fn j))) = view (jdb j)"
proof (cases "tx env fn j")
  case (Pair r j')
  then show ?thesis by (cases rule: tx_cases) (use assms Pair in auto)
qed

lemma upd_copy_view: "upd_copy uid P f d = Inr (a, d') \<Longrightarrow> view d' = view d"
  using upd_copyD(1) [of uid P f d a d'] by simp

lemma publish_copy_view: "view (jdb (snd (publish_copy env j s job))) = view (jdb j)"
proof -
  have "view (jdb (snd (insertCopy env j1 job))) = view (jdb j1)" for j1
    unfolding insertCopy_def by (rule tx_view) (auto simp: Let_def split: if_splits)
  then show ?thesis by (auto simp: publish_copy_def case_prod_beta split: option.split sum.split)
qed

lemma openCopy_view: "view (jdb (snd (openCopy env j uid mode))) = view (jdb j)"
proof -
  have "view (jdb (snd (tx e (retry_tx job) j1))) = view (jdb j1)" for e job j1
    by (rule tx_view) (auto simp: retry_tx_def Let_def upd_copy_view split: if_splits)
  then have "view (jdb (snd (open_finish e j1 m job s))) = view (jdb j1)" for e j1 m job s
    by (auto simp: open_finish_def case_prod_beta split: sum.split)
  then show ?thesis by (auto simp: openCopy_def dest!: copy_frame split: sum.split prod.split)
qed

lemma checkpoint_view: "view (jdb (snd (snd (checkpoint env j c)))) = view (jdb j)"
proof -
  have "view (jdb (snd (tx env (upd_copy uid P f) j))) = view (jdb j)" for uid P f
    by (rule tx_view) (rule upd_copy_view)
  then show ?thesis by (auto simp: checkpoint_def Let_def case_prod_beta split: sum.split option.split)
qed

lemma with_copy_view:
  assumes "\<And>j1. view (jdb (snd (body j1))) = view (jdb j1)"
  shows "view (jdb (snd (with_copy j uid body))) = view (jdb j)"
  using assms by (simp add: with_copy_def case_prod_beta Let_def split: option.split)

lemma FinishCopyCleanup_view: "view (jdb (snd (FinishCopyCleanup env j uid))) = view (jdb j)"
proof -
  have fin: "view d' = view d" if "finish_copy_cleanup_tx env dur uid p d fs = (Inr (a, d'), fs')"
    for dur p d fs a d' fs'
    using that by (auto simp: finish_copy_cleanup_tx_def split: if_splits option.splits prod.splits)
  have "view (jdb (snd (txf env (finish_copy_cleanup_tx env dur uid p) j1))) = view (jdb j1)" for dur p j1
    using fin [of dur p "jdb j1" "jos j1"] by (auto simp: txf_def split: sum.split prod.split)
  then show ?thesis by (simp add: FinishCopyCleanup_def with_copy_view split: sum.split)
qed

lemma copy_tx_view:
  "view (jdb (snd (tx env (fail_copy_tx uid reason) j))) = view (jdb j)"
  "view (jdb (snd (tx env (cancel_copy_tx uid) j))) = view (jdb j)"
  "view (jdb (snd (tx env (begin_copy_cleanup_tx uid p) j))) = view (jdb j)"
  "view (jdb (snd (tx env (begin_server_copy_tx uid spec) j))) = view (jdb j)"
  by (rule tx_view, auto simp: fail_copy_tx_def cancel_copy_tx_def begin_copy_cleanup_tx_def begin_server_copy_tx_def
    guarded_Inr upd_copy_view split: option.splits if_splits)+

lemma copy_view:
  "view (jdb (snd (BeginCopy env uid j spec want))) = view (jdb j)"
  "view (jdb (snd (BeginCopyFromWhole env uid1 uid2 j spec src name want))) = view (jdb j)"
  "view (jdb (snd (RetryCopy env j uid))) = view (jdb j)"
  "view (jdb (snd (FailCopy env j uid reason))) = view (jdb j)"
  "view (jdb (snd (CancelCopy env j uid))) = view (jdb j)"
  "view (jdb (snd (BeginCopyCleanup env j uid))) = view (jdb j)"
  "view (jdb (snd (BeginServerCopy env uid j sspec))) = view (jdb j)"
  "view (jdb (snd (FinishServerCopy env j uid))) = view (jdb j)"
  "view (jdb (snd (NoteServerCopyError env j uid reason))) = view (jdb j)"
proof -
  show "view (jdb (snd (BeginCopy env uid j spec want))) = view (jdb j)"
    by (auto simp: BeginCopy_def publish_copy_view dest!: copy_frame split: option.split prod.split sum.split)
  show "view (jdb (snd (BeginCopyFromWhole env uid1 uid2 j spec src name want))) = view (jdb j)"
    by (auto simp: BeginCopyFromWhole_def Let_def publish_copy_view dest!: copy_frame
      split: option.split prod.split sum.split)
  show "view (jdb (snd (RetryCopy env j uid))) = view (jdb j)"
    using openCopy_view [of env j uid copyRetry]
    by (auto simp: RetryCopy_def case_prod_beta split: sum.split)
  show "view (jdb (snd (FinishServerCopy env j uid))) = view (jdb j)"
    "view (jdb (snd (NoteServerCopyError env j uid reason))) = view (jdb j)"
    unfolding FinishServerCopy_def NoteServerCopyError_def by (rule tx_view; auto)+
qed (simp_all add: FailCopy_def CancelCopy_def BeginCopyCleanup_def BeginServerCopy_def with_copy_view copy_tx_view
    split: sum.split option.split)

end

interpretation ph: upload_view "\<lambda>d. phase_of d x" for x
  by unfold_locales simp_all

lemma Submit_life:
  assumes "db_inv (jdb j)"
  shows "life LCommit (phase_of (jdb j) x) (phase_of (jdb (snd (snd (Submit env j c u)))) x)"
proof -
  have "life LCommit (phase_of (jdb j) x) (phase_of d x)" if ok: "submit_tx env j v (jdb j) = Inr (a, d)" for v a d
  proof -
    obtain b d1 where up: "upd_copy (u_ID v) (\<lambda>c. cj_state c = CopyReady) (\<lambda>c. c\<lparr>cj_state := CopySubmitted\<rparr>) (jdb j) = Inr (b, d1)"
        and ins: "insertUploadTx env j v d1 = Inr (a, d)"
      using ok by (auto simp: submit_tx_def split: if_splits sum.splits)
    have "upload_inv d1" using assms upd_copyD(1) [OF up] by (simp add: db_inv_def inv_frame)
    then show ?thesis using insertUploadTx_life [OF _ ins, of x] ph.upd_copy_view [OF up, of x] by simp
  qed
  then have "life LCommit (phase_of (jdb j) x) (phase_of (jdb (snd (tx env (submit_tx env j v) j))) x)" for v
    by (intro life_tx)
  then show ?thesis
    by (auto simp: Submit_def Let_def case_prod_beta stay simp del: life_from split: sum.split option.split)
qed

section \<open>Calls\<close>

text \<open>
  The operations that change tables, with their arguments. Reading operations and the writing,
  hashing and linking of staging files leave the tables alone: they are steps of the world below.
\<close>

datatype call =
    JCommit Upload | JBatch "Upload list" | JClaim string int
  | JRetarget string string string | JSetSession string "string \<rightharpoonup> string" | JRecordPart string Part
  | JTombstone string | JMarkPublished string
  | JSucceed string | JRetry string "string option" duration | JDefer string duration string
  | JFail string "string option" | JRequeue string
  | JDropPending string | JDropSuperseded string nat string | JDrop string | JPurge duration
  | JRequestCancel string | JFinishCancel string
  | JBeginCleanup string string | JFinishCleanup string string
  | JResume PreparedUploadResume | JResumeBound PreparedUploadResume UploadBinding
  | JRecover
  | JBeginCopy string CopySpec "HashType list"
  | JBeginCopyFromWhole string string CopySpec fnode string "HashType list"
  | JCheckpoint CopyStaging | JResumeCopy string | JRetryCopy string | JSubmit CopyStaging Upload
  | JFailCopy string string | JCancelCopy string | JBeginCopyCleanup string | JFinishCopyCleanup string
  | JBeginServerCopy string ServerCopySpec | JFinishServerCopy string | JNoteServerCopyError string string

fun exec :: "env \<Rightarrow> call \<Rightarrow> Journal \<Rightarrow> Journal" where
  "exec env (JCommit u) j = snd (Commit env j u)"
| "exec env (JBatch us) j = snd (commitBatch env j us)"
| "exec env (JClaim remote n) j = snd (Claim env j remote n)"
| "exec env (JRetarget uid pid nm) j = snd (Retarget env j uid pid nm)"
| "exec env (JSetSession uid m) j = snd (SetSession env j uid m)"
| "exec env (JRecordPart uid p) j = snd (RecordPart env j uid p)"
| "exec env (JTombstone uid) j = snd (Tombstone env j uid)"
| "exec env (JMarkPublished uid) j = snd (MarkPublished env j uid)"
| "exec env (JSucceed uid) j = snd (Succeed env j uid)"
| "exec env (JRetry uid c t) j = snd (RetryUpload env j uid c t)"
| "exec env (JDefer uid t w) j = snd (Defer env j uid t w)"
| "exec env (JFail uid c) j = snd (Fail env j uid c)"
| "exec env (JRequeue uid) j = snd (Requeue env j uid)"
| "exec env (JDropPending uid) j = snd (DropPending env j uid)"
| "exec env (JDropSuperseded remote ino keep) j = snd (DropSuperseded env j remote ino keep)"
| "exec env (JDrop uid) j = snd (Drop env j uid)"
| "exec env (JPurge age) j = snd (Purge env j age)"
| "exec env (JRequestCancel uid) j = snd (RequestCancel env j uid)"
| "exec env (JFinishCancel uid) j = snd (FinishCancel env j uid)"
| "exec env (JBeginCleanup uid mi) j = snd (BeginUploadCleanup env j uid mi)"
| "exec env (JFinishCleanup uid mi) j = snd (FinishUploadCleanup env j uid mi)"
| "exec env (JResume p) j = snd (CommitResume env j p)"
| "exec env (JResumeBound p b) j = snd (CommitBound env j p b)"
| "exec env JRecover j = snd (Recover env j)"
| "exec env (JBeginCopy uid spec want) j = snd (BeginCopy env uid j spec want)"
| "exec env (JBeginCopyFromWhole uid uid2 spec src name want) j = snd (BeginCopyFromWhole env uid uid2 j spec src name want)"
| "exec env (JCheckpoint c) j = snd (snd (checkpoint env j c))"
| "exec env (JResumeCopy uid) j = snd (ResumeCopy env j uid)"
| "exec env (JRetryCopy uid) j = snd (RetryCopy env j uid)"
| "exec env (JSubmit c u) j = snd (snd (Submit env j c u))"
| "exec env (JFailCopy uid reason) j = snd (FailCopy env j uid reason)"
| "exec env (JCancelCopy uid) j = snd (CancelCopy env j uid)"
| "exec env (JBeginCopyCleanup uid) j = snd (BeginCopyCleanup env j uid)"
| "exec env (JFinishCopyCleanup uid) j = snd (FinishCopyCleanup env j uid)"
| "exec env (JBeginServerCopy uid spec) j = snd (BeginServerCopy env uid j spec)"
| "exec env (JFinishServerCopy uid) j = snd (FinishServerCopy env j uid)"
| "exec env (JNoteServerCopyError uid reason) j = snd (NoteServerCopyError env j uid reason)"

fun label_of :: "call \<Rightarrow> label" where
  "label_of (JCommit u) = LCommit"
| "label_of (JBatch us) = LCommit"
| "label_of (JSubmit c u) = LCommit"
| "label_of (JClaim remote n) = LClaim"
| "label_of (JSucceed uid) = LSucceed"
| "label_of (JRetry uid c t) = LRetry"
| "label_of (JDefer uid t w) = LRetry"
| "label_of (JFail uid c) = LFail"
| "label_of (JRequeue uid) = LRequeue"
| "label_of (JDropPending uid) = LDrop"
| "label_of (JDropSuperseded remote ino keep) = LDrop"
| "label_of (JDrop uid) = LDrop"
| "label_of (JPurge age) = LDrop"
| "label_of (JRequestCancel uid) = LStop"
| "label_of (JFinishCancel uid) = LStopped"
| "label_of (JBeginCleanup uid mi) = LPurge"
| "label_of (JFinishCleanup uid mi) = LDiscard"
| "label_of (JResume p) = LResume"
| "label_of (JResumeBound p b) = LResume"
| "label_of JRecover = LRecover"
| "label_of _ = LNote"

lemma Recover_inv:
  assumes "db_inv (jdb j)"
  shows "db_inv (jdb (snd (Recover env j)))"
proof -
  have rows: "db_inv (jdb (snd (snd (snd (recover_rows e us rc k)))))" if "db_inv (jdb k)" for e us rc k
    using that
  proof (induction us arbitrary: e rc k)
    case (Cons u us)
    then show ?case
      using Fail_inv [OF Cons.prems, of e "u_ID u"] RetryUpload_inv [OF Cons.prems, of e "u_ID u"]
      by (auto split: option.split prod.split sum.split) (metis snd_conv)+
  qed simp
  obtain x env1 j1 where c: "recover_cancels (after 1 env) (map scanUpload (uploads (jdb j))) j = (x, env1, j1)"
    by (metis prod.exhaust)
  have inv: "db_inv (jdb j1)"
    using recover_cancels_inv [OF assms, of "after 1 env" "map scanUpload (uploads (jdb j))"] c by simp
  have "db_inv (jdb (snd (case recover_rows e us rc j1 of (Some e, _, _, j2) \<Rightarrow> (Inl e, j2)
      | (None, env2, rec, j2) \<Rightarrow> recover_files env2 j2 live L rec)))" for e us rc live L
    using rows [OF inv, of e us rc] by (auto split: prod.split option.split)
  then show ?thesis
    using inv assms unfolding Recover_def list_uploads_def dbq_def
    by (cases x) (simp_all add: c del: One_nat_def split: sum.split)
qed

lemma exec_inv: "db_inv (jdb j) \<Longrightarrow> db_inv (jdb (exec env c j))"
  by (cases c) (simp_all add: queue_inv copy_ops_inv Recover_inv BeginUploadCleanup_inv FinishUploadCleanup_inv
    CommitBound_inv resume_commit_inv CommitResume_def ResumeCopy_def)

lemma exec_life: "db_inv (jdb j) \<Longrightarrow> life (label_of c) (phase_of (jdb j) x) (phase_of (jdb (exec env c j)) x)"
  by (cases c) (simp_all add: Commit_life commitBatch_life Submit_life Claim_life note_life Succeed_life outcome_life
    drop_life Drop_life RequestCancel_life FinishCancel_life BeginUploadCleanup_life FinishUploadCleanup_life
    resume_life Recover_life ph.copy_view ph.openCopy_view ph.checkpoint_view ph.FinishCopyCleanup_view ResumeCopy_def stay
    del: life_from)

section \<open>Steps and traces\<close>

text \<open>
  Between calls anything may happen that leaves the tables alone: files are written or lost, the
  process dies and another one opens the journal. Each call runs in an environment of its own.
\<close>

inductive jstep :: "label \<Rightarrow> Journal \<Rightarrow> Journal \<Rightarrow> bool" where
  call: "jstep (label_of c) j (exec env c j)"
| world: "jdb j' = jdb j \<Longrightarrow> jstep LNote j j'"

inductive trace :: "label list \<Rightarrow> Journal \<Rightarrow> Journal \<Rightarrow> bool" where
  nil: "trace [] j j"
| snoc: "trace ls j j' \<Longrightarrow> jstep l j' j'' \<Longrightarrow> trace (ls @ [l]) j j''"

lemma jstep_refines:
  assumes "jstep l j j'" "db_inv (jdb j)"
  shows "life l (phase_of (jdb j) x) (phase_of (jdb j') x)" "db_inv (jdb j')"
  using assms by (cases rule: jstep.cases; simp add: exec_life exec_inv stay del: life_from)+

lemma trace_inv: "trace ls j j' \<Longrightarrow> db_inv (jdb j) \<Longrightarrow> db_inv (jdb j')"
  by (induction rule: trace.induct) (auto intro: jstep_refines(2))

text \<open>An abstract invariant of the life cycle carries over to every trace.\<close>

lemma trace_invariant:
  assumes "trace ls j j'" "db_inv (jdb j)" "P (phase_of (jdb j) x)"
    and "\<And>l p q. l \<in> set ls \<Longrightarrow> life l p q \<Longrightarrow> P p \<Longrightarrow> P q"
  shows "P (phase_of (jdb j') x)"
  using assms
proof (induction rule: trace.induct)
  case (snoc ls j j' l j'')
  have "db_inv (jdb j')" using snoc.hyps(1) snoc.prems(1) by (rule trace_inv)
  then have "life l (phase_of (jdb j') x) (phase_of (jdb j'') x)" using snoc.hyps(2) by (rule jstep_refines(1) [rotated])
  moreover have "P (phase_of (jdb j') x)" using snoc.prems by (intro snoc.IH) auto
  ultimately show ?case using snoc.prems(3) [of l] by auto
qed

text \<open>Phases out of which only a resume leads, and the one out of which nothing does.\<close>

definition held :: "phase \<Rightarrow> bool" where
  "held p \<longleftrightarrow> p = Discarded \<or> (\<exists>s. p = At s \<and> halted s)"

lemma life_held: "life l p q \<Longrightarrow> l \<noteq> LResume \<Longrightarrow> held p \<Longrightarrow> held q"
  by (cases rule: life.cases) (auto simp: held_def halted_def)

lemma life_discarded: "life l Discarded q \<Longrightarrow> q = Discarded"
  by simp

lemma Claim_not_held:
  assumes "db_inv (jdb j)" "Claim env j remote n = (Inr us, j')" "held (phase_of (jdb j) x)"
  shows "x \<notin> set (map u_ID us)"
proof
  assume "x \<in> set (map u_ID us)"
  then obtain q where q: "q \<in> set (claim_rows env remote n (jdb j))" "r_id q = x"
    using Claim_ok(1) [OF assms(2)] by auto
  have "row_of (jdb j) x = Some q" "r_state q = StatePending"
    using claim_rows_in [OF q(1)] q(2) assms(1) by (simp_all add: row_of_iff db_inv_def claimable_def)
  moreover have "x \<notin> cl_upload ` set (upload_discarded (jdb j))"
    using calculation(1) assms(1) row_of_None_iff [of "jdb j" x] upload_inv_discarded [of "jdb j"]
    by (auto simp: db_inv_def)
  ultimately show False using assms(3) by (simp add: phase_of_def held_def halted_def)
qed

end
