(* ===== verification/ResumeRace.thy ===== *)
theory ResumeRace
  imports JournalSystem
begin

text \<open>
  Resumes against stops. The revision that every stop bumps only grows while the row is there, whatever
  the journal is asked to do, so that a resume prepared before a stop can never be committed after it.
\<close>

section \<open>Who writes revisions\<close>

interpretation rv: upload_view upload_cancellation
  by unfold_locales simp_all

lemma upsert_cancellation [simp]: "upload_cancellation (upsert_upload u d) = upload_cancellation d"
  by (simp add: upsert_upload_def split: option.split)

lemma insertUploadTx_cancellation:
  "insertUploadTx env j u d = Inr (a, d') \<Longrightarrow> upload_cancellation d' = upload_cancellation d"
  by (erule insertUploadTx_cases) simp

lemma insert_all_cancellation:
  "insert_all env j us d = Inr (a, d') \<Longrightarrow> upload_cancellation d' = upload_cancellation d"
  by (induction us arbitrary: d) (auto split: sum.splits dest: insertUploadTx_cancellation)

lemma commit_each_cancellation:
  "upload_cancellation (jdb (snd (commit_each env us j))) = upload_cancellation (jdb j)"
proof (induction us arbitrary: env j)
  case (Cons u us)
  have "upload_cancellation (jdb (snd (tx env (insertUploadTx env j u) j))) = upload_cancellation (jdb j)"
    by (rule rv.tx_view) (rule insertUploadTx_cancellation)
  then show ?case using Cons.IH by (simp add: Let_def case_prod_beta)
qed simp

lemma commit_cancellation:
  "upload_cancellation (jdb (snd (commitBatch env j us))) = upload_cancellation (jdb j)"
  "upload_cancellation (jdb (snd (Commit env j u))) = upload_cancellation (jdb j)"
  "upload_cancellation (jdb (snd (snd (Submit env j c v)))) = upload_cancellation (jdb j)"
proof -
  have all: "upload_cancellation (jdb (snd (tx env (insert_all env j us) j))) = upload_cancellation (jdb j)" for us
    by (rule rv.tx_view) (rule insert_all_cancellation)
  show batch: "upload_cancellation (jdb (snd (commitBatch env j us))) = upload_cancellation (jdb j)" for us
    using all [of us] commit_each_cancellation
    by (simp add: commitBatch_def Let_def case_prod_beta split: option.split sum.split)
  show "upload_cancellation (jdb (snd (Commit env j u))) = upload_cancellation (jdb j)"
    using batch [of "[u]"] by (auto simp: Commit_def split: prod.split list.split option.split)
  have "upload_cancellation (jdb (snd (tx env (submit_tx env j w) j))) = upload_cancellation (jdb j)" for w
    by (rule rv.tx_view)
      (auto simp: submit_tx_def dest!: insertUploadTx_cancellation rv.upd_copy_view split: if_splits sum.splits)
  then show "upload_cancellation (jdb (snd (snd (Submit env j c v)))) = upload_cancellation (jdb j)"
    by (simp add: Submit_def Let_def case_prod_beta split: sum.split option.split)
qed

lemma mark_uploading_cancellation [simp]: "upload_cancellation (mark_uploading ids d) = upload_cancellation d"
  by (induction ids arbitrary: d) simp_all

lemma tx_cancellation:
  "upload_cancellation (jdb (snd (Claim env j remote n))) = upload_cancellation (jdb j)"
  "upload_cancellation (jdb (snd (Retarget env j uid pid nm))) = upload_cancellation (jdb j)"
  "upload_cancellation (jdb (snd (SetSession env j uid m))) = upload_cancellation (jdb j)"
  "upload_cancellation (jdb (snd (RecordPart env j uid p))) = upload_cancellation (jdb j)"
  "upload_cancellation (jdb (snd (RetryUpload env j uid c t))) = upload_cancellation (jdb j)"
  "upload_cancellation (jdb (snd (Defer env j uid t why))) = upload_cancellation (jdb j)"
  "upload_cancellation (jdb (snd (Fail env j uid c))) = upload_cancellation (jdb j)"
  "upload_cancellation (jdb (snd (Requeue env j uid))) = upload_cancellation (jdb j)"
  "upload_cancellation (jdb (snd (resume_commit env j q b))) = upload_cancellation (jdb j)"
  unfolding Claim_def Retarget_def SetSession_def RecordPart_def RetryUpload_def Defer_def Fail_def Requeue_def resume_commit_def Let_def
  by (rule rv.tx_view, auto simp: guarded_Inr resume_tx_def Let_def split: if_splits option.splits)+

lemma owner_cancellation:
  "upload_cancellation (jdb (snd (Tombstone env j uid))) = upload_cancellation (jdb j)"
  "upload_cancellation (jdb (snd (MarkPublished env j uid))) = upload_cancellation (jdb j)"
  "upload_cancellation (jdb (snd (FinishCancel env j uid))) = upload_cancellation (jdb j)"
  "upload_cancellation (jdb (snd (BeginUploadCleanup env j uid mi))) = upload_cancellation (jdb j)"
proof -
  have "upload_cancellation (jdb (snd (tx env (begin_cleanup_tx env j uid mi) j))) = upload_cancellation (jdb j)"
    by (rule rv.tx_view) (auto simp: begin_cleanup_tx_def split: option.splits if_splits sum.splits)
  then show "upload_cancellation (jdb (snd (BeginUploadCleanup env j uid mi))) = upload_cancellation (jdb j)"
    by (simp add: BeginUploadCleanup_def)
qed (auto simp: Tombstone_def MarkPublished_def FinishCancel_def guarded_Inr intro!: rv.tx_view split: if_splits)

lemmas note_cancellation = tx_cancellation owner_cancellation

lemma drop_cancellation:
  "upload_cancellation (jdb (snd (dropIdle env j uid po))) = upload_cancellation (jdb j)"
  "upload_cancellation (jdb (snd (Drop env j uid))) = upload_cancellation (jdb j)"
proof -
  have "upload_cancellation (jdb (snd (tx e (drop_idle_tx uid po) j))) = upload_cancellation (jdb j)"
    "upload_cancellation (jdb (snd (tx e (drop_tx uid) j))) = upload_cancellation (jdb j)" for e
    by (rule rv.tx_view, auto simp: drop_idle_tx_def drop_tx_def drop_rows_def guarded_Inr Let_def split: option.splits if_splits)+
  then show "upload_cancellation (jdb (snd (dropIdle env j uid po))) = upload_cancellation (jdb j)"
    "upload_cancellation (jdb (snd (Drop env j uid))) = upload_cancellation (jdb j)"
    by (simp_all add: dropIdle_def Drop_def case_prod_beta split: sum.split)
qed

lemma drops_cancellation:
  "upload_cancellation (jdb (snd (DropPending env j uid))) = upload_cancellation (jdb j)"
  "upload_cancellation (jdb (snd (DropSuperseded env j remote ino keep))) = upload_cancellation (jdb j)"
  "upload_cancellation (jdb (snd (Purge env j age))) = upload_cancellation (jdb j)"
proof -
  have ids: "upload_cancellation (jdb (snd (drop_ids e ids n k))) = upload_cancellation (jdb k)" for e ids n k
  proof (induction ids arbitrary: e n k)
    case (Cons i ids)
    then show ?case using drop_cancellation(1) [of e k i True] by (auto split: prod.split sum.split)
  qed simp
  have all: "upload_cancellation (jdb (snd (drop_all e ids k))) = upload_cancellation (jdb k)" for e ids k
  proof (induction ids arbitrary: e k)
    case (Cons i ids)
    then show ?case using drop_cancellation(2) [of e k i] by (auto split: prod.split sum.split)
  qed simp
  show "upload_cancellation (jdb (snd (DropPending env j uid))) = upload_cancellation (jdb j)"
    by (simp add: DropPending_def drop_cancellation)
  show "upload_cancellation (jdb (snd (DropSuperseded env j remote ino keep))) = upload_cancellation (jdb j)"
    by (simp add: DropSuperseded_def ids split: sum.split)
  show "upload_cancellation (jdb (snd (Purge env j age))) = upload_cancellation (jdb j)"
    using all by (simp add: Purge_def Let_def case_prod_beta split: sum.split)
qed

lemma Recover_cancellation: "upload_cancellation (jdb (snd (Recover env j))) = upload_cancellation (jdb j)"
proof -
  have cancels: "upload_cancellation (jdb (snd (snd (recover_cancels e us k)))) = upload_cancellation (jdb k)" for e us k
  proof (induction us arbitrary: e k)
    case (Cons u us)
    then show ?case using owner_cancellation(3) [of e k "u_ID u"] by (auto split: prod.split sum.split)
  qed simp
  have rows: "upload_cancellation (jdb (snd (snd (snd (recover_rows e us rc k))))) = upload_cancellation (jdb k)" for e us rc k
  proof (induction us arbitrary: e rc k)
    case (Cons u us)
    then show ?case
      using tx_cancellation(7) [of e k "u_ID u"] tx_cancellation(5) [of e k "u_ID u" "Some interrupted_msg" 0]
      by (auto split: option.split prod.split sum.split) (metis snd_conv)+
  qed simp
  obtain x env1 j1 where c: "recover_cancels (after 1 env) (map scanUpload (uploads (jdb j))) j = (x, env1, j1)"
    by (metis prod.exhaust)
  have one: "upload_cancellation (jdb j1) = upload_cancellation (jdb j)"
    using cancels [of "after 1 env" "map scanUpload (uploads (jdb j))" j] c by simp
  have "upload_cancellation (jdb (snd (case recover_rows e us rc j1 of (Some e, _, _, j2) \<Rightarrow> (Inl e, j2)
      | (None, env2, rec, j2) \<Rightarrow> recover_files env2 j2 live L rec))) = upload_cancellation (jdb j)" for e us rc live L
    using rows [of e us rc j1] one by (auto split: prod.split option.split)
  then show ?thesis
    using one unfolding Recover_def list_uploads_def dbq_def
    by (cases x) (simp_all add: c del: One_nat_def split: sum.split)
qed

section \<open>Revisions only grow\<close>

lemma forget_upload_revision: "x \<noteq> uid \<Longrightarrow> revision_of (forget_upload uid d) x = revision_of d x"
proof -
  assume "x \<noteq> uid"
  then have "sel_one (\<lambda>c. uc_upload c = x) (del_where (\<lambda>r. uc_upload r = uid) rs) = sel_one (\<lambda>c. uc_upload c = x) rs" for rs :: "cancel_row list"
    by (induction rs) (auto simp: table_simps)
  then show ?thesis by (simp add: revision_of_def forget_upload_def)
qed

lemma forget_all_revision: "x \<notin> set ids \<Longrightarrow> revision_of (forget_all ids d) x = revision_of d x"
  by (induction ids arbitrary: d) (simp_all add: forget_upload_revision)

lemma bump_revision_other:
  "x \<noteq> uid \<Longrightarrow> revision_of (d\<lparr>upload_cancellation := bump_revision uid (upload_cancellation d)\<rparr>) x = revision_of d x"
proof -
  assume x: "x \<noteq> uid"
  have "sel_one (\<lambda>c. uc_upload c = x) (bump_revision uid rs) = sel_one (\<lambda>c. uc_upload c = x) rs" for rs
    using x by (auto simp: bump_revision_def sel_one_append sel_one_upd_where dest: sel_one_SomeD split: option.split)
  then show ?thesis by (simp add: revision_of_def)
qed

lemma Succeed_revision:
  assumes "row_of (jdb (snd (Succeed env j uid))) x \<noteq> None"
  shows "revision_of (jdb (snd (Succeed env j uid))) x = revision_of (jdb j) x"
proof -
  have keep: "revision_of d x = revision_of (jdb j) x"
    if run: "succeed_tx env uid (jdb j) = Inr (b, d)" and row: "row_of d x \<noteq> None" for b d
  proof -
    obtain ids where d: "d = forget_all ids ((upd_id uid (finish_row env) (jdb j))
        \<lparr>upload_parts := del_where (\<lambda>p. pt_upload p = uid) (upload_parts (jdb j))\<rparr>)"
      using run by (auto simp: succeed_tx_def guarded_Inr pruneDoneTx_def split: option.splits)
    then have "x \<notin> set ids" using row by (auto simp: row_of_forget_all)
    then show ?thesis unfolding d by (subst forget_all_revision) (simp_all add: revision_of_def)
  qed
  obtain r j1 where t: "tx env (succeed_tx env uid) j = (r, j1)" by fastforce
  then have "jdb (snd (Succeed env j uid)) = jdb j1" by (cases r) (simp_all add: Succeed_def)
  with t assms keep show ?thesis by (cases rule: tx_cases) auto
qed

lemma FinishUploadCleanup_revision:
  assumes "row_of (jdb (snd (FinishUploadCleanup env j uid mi))) x \<noteq> None"
  shows "revision_of (jdb (snd (FinishUploadCleanup env j uid mi))) x = revision_of (jdb j) x"
proof -
  have keep: "revision_of d' x = revision_of d x"
    if run: "finish_cleanup_tx env j uid mi d fs = (Inr (a, d'), fs')" and row: "row_of d' x \<noteq> None" for d fs a d' fs'
  proof -
    consider "d' = d" | p where "d' = discard_rows uid mi p d"
      using run by (auto simp: finish_cleanup_tx_def Let_def split: sum.splits option.splits if_splits prod.splits)
    then show ?thesis
    proof cases
      case 2
      then have "row_of d' x = row_of (forget_upload uid d) x" "revision_of d' x = revision_of (forget_upload uid d) x"
        by (simp_all add: discard_rows_def row_of_def revision_of_def)
      then show ?thesis using row row_of_forget_upload [of uid d x] by (auto simp: forget_upload_revision split: if_splits)
    qed simp
  qed
  show ?thesis
    using assms keep by (auto simp: FinishUploadCleanup_def txf_def split: if_splits sum.splits prod.splits)
qed

lemma RequestCancel_grows: "revision_of (jdb j) x \<le> revision_of (jdb (snd (RequestCancel env j uid))) x"
proof (cases "RequestCancel env j uid")
  case (Pair r j')
  have grow: "revision_of d x \<le> revision_of (d\<lparr>upload_cancellation := bump_revision uid (upload_cancellation d)\<rparr>) x" for d
    using revision_bump [of uid d] bump_revision_other [of x uid d] by (cases "x = uid") simp_all
  have frame: "revision_of ((upd_id uid f d)\<lparr>upload_cancellation := bump_revision uid (upload_cancellation d)\<rparr>) x =
      revision_of (d\<lparr>upload_cancellation := bump_revision uid (upload_cancellation d)\<rparr>) x" for f d
    by (simp add: revision_of_def)
  show ?thesis
    using Pair unfolding RequestCancel_def
    by (auto simp: frame grow elim!: tx_cases split: if_splits option.splits)
qed

text \<open>Whatever the journal is asked to do, the revision of an upload whose row stays does not fall.\<close>

lemma exec_revision:
  assumes "row_of (jdb (exec env c j)) x \<noteq> None"
  shows "revision_of (jdb j) x \<le> revision_of (jdb (exec env c j)) x"
proof -
  consider uid where "c = JSucceed uid" | uid mi where "c = JFinishCleanup uid mi" | uid where "c = JRequestCancel uid"
    | "upload_cancellation (jdb (exec env c j)) = upload_cancellation (jdb j)"
    by (cases c) (simp_all add: commit_cancellation note_cancellation drops_cancellation drop_cancellation Recover_cancellation
      rv.copy_view rv.openCopy_view rv.checkpoint_view rv.FinishCopyCleanup_view CommitResume_def CommitBound_def ResumeCopy_def Let_def)
  then show ?thesis
  proof cases
    case 4
    then show ?thesis by (simp add: revision_of_def)
  qed (use assms in \<open>simp_all add: Succeed_revision FinishUploadCleanup_revision RequestCancel_grows\<close>)
qed

section \<open>A resume and a stop\<close>

text \<open>
  Any sequence of calls, with files and process changing in between, in which no upload is created
  under the identifier of a row that is gone (identifiers are fresh).
\<close>

inductive onward :: "string \<Rightarrow> Journal \<Rightarrow> Journal \<Rightarrow> bool" for x where
  start: "onward x j j"
| step: "onward x j j1 \<Longrightarrow> jstep l j1 j2 \<Longrightarrow> (row_of (jdb j1) x = None \<Longrightarrow> row_of (jdb j2) x = None) \<Longrightarrow> onward x j j2"

lemma onward_revision:
  assumes "onward x j j'" and "row_of (jdb j) x = None \<or> n \<le> revision_of (jdb j) x"
  shows "row_of (jdb j') x = None \<or> n \<le> revision_of (jdb j') x"
  using assms
proof induction
  case (step j j1 l j2)
  have "row_of (jdb j2) x = None \<or> revision_of (jdb j1) x \<le> revision_of (jdb j2) x"
    using step.hyps(2)
  proof cases
    case (call c env)
    then show ?thesis using exec_revision [of env c j1 x] by (cases "row_of (jdb j2) x") simp_all
  qed (simp add: revision_of_def)
  then show ?case using step.IH [OF step.prems] step.hyps(3) by (auto intro: order_trans)
qed

lemma PrepareUploadResume_revision:
  assumes "PrepareUploadResume env j uid = Inr p"
  shows "u_ID (pr_u p) = uid" "pr_revision p = revision_of (jdb j) uid"
proof -
  have "fst (tx env (prepare_tx uid) j) = Inr p"
    using assms by (auto simp: PrepareUploadResume_def split: if_splits sum.splits option.splits)
  then show "u_ID (pr_u p) = uid" "pr_revision p = revision_of (jdb j) uid"
    by (auto simp: tx_def prepare_tx_def dest: row_of_SomeD split: if_splits option.splits sum.splits)
qed

text \<open>
  C13. A later stop always wins over a prepared resume. When an upload is stopped after its resume was
  prepared, then from that stop on, through whatever calls, crashes and restarts, the prepared resume cannot
  be committed: with or without a new binding, in every environment, the commit fails and leaves the
  journal as it is, and with a working database it reports that the upload changed.
\<close>

theorem resume_stop_wins:
  assumes "PrepareUploadResume env j uid = Inr p" and "onward uid j j1"
    and "RequestCancel env1 j1 uid = (Inr s, j2)" and "onward uid j2 j3"
  shows "(\<exists>e. CommitResume env2 j3 p = (Inl e, j3)) \<and> (\<exists>e. CommitBound env2 j3 p b = (Inl e, j3)) \<and>
    (dbf env2 0 = DBOk \<longrightarrow> fst (CommitResume env2 j3 p) = Inl ErrResumeChanged)"
proof -
  note p = PrepareUploadResume_revision [OF assms(1)]
  have "row_of (jdb j1) uid = None \<or> pr_revision p \<le> revision_of (jdb j1) uid"
    by (rule onward_revision [OF assms(2)]) (simp add: p)
  moreover have "row_of (jdb j1) uid \<noteq> None"
    using assms(3) by (auto simp: RequestCancel_def elim!: tx_cases split: if_splits option.splits)
  ultimately have "pr_revision p + 1 \<le> revision_of (jdb j2) uid"
    using RequestCancel_revision [OF assms(3)] by simp
  then have "row_of (jdb j3) uid = None \<or> pr_revision p + 1 \<le> revision_of (jdb j3) uid"
    by (intro onward_revision [OF assms(4)]) simp
  then have tx: "resume_tx p c (jdb j3) = Inl ErrResumeChanged" for c
    by (auto simp: resume_tx_def Let_def resume_changed_def p split: option.split)
  then have all: "\<exists>e. resume_commit env2 j3 p c = (Inl e, j3)" for c
    by (auto simp: resume_commit_def tx_def)
  moreover have "dbf env2 0 = DBOk \<longrightarrow> fst (resume_commit env2 j3 p None) = Inl ErrResumeChanged"
    by (simp add: resume_commit_def tx_calm tx)
  ultimately show ?thesis using all [of "Some b"] by (simp add: CommitResume_def CommitBound_def Let_def)
qed

definition race_prepared :: PreparedUploadResume where
  "race_prepared = projr (PrepareUploadResume sample_env (sample_journal [stopped_row]) ''a'')"

definition race_resumed :: Journal where
  "race_resumed = exec sample_env (JResume race_prepared) (sample_journal [stopped_row])"

definition race_stopped :: Journal where
  "race_stopped = snd (RequestCancel sample_env race_resumed ''a'')"

text \<open>
  The prepared resume is committed, the upload stopped again and the journal recovered. The row is then
  again as the preparation saw it, but the prepared resume cannot be committed a second time.
\<close>

theorem resume_stop_wins_witness:
  "map r_state (uploads (jdb race_resumed)) = [StatePending] \<and> map r_state (uploads (jdb race_stopped)) = [StateCancelled] \<and>
   fst (CommitResume sample_env (exec sample_env JRecover race_stopped) race_prepared) = Inl ErrResumeChanged"
proof (intro conjI)
  let ?j = "sample_journal [stopped_row]"
  show r: "map r_state (uploads (jdb race_resumed)) = [StatePending]" by code_simp
  show s: "map r_state (uploads (jdb race_stopped)) = [StateCancelled]" by code_simp
  have "\<not> isl (PrepareUploadResume sample_env ?j ''a'')" by code_simp
  then have p: "PrepareUploadResume sample_env ?j ''a'' = Inr race_prepared"
    by (cases "PrepareUploadResume sample_env ?j ''a''") (auto simp: race_prepared_def)
  have rows: "row_of (jdb ?j) ''a'' \<noteq> None" "row_of (jdb race_stopped) ''a'' \<noteq> None" by code_simp+
  have one: "onward ''a'' ?j race_resumed"
    using onward.step [OF onward.start [of "''a''" ?j] jstep.call [of "JResume race_prepared" ?j sample_env]] rows(1)
    by (simp add: race_resumed_def del: exec.simps)
  have two: "onward ''a'' race_stopped (exec sample_env JRecover race_stopped)"
    using onward.step [OF onward.start [of "''a''" race_stopped] jstep.call [of JRecover race_stopped sample_env]] rows(2)
    by (simp del: exec.simps)
  have "\<not> isl (fst (RequestCancel sample_env race_resumed ''a''))" by code_simp
  then obtain st where stop: "RequestCancel sample_env race_resumed ''a'' = (Inr st, race_stopped)"
    by (cases "RequestCancel sample_env race_resumed ''a''"; cases "fst (RequestCancel sample_env race_resumed ''a'')")
      (auto simp: race_stopped_def)
  show "fst (CommitResume sample_env (exec sample_env JRecover race_stopped) race_prepared) = Inl ErrResumeChanged"
    using resume_stop_wins [OF p one stop two, of sample_env] by (simp add: sample_env_def)
qed

end
