(* ===== verification/Retry.thy ===== *)
theory Retry
  imports Complex_Main "HOL-Library.Word" GoStd
begin

text \<open>
  \<open>internal/net/retry\<close>: the classification of backend errors, the exponential backoff and
  the retry loop, and the sentinel errors of \<open>internal/provider\<close> they look at.

  A Go error is a tree: a node (a sentinel value, an HTTP status carrier, a Retry-After
  carrier, a \<open>net.Error\<close> or plain text) over the errors it wraps. \<open>errors.Is\<close> and
  \<open>errors.As\<close> walk that tree in pre-order. The nil error is \<open>None\<close>.

  A \<open>time.Duration\<close> is a signed 64-bit count of nanoseconds; the shift in \<open>Backoff.Delay\<close>
  is computed at that width. Floating-point numbers are exact rationals here: the model
  has no rounding of \<open>float64\<close>.
\<close>

section \<open>Errors\<close>

datatype sentinel =
    ErrNotFound | ErrExists | ErrConflict | ErrRateLimited | ErrRiskControl | ErrAuth
  | ErrLinkExpired | ErrCursorReset | ErrUnsupported | ErrTransient | ErrUnavailable
  | ErrQuotaExceeded | ErrRestartUpload
  | CtxCanceled | CtxDeadlineExceeded
  | ErrSessionExpired

datatype enode = ESentinel sentinel | EStatus int | ERetryAfter duration | ENet | EText string

datatype goerr = GoErr enode "goerr list"

abbreviation sentinel_err :: "sentinel \<Rightarrow> goerr" where
  "sentinel_err s \<equiv> GoErr (ESentinel s) []"

text \<open>\<open>errors.Is\<close> and the two uses of \<open>errors.As\<close>.\<close>

fun err_is :: "goerr \<Rightarrow> sentinel \<Rightarrow> bool" and errs_is :: "goerr list \<Rightarrow> sentinel \<Rightarrow> bool" where
  "err_is (GoErr n es) s = (n = ESentinel s \<or> errs_is es s)"
| "errs_is [] s = False"
| "errs_is (e # es) s = (err_is e s \<or> errs_is es s)"

fun err_status :: "goerr \<Rightarrow> int option" and errs_status :: "goerr list \<Rightarrow> int option" where
  "err_status (GoErr n es) = (case n of EStatus c \<Rightarrow> Some c | _ \<Rightarrow> errs_status es)"
| "errs_status [] = None"
| "errs_status (e # es) =
     (case err_status e of Some c \<Rightarrow> Some c | None \<Rightarrow> errs_status es)"

fun err_retry_after :: "goerr \<Rightarrow> duration option"
  and errs_retry_after :: "goerr list \<Rightarrow> duration option" where
  "err_retry_after (GoErr n es) = (case n of ERetryAfter d \<Rightarrow> Some d | _ \<Rightarrow> errs_retry_after es)"
| "errs_retry_after [] = None"
| "errs_retry_after (e # es) =
     (case err_retry_after e of Some d \<Rightarrow> Some d | None \<Rightarrow> errs_retry_after es)"

fun err_is_net :: "goerr \<Rightarrow> bool" and errs_is_net :: "goerr list \<Rightarrow> bool" where
  "err_is_net (GoErr n es) = (n = ENet \<or> errs_is_net es)"
| "errs_is_net [] = False"
| "errs_is_net (e # es) = (err_is_net e \<or> errs_is_net es)"

section \<open>Classification\<close>

datatype Class =
    ClassOK | ClassRetryable | ClassAuth | ClassRiskControl | ClassLinkExpired
  | ClassConflict | ClassTerminal | ClassCanceled | ClassQuota

fun Class_String :: "Class \<Rightarrow> string" where
  "Class_String ClassOK = ''ok''"
| "Class_String ClassRetryable = ''retryable''"
| "Class_String ClassAuth = ''auth''"
| "Class_String ClassRiskControl = ''risk_control''"
| "Class_String ClassLinkExpired = ''link_expired''"
| "Class_String ClassConflict = ''conflict''"
| "Class_String ClassTerminal = ''terminal''"
| "Class_String ClassCanceled = ''canceled''"
| "Class_String ClassQuota = ''quota''"

definition status_class :: "int \<Rightarrow> Class option" where
  "status_class s =
     (if s = 401 then Some ClassAuth
      else if s = 403 \<or> s = 410 then Some ClassLinkExpired
      else if s = 409 \<or> s = 412 then Some ClassConflict
      else if s = 429 \<or> s \<ge> 500 then Some ClassRetryable
      else if s \<ge> 400 then Some ClassTerminal
      else None)"

fun Classify :: "goerr option \<Rightarrow> Class" where
  "Classify None = ClassOK"
| "Classify (Some err) =
     (if err_is err CtxCanceled \<or> err_is err CtxDeadlineExceeded then ClassCanceled
      else if err_is err ErrQuotaExceeded then ClassQuota
      else if err_is err ErrRiskControl then ClassRiskControl
      else if err_is err ErrRateLimited \<or> err_is err ErrTransient \<or> err_is err ErrUnavailable
        then ClassRetryable
      else if err_is err ErrAuth then ClassAuth
      else if err_is err ErrLinkExpired then ClassLinkExpired
      else if err_is err ErrConflict then ClassConflict
      else if err_is err ErrNotFound \<or> err_is err ErrExists \<or> err_is err ErrUnsupported
        then ClassTerminal
      else
        (case (case err_status err of None \<Rightarrow> None | Some s \<Rightarrow> status_class s) of
           Some c \<Rightarrow> c
         | None \<Rightarrow> if err_is_net err then ClassRetryable else ClassRetryable))"

fun RetryAfter :: "goerr option \<Rightarrow> duration" where
  "RetryAfter None = 0"
| "RetryAfter (Some err) = (case err_retry_after err of Some d \<Rightarrow> d | None \<Rightarrow> 0)"

lemma Class_String_inj: "Class_String c = Class_String d \<Longrightarrow> c = d"
  by (cases c; cases d) auto

lemma Classify_OK_iff [simp]: "Classify e = ClassOK \<longleftrightarrow> e = None"
  by (cases e) (auto simp: status_class_def split: option.splits if_splits)

lemma Classify_canceled [simp]:
  "Classify (Some (sentinel_err CtxCanceled)) = ClassCanceled"
  "Classify (Some (sentinel_err CtxDeadlineExceeded)) = ClassCanceled"
  by simp_all

declare Classify.simps(2) [simp del]

section \<open>Backoff\<close>

record Backoff =
  bo_Base :: duration
  bo_Max :: duration

definition DefaultBackoff :: Backoff where
  "DefaultBackoff = \<lparr>bo_Base = 500 * Millisecond, bo_Max = 64 * Second\<rparr>"

text \<open>A 64-bit signed left shift, and the conversion of a float to an integer.\<close>

definition shl64 :: "int \<Rightarrow> nat \<Rightarrow> int" where
  "shl64 x n = sint (word_of_int (x * 2 ^ n) :: 64 word)"

definition go_trunc :: "rat \<Rightarrow> int" where
  "go_trunc x = (if 0 \<le> x then \<lfloor>x\<rfloor> else \<lceil>x\<rceil>)"

text \<open>\<open>r\<close> is the value drawn from \<open>Rand\<close>, a number in \<open>[0, 1)\<close>.\<close>

definition ceiling_for :: "Backoff \<Rightarrow> int \<Rightarrow> duration" where
  "ceiling_for b attempt =
     (let a = (if attempt < 0 then 0 else if attempt > 30 then 30 else attempt);
          c = shl64 (bo_Base b) (nat a)
      in if c > bo_Max b \<or> c \<le> 0 then bo_Max b else c)"

definition Delay :: "Backoff \<Rightarrow> rat \<Rightarrow> int \<Rightarrow> duration \<Rightarrow> duration" where
  "Delay b r attempt retryAfter =
     (let d = go_trunc (of_int (ceiling_for b attempt) * r)
      in if d < retryAfter then retryAfter else d)"

lemma ceiling_for_le: "ceiling_for b attempt \<le> bo_Max b"
  by (simp add: ceiling_for_def Let_def)

lemma ceiling_for_nonneg: "0 \<le> bo_Max b \<Longrightarrow> 0 \<le> ceiling_for b attempt"
  by (auto simp: ceiling_for_def Let_def)

lemma go_trunc_floor: "0 \<le> x \<Longrightarrow> go_trunc x = \<lfloor>x\<rfloor>"
  by (simp add: go_trunc_def)

text \<open>Below \<open>2 ^ 63\<close> the shift is a multiplication.\<close>

lemma shl64_exact:
  assumes "0 \<le> x" "x * 2 ^ n < 2 ^ 63"
  shows "shl64 x n = x * 2 ^ n"
proof -
  have "0 \<le> x * 2 ^ n" using assms(1) by simp
  then have "- (2 ^ 63) \<le> x * 2 ^ n" by (rule order_trans [rotated]) simp
  then have "signed_take_bit 63 (x * 2 ^ n) = x * 2 ^ n" using assms(2) by (rule signed_take_bit_int_eq_self)
  then show ?thesis unfolding shl64_def sint_sbintrunc' by simp
qed

lemma ceiling_for_exact:
  assumes "0 < bo_Base b" "bo_Base b < 2 ^ 33" "0 \<le> bo_Max b"
  shows "ceiling_for b attempt = min (bo_Max b) (bo_Base b * 2 ^ nat (min 30 (max 0 attempt)))"
proof -
  define a where "a = nat (min 30 (max 0 attempt))"
  have a: "a \<le> 30" "nat (if attempt < 0 then 0 else if attempt > 30 then 30 else attempt) = a" by (auto simp: a_def)
  have "bo_Base b * 2 ^ a \<le> bo_Base b * 2 ^ 30" using assms(1) a(1) by (intro mult_left_mono power_increasing) auto
  also have "\<dots> < 2 ^ 33 * 2 ^ 30" using assms(2) by (intro mult_strict_right_mono) auto
  finally have "shl64 (bo_Base b) a = bo_Base b * 2 ^ a" using assms(1) by (intro shl64_exact) simp_all
  moreover have "0 < bo_Base b * 2 ^ a" using assms(1) by simp
  ultimately show ?thesis unfolding ceiling_for_def Let_def a(2) a_def [symmetric] by (auto simp: min_def)
qed

text \<open>
  C36: the backoff is exactly a fraction of a capped exponential, raised to the hint of the server.
  With a random number \<open>r\<close> from \<open>[0, 1)\<close> the delay is the larger of the hint and \<open>r\<close> times the
  ceiling in whole nanoseconds. The ceiling lies above 0 and at most at the cap for every base and attempt, also where the
  64-bit shift overflows to a negative number or 0, in which case it is the cap; for positive bases below \<open>2 ^ 33\<close>
  nanoseconds (about 8.6 seconds) it is the base doubled once per attempt, 30 times at most, and cut at the cap.
\<close>

theorem Delay_bounds:
  assumes "0 < bo_Max b" and "0 \<le> r" and "r < 1"
  shows "Delay b r attempt retryAfter = max retryAfter \<lfloor>of_int (ceiling_for b attempt) * r\<rfloor> \<and>
         0 < ceiling_for b attempt \<and> ceiling_for b attempt \<le> bo_Max b \<and>
         (shl64 (bo_Base b) (nat (min 30 (max 0 attempt))) \<le> 0 \<longrightarrow> ceiling_for b attempt = bo_Max b) \<and>
         (0 < bo_Base b \<and> bo_Base b < 2 ^ 33 \<longrightarrow>
            ceiling_for b attempt = min (bo_Max b) (bo_Base b * 2 ^ nat (min 30 (max 0 attempt)))) \<and>
         0 \<le> Delay b r attempt retryAfter \<and> Delay b r attempt retryAfter \<le> max retryAfter (bo_Max b)"
proof -
  let ?c = "ceiling_for b attempt"
  have pos: "0 < ?c" using assms(1) by (auto simp: ceiling_for_def Let_def)
  have le: "?c \<le> bo_Max b" by (rule ceiling_for_le)
  have clamp: "nat (if attempt < 0 then 0 else if attempt > 30 then 30 else attempt) = nat (min 30 (max 0 attempt))" by auto
  have over: "shl64 (bo_Base b) (nat (min 30 (max 0 attempt))) \<le> 0 \<longrightarrow> ?c = bo_Max b"
    unfolding ceiling_for_def Let_def clamp by simp
  have nn: "0 \<le> of_int ?c * r" using pos assms(2) by simp
  have d: "Delay b r attempt retryAfter = max retryAfter \<lfloor>of_int ?c * r\<rfloor>"
    using go_trunc_floor [OF nn] by (simp add: Delay_def Let_def max_def)
  have "of_int ?c * r \<le> of_int ?c" using pos assms(2,3) by (simp add: mult_left_le)
  then have "\<lfloor>of_int ?c * r\<rfloor> \<le> ?c" by (metis floor_mono floor_of_int)
  moreover have "0 \<le> \<lfloor>of_int ?c * r\<rfloor>" using nn by simp
  ultimately show ?thesis using d pos le over ceiling_for_exact [of b attempt] assms(1) by (auto simp: le_max_iff_disj)
qed

text \<open>The default policy: 500 ms doubling up to 64 s.\<close>

theorem Delay_bounds_witness:
  "Delay DefaultBackoff (1/2) 3 0 = 2 * Second \<and> Delay DefaultBackoff (1/2) 40 0 = 32 * Second \<and>
   Delay DefaultBackoff (1/2) 40 (90 * Second) = 90 * Second"
proof -
  have h: "0 < bo_Max DefaultBackoff" "(0::rat) \<le> 1/2" "(1/2::rat) < 1"
    by (simp_all add: DefaultBackoff_def)
  have c: "ceiling_for DefaultBackoff 3 = 4 * Second" "ceiling_for DefaultBackoff 40 = 64 * Second"
    using Delay_bounds [OF h, of 3 0] Delay_bounds [OF h, of 40 0] by (simp_all add: DefaultBackoff_def)
  show ?thesis
    using Delay_bounds [OF h, of 3 0] Delay_bounds [OF h, of 40 0] Delay_bounds [OF h, of 40 "90 * Second"]
    unfolding c by simp
qed

text \<open>
  For larger bases the shift can also wrap to a small positive number, which the guard does not notice: a base of
  \<open>2 ^ 34 + 1\<close> nanoseconds (17 seconds) gives a ceiling of \<open>2 ^ 30\<close> (about one second) after 30 attempts.
\<close>

lemma ceiling_for_wraps: "ceiling_for \<lparr>bo_Base = 2 ^ 34 + 1, bo_Max = 2 ^ 40\<rparr> 30 = 2 ^ 30"
  by code_simp

section \<open>The retry loop\<close>

record Policy =
  pBackoff :: Backoff
  MaxAttempts :: int

definition DefaultPolicy :: Policy where
  "DefaultPolicy = \<lparr>pBackoff = DefaultBackoff, MaxAttempts = 8\<rparr>"

text \<open>
  \<open>Policy.Do\<close>. The callback \<open>fn\<close> acts on a state \<open>'s\<close>; \<open>onRetry\<close> is optional. The
  environment of one call supplies, for the sleep after attempt \<open>n\<close>, the random number
  drawn, and whether the context ended during the sleep with which error.
\<close>

record doenv =
  rnd :: "int \<Rightarrow> rat"
  ctx_ended :: "int \<Rightarrow> goerr option"

type_synonym 's callback = "'s \<Rightarrow> goerr option \<times> 's"
type_synonym 's retry_hook = "goerr option \<Rightarrow> Class \<Rightarrow> duration \<Rightarrow> 's \<Rightarrow> 's"

function do_loop ::
  "Policy \<Rightarrow> doenv \<Rightarrow> 's callback \<Rightarrow> 's retry_hook option \<Rightarrow> int \<Rightarrow> goerr option \<Rightarrow> 's
   \<Rightarrow> goerr option \<times> 's" where
  "do_loop p env fn onRetry attempt err s =
     (if attempt < MaxAttempts p then
        (let (e, s1) = fn s; class = Classify e in
         if class \<noteq> ClassRetryable then (e, s1)
         else if attempt = MaxAttempts p - 1 then (e, s1)
         else
           (let delay = Delay (pBackoff p) (rnd env attempt) attempt (RetryAfter e);
                s2 = (case onRetry of None \<Rightarrow> s1 | Some h \<Rightarrow> h e class delay s1)
            in case ctx_ended env attempt of
                 Some ce \<Rightarrow> (Some ce, s2)
               | None \<Rightarrow> do_loop p env fn onRetry (attempt + 1) e s2))
      else (err, s))"
  by pat_completeness auto
termination
  by (relation "measure (\<lambda>(p, env, fn, h, attempt, err, s). nat (MaxAttempts p - attempt))") auto

declare do_loop.simps [simp del]

definition Do :: "Policy \<Rightarrow> doenv \<Rightarrow> 's callback \<Rightarrow> 's retry_hook option \<Rightarrow> 's \<Rightarrow> goerr option \<times> 's" where
  "Do p env fn onRetry s = do_loop p env fn onRetry 0 None s"

text \<open>A callback that counts its own calls, and a hook that leaves the count alone.\<close>

definition counting :: "'s callback \<Rightarrow> (nat \<times> 's) callback" where
  "counting fn = (\<lambda>(n, s). let (e, s') = fn s in (e, (Suc n, s')))"

definition uncounted :: "'s retry_hook \<Rightarrow> (nat \<times> 's) retry_hook" where
  "uncounted h = (\<lambda>e c d (n, s). (n, h e c d s))"

lemma do_loop_count:
  assumes "do_loop p env (counting fn) (map_option uncounted h) attempt err (n, s) = (e, (m, s'))"
    and "attempt \<le> MaxAttempts p"
    and "\<And>a ce. ctx_ended env a = Some ce \<Longrightarrow> Classify (Some ce) = ClassCanceled"
  shows "int m \<le> int n + (MaxAttempts p - attempt) \<and>
     (Classify e = ClassRetryable \<longrightarrow>
        int m = int n + (MaxAttempts p - attempt))"
  using assms
proof (induction p env "counting fn" "map_option uncounted h" attempt err "(n, s)"
    arbitrary: n s rule: do_loop.induct)
  case (1 p env attempt err n s)
  show ?case
  proof (cases "attempt < MaxAttempts p")
    case False
    with 1 show ?thesis by (auto simp: do_loop.simps [of p env _ _ attempt])
  next
    case True
    obtain e1 s1 where fn: "fn s = (e1, s1)" by (cases "fn s")
    have c: "counting fn (n, s) = (e1, (Suc n, s1))" by (simp add: counting_def fn)
    note unf = do_loop.simps [of p env "counting fn" "map_option uncounted h" attempt err "(n, s)"]
    show ?thesis
    proof (cases "Classify e1 = ClassRetryable \<and> attempt \<noteq> MaxAttempts p - 1")
      case False
      with 1(2) True c have "e = e1" "m = Suc n"
        by (auto simp: unf Let_def split: if_splits)
      with False True show ?thesis by (cases "attempt = MaxAttempts p - 1") auto
    next
      case goon: True
      let ?d = "Delay (pBackoff p) (rnd env attempt) attempt (RetryAfter e1)"
      define s2 where "s2 = (case h of None \<Rightarrow> s1 | Some g \<Rightarrow> g e1 ClassRetryable ?d s1)"
      have step: "do_loop p env (counting fn) (map_option uncounted h) attempt err (n, s) =
          (case ctx_ended env attempt of Some ce \<Rightarrow> (Some ce, (Suc n, s2))
           | None \<Rightarrow> do_loop p env (counting fn) (map_option uncounted h) (attempt + 1) e1 (Suc n, s2))"
        using True goon c unfolding unf
        by (cases h; cases "ctx_ended env attempt")
          (simp_all add: uncounted_def s2_def Let_def)
      show ?thesis
      proof (cases "ctx_ended env attempt")
        case (Some ce)
        with 1(2) step have "e = Some ce" "m = Suc n" by auto
        with Some True 1(4) show ?thesis by auto
      next
        case None
        with 1(2) step
        have rec: "do_loop p env (counting fn) (map_option uncounted h) (attempt + 1) e1 (Suc n, s2)
            = (e, (m, s'))"
          by simp
        have hook: "(case map_option uncounted h of None \<Rightarrow> (Suc n, s1)
            | Some g \<Rightarrow> g e1 (Classify e1) ?d (Suc n, s1)) = (Suc n, s2)"
          using goon by (cases h) (simp_all add: uncounted_def s2_def)
        have "int m \<le> int (Suc n) + (MaxAttempts p - (attempt + 1)) \<and>
          (Classify e = ClassRetryable \<longrightarrow> int m = int (Suc n) + (MaxAttempts p - (attempt + 1)))"
          using goon hook True 1(4)
          by (intro 1(1) [OF True c [symmetric] refl refl _ _ refl _ None rec])
            (auto simp only: simp_thms)
        then show ?thesis by auto
      qed
    qed
  qed
qed

text \<open>
  C37: \<open>Policy.Do\<close> calls its function at most \<open>MaxAttempts\<close> times, and it hands a
  retryable error to its caller only after having spent exactly that many calls. (The
  error of an ended context is \<open>context.Canceled\<close> or \<open>DeadlineExceeded\<close>, which the
  classification calls canceled.)
\<close>

theorem Do_attempts:
  assumes "0 \<le> MaxAttempts p"
    and "\<And>a ce. ctx_ended env a = Some ce \<Longrightarrow> Classify (Some ce) = ClassCanceled"
    and "Do p env (counting fn) (map_option uncounted h) (0, s) = (e, (m, s'))"
  shows "int m \<le> MaxAttempts p \<and> (Classify e = ClassRetryable \<longrightarrow> int m = MaxAttempts p)"
proof -
  have "do_loop p env (counting fn) (map_option uncounted h) 0 None (0, s) = (e, (m, s'))"
    using assms(3) by (simp add: Do_def)
  from do_loop_count [OF this assms(1) assms(2)] show ?thesis by simp
qed

text \<open>
  A transient failure that never goes away is tried three times under a policy of three
  attempts.
\<close>

definition always_transient :: "nat callback" where
  "always_transient s = (Some (sentinel_err ErrTransient), Suc s)"

definition quiet_env :: doenv where
  "quiet_env = \<lparr>rnd = \<lambda>_. 0, ctx_ended = \<lambda>_. None\<rparr>"

theorem Do_attempts_witness:
  "\<exists>m s'. Do \<lparr>pBackoff = DefaultBackoff, MaxAttempts = 3\<rparr> quiet_env
      (counting always_transient) (map_option uncounted None) (0, 0) =
      (Some (sentinel_err ErrTransient), (m, s')) \<and> int m = 3"
proof -
  let ?p = "\<lparr>pBackoff = DefaultBackoff, MaxAttempts = 3\<rparr> :: Policy"
  let ?r = "Do ?p quiet_env (counting always_transient) (map_option uncounted None) (0, 0)"
  obtain e m s' where r: "?r = (e, (m, s'))" by (cases ?r) auto
  have cl: "Classify (Some (sentinel_err ErrTransient)) = ClassRetryable"
    by (simp add: Classify.simps)
  have "fst ?r = Some (sentinel_err ErrTransient)"
    by (simp add: Do_def do_loop.simps counting_def always_transient_def quiet_env_def cl Let_def)
  with r have e: "e = Some (sentinel_err ErrTransient)" by simp
  have "int m \<le> MaxAttempts ?p \<and> (Classify e = ClassRetryable \<longrightarrow> int m = MaxAttempts ?p)"
    by (rule Do_attempts [OF _ _ r]) (simp_all add: quiet_env_def)
  with e cl r show ?thesis by auto
qed

end
