(* ===== verification/RateLimit.thy ===== *)
theory RateLimit
  imports Retry
begin

text \<open>
  \<open>internal/net/ratelimit\<close>: the AIMD token bucket, the circuit breaker and the registry
  that hands them out per (remote, account, class).

  Every method takes the time its \<open>Now\<close> returns as an argument. Rates and token counts
  are exact rationals in place of \<open>float64\<close>. Limiters and breakers are shared by pointer:
  the registry maps a key to an address in a store.
\<close>

section \<open>The token bucket\<close>

datatype LClass = Meta | Download | Upload | Transfer

fun LClass_String :: "LClass \<Rightarrow> string" where
  "LClass_String Meta = ''meta''"
| "LClass_String Download = ''download''"
| "LClass_String Upload = ''upload''"
| "LClass_String Transfer = ''transfer''"

record LimOptions =
  Rate :: rat
  Burst :: rat
  MinRate :: rat
  RecoverAfter :: int
  Step :: rat

definition lim_withDefaults :: "LimOptions \<Rightarrow> LimOptions" where
  "lim_withDefaults o0 =
     (let o1 = (if Burst o0 \<le> 0 then o0\<lparr>Burst := (if Rate o0 < 1 then 1 else Rate o0)\<rparr> else o0);
          o2 = (if MinRate o1 \<le> 0 then o1\<lparr>MinRate := Rate o1 / 32\<rparr> else o1);
          o3 = (if RecoverAfter o2 \<le> 0 then o2\<lparr>RecoverAfter := 20\<rparr> else o2)
      in if Step o3 \<le> 0 then o3\<lparr>Step := 1 / 10\<rparr> else o3)"

record Limiter =
  l_opt :: LimOptions
  l_rate :: rat
  tokens :: rat
  last_refill :: gotime
  successes :: int
  pauseUntil :: gotime

definition lim_New :: "LimOptions \<Rightarrow> gotime \<Rightarrow> Limiter" where
  "lim_New opt now =
     (let o1 = lim_withDefaults opt in
      \<lparr>l_opt = o1, l_rate = Rate o1, tokens = Burst o1, last_refill = now,
       successes = 0, pauseUntil = zero_time\<rparr>)"

definition seconds_of :: "duration \<Rightarrow> rat" where
  "seconds_of d = of_int d / 1000000000"

definition refillLocked :: "Limiter \<Rightarrow> gotime \<Rightarrow> Limiter" where
  "refillLocked l now =
     (let elapsed = seconds_of (now - last_refill l) in
      if elapsed > 0 then
        l\<lparr>tokens := min (tokens l + elapsed * l_rate l) (Burst (l_opt l)), last_refill := now\<rparr>
      else l)"

definition Reserve :: "Limiter \<Rightarrow> gotime \<Rightarrow> duration \<times> Limiter" where
  "Reserve l now =
     (let l1 = refillLocked l now;
          wait = (if pauseUntil l1 > now then pauseUntil l1 - now else 0);
          l2 = l1\<lparr>tokens := tokens l1 - 1\<rparr>
      in if tokens l2 < 0 then
           (let deficit = - tokens l2 / l_rate l2; d = go_trunc (deficit * 1000000000)
            in (if d > wait then d else wait, l2))
         else (wait, l2))"

text \<open>\<open>Wait\<close>: the caller sleeps unless the context ends first, with the error given.\<close>

definition lim_Wait :: "Limiter \<Rightarrow> gotime \<Rightarrow> goerr option \<Rightarrow> goerr option \<times> Limiter" where
  "lim_Wait l now ended =
     (let (d, l') = Reserve l now in if d \<le> 0 then (None, l') else (ended, l'))"

definition Throttled :: "Limiter \<Rightarrow> gotime \<Rightarrow> duration \<Rightarrow> Limiter" where
  "Throttled l now retryAfter =
     (let r = l_rate l / 2;
          l1 = l\<lparr>l_rate := (if r < MinRate (l_opt l) then MinRate (l_opt l) else r),
                 tokens := 0, successes := 0\<rparr>
      in if retryAfter > 0 \<and> now + retryAfter > pauseUntil l1
         then l1\<lparr>pauseUntil := now + retryAfter\<rparr> else l1)"

definition Succeeded :: "Limiter \<Rightarrow> Limiter" where
  "Succeeded l =
     (if l_rate l \<ge> Rate (l_opt l) then l
      else
        (let l1 = l\<lparr>successes := successes l + 1\<rparr> in
         if successes l1 \<ge> RecoverAfter (l_opt l1) then
           (let r = l_rate l1 + Step (l_opt l1) * Rate (l_opt l1) in
            l1\<lparr>successes := 0, l_rate := (if r > Rate (l_opt l1) then Rate (l_opt l1) else r)\<rparr>)
         else l1))"

subsection \<open>AIMD bounds\<close>

datatype lim_event = EvReserve gotime | EvThrottled gotime duration | EvSucceeded

fun lim_step :: "Limiter \<Rightarrow> lim_event \<Rightarrow> Limiter" where
  "lim_step l (EvReserve t) = snd (Reserve l t)"
| "lim_step l (EvThrottled t d) = Throttled l t d"
| "lim_step l EvSucceeded = Succeeded l"

definition lim_inv :: "LimOptions \<Rightarrow> Limiter \<Rightarrow> bool" where
  "lim_inv opt l \<longleftrightarrow>
     l_opt l = opt \<and> MinRate opt \<le> l_rate l \<and> l_rate l \<le> Rate opt \<and>
     tokens l \<le> Burst opt \<and> 0 \<le> successes l \<and> successes l < RecoverAfter opt"

definition lim_opt_ok :: "LimOptions \<Rightarrow> bool" where
  "lim_opt_ok opt \<longleftrightarrow> 0 < MinRate opt \<and> MinRate opt \<le> Rate opt \<and> 0 < Burst opt \<and>
     0 < RecoverAfter opt \<and> 0 < Step opt"

text \<open>The defaults make every option with a positive rate and no excessive floor usable.\<close>

lemma lim_withDefaults_ok:
  "0 < Rate opt \<Longrightarrow> MinRate opt \<le> Rate opt \<Longrightarrow> lim_opt_ok (lim_withDefaults opt)"
  by (auto simp: lim_withDefaults_def lim_opt_ok_def Let_def)

lemma lim_New_inv:
  "lim_opt_ok (lim_withDefaults opt) \<Longrightarrow> lim_inv (lim_withDefaults opt) (lim_New opt now)"
  by (simp add: lim_inv_def lim_New_def lim_opt_ok_def Let_def)

lemma Reserve_opt [simp]:
  "l_opt (snd (Reserve l t)) = l_opt l" "l_rate (snd (Reserve l t)) = l_rate l"
  "successes (snd (Reserve l t)) = successes l" "pauseUntil (snd (Reserve l t)) = pauseUntil l"
  by (simp_all add: Reserve_def refillLocked_def Let_def)

lemma Reserve_inv: "lim_opt_ok opt \<Longrightarrow> lim_inv opt l \<Longrightarrow> lim_inv opt (snd (Reserve l t))"
  by (auto simp: lim_inv_def Reserve_def refillLocked_def Let_def lim_opt_ok_def)

lemma Throttled_inv: "lim_opt_ok opt \<Longrightarrow> lim_inv opt l \<Longrightarrow> lim_inv opt (Throttled l t d)"
  by (auto simp: lim_inv_def Throttled_def Let_def lim_opt_ok_def)

lemma Succeeded_inv: "lim_opt_ok opt \<Longrightarrow> lim_inv opt l \<Longrightarrow> lim_inv opt (Succeeded l)"
  by (auto simp: lim_inv_def Succeeded_def Let_def lim_opt_ok_def intro: order_trans)

lemma lim_step_inv: "lim_opt_ok opt \<Longrightarrow> lim_inv opt l \<Longrightarrow> lim_inv opt (lim_step l e)"
  by (cases e) (simp_all add: Reserve_inv Throttled_inv Succeeded_inv)

text \<open>
  C33: whatever sequence of reservations, throttle signals and successes a limiter sees,
  its refill rate stays between the configured floor and the configured maximum and its
  bucket never holds more than its capacity.
\<close>

theorem limiter_bounds:
  assumes "0 < Rate opt" and "MinRate opt \<le> Rate opt"
  shows "lim_inv (lim_withDefaults opt) (foldl lim_step (lim_New opt now) es)"
proof -
  let ?o = "lim_withDefaults opt"
  have ok: "lim_opt_ok ?o" using assms by (rule lim_withDefaults_ok)
  have "lim_inv ?o l \<Longrightarrow> lim_inv ?o (foldl lim_step l es)" for l
    by (induction es arbitrary: l) (simp_all add: lim_step_inv ok)
  with lim_New_inv [OF ok] show ?thesis by blast
qed

definition lim_opt1 :: LimOptions where
  "lim_opt1 = \<lparr>Rate = 1, Burst = 0, MinRate = 0, RecoverAfter = 0, Step = 0\<rparr>"

theorem limiter_bounds_witness:
  "lim_inv (lim_withDefaults lim_opt1)
     (foldl lim_step (lim_New lim_opt1 0) [EvReserve 5, EvThrottled 6 Second, EvSucceeded])"
  by (rule limiter_bounds) (simp_all add: lim_opt1_def)

subsection \<open>Admission\<close>

text \<open>
  The times at which the reservations in a sequence of events are released: the time of the call plus the
  wait the call was told.
\<close>

fun releases :: "Limiter \<Rightarrow> lim_event list \<Rightarrow> gotime list" where
  "releases l [] = []"
| "releases l (EvReserve t # es) = (let (d, l') = Reserve l t in (t + d) # releases l' es)"
| "releases l (EvThrottled t d # es) = releases (Throttled l t d) es"
| "releases l (EvSucceeded # es) = releases (Succeeded l) es"

text \<open>
  \<open>Throttled\<close> sets the bucket to zero also when it is negative, that is when reservations wait: the
  reservations so forgiven, over a sequence of events.
\<close>

fun forgiven :: "Limiter \<Rightarrow> lim_event list \<Rightarrow> rat" where
  "forgiven l [] = 0"
| "forgiven l (EvThrottled t d # es) = max 0 (- tokens l) + forgiven (Throttled l t d) es"
| "forgiven l (e # es) = forgiven (lim_step l e) es"

fun reserve_times :: "lim_event list \<Rightarrow> gotime list" where
  "reserve_times [] = []"
| "reserve_times (EvReserve t # es) = t # reserve_times es"
| "reserve_times (e # es) = reserve_times es"

lemma forgiven_nonneg: "0 \<le> forgiven l es"
  by (induction l es rule: forgiven.induct) auto

lemma forgiven_calm: "\<forall>t d. EvThrottled t d \<notin> set es \<Longrightarrow> forgiven l es = 0"
  by (induction l es rule: forgiven.induct) auto

lemma length_releases [simp]: "length (releases l es) = length (reserve_times es)"
  by (induction l es rule: releases.induct) (auto simp: Let_def split: prod.splits)

lemma go_trunc_gt: "0 \<le> x \<Longrightarrow> x < of_int (go_trunc x) + 1"
  using floor_correct [of x] by (simp add: go_trunc_def)

lemma seconds_of_mono: "s \<le> t \<Longrightarrow> seconds_of s \<le> seconds_of t"
  by (simp add: seconds_of_def divide_right_mono)

lemma seconds_of_add: "seconds_of (s + t) = seconds_of s + seconds_of t"
  by (simp add: seconds_of_def add_divide_distrib)

lemma seconds_of_diff: "seconds_of (s - t) = seconds_of s - seconds_of t"
  by (simp add: seconds_of_def diff_divide_distrib)

text \<open>
  The potential argument: requests already admitted plus tokens left never exceed the capacity plus what
  the configured rate yields over the elapsed time plus what was forgiven.
\<close>

definition lim_pot :: "gotime \<Rightarrow> nat \<Rightarrow> rat \<Rightarrow> Limiter \<Rightarrow> bool" where
  "lim_pot t0 n F l \<longleftrightarrow>
     of_nat n + tokens l \<le> Burst (l_opt l) + Rate (l_opt l) * seconds_of (last_refill l - t0) + F"

lemma refill_pot:
  assumes "lim_pot t0 n F l" "l_rate l \<le> Rate (l_opt l)"
  shows "lim_pot t0 n F (refillLocked l t)"
proof (cases "seconds_of (t - last_refill l) > 0")
  case False
  with assms show ?thesis by (simp add: refillLocked_def lim_pot_def Let_def)
next
  case True
  have e: "seconds_of (t - t0) = seconds_of (t - last_refill l) + seconds_of (last_refill l - t0)"
    by (simp add: seconds_of_diff)
  have "seconds_of (t - last_refill l) * l_rate l \<le> seconds_of (t - last_refill l) * Rate (l_opt l)"
    using True assms(2) by (intro mult_left_mono) simp_all
  then have "of_nat n + (tokens l + seconds_of (t - last_refill l) * l_rate l)
      \<le> Burst (l_opt l) + Rate (l_opt l) * seconds_of (t - t0) + F"
    using assms(1) by (simp add: lim_pot_def e algebra_simps)
  with True show ?thesis
    by (simp add: refillLocked_def lim_pot_def Let_def min_def)
qed

lemma last_refill_refill: "last_refill l \<le> t \<Longrightarrow> last_refill (refillLocked l t) = t"
  by (auto simp: refillLocked_def Let_def seconds_of_def)

lemma Reserve_release:
  assumes "lim_pot t0 n F l" and "0 < l_rate l" and "l_rate l \<le> Rate (l_opt l)" and "last_refill l \<le> t"
    and "Reserve l t = (d, l')"
  shows "lim_pot t0 (Suc n) F l'" and "last_refill l' = t"
    and "of_nat (Suc n) \<le> Burst (l_opt l) + Rate (l_opt l) * seconds_of (t + d - t0 + 1) + F"
proof -
  let ?l1 = "refillLocked l t" and ?R = "Rate (l_opt l)"
  have R: "0 < ?R" using assms(2,3) by simp
  have opt1: "l_opt ?l1 = l_opt l" "l_rate ?l1 = l_rate l"
    by (simp_all add: refillLocked_def Let_def)
  have p1: "of_nat n + tokens ?l1 \<le> Burst (l_opt l) + ?R * seconds_of (t - t0) + F"
    using refill_pot [OF assms(1,3), of t] last_refill_refill [OF assms(4)] opt1
    by (simp add: lim_pot_def)
  have l': "l' = ?l1\<lparr>tokens := tokens ?l1 - 1\<rparr>"
    using assms(5) by (auto simp: Reserve_def Let_def split: if_splits)
  show "last_refill l' = t" using last_refill_refill [OF assms(4)] by (simp add: l')
  then show "lim_pot t0 (Suc n) F l'" using p1 opt1 by (simp add: lim_pot_def l')
  let ?def = "- (tokens ?l1 - 1) / l_rate l * 1000000000"
  have d0: "0 \<le> d \<and> (tokens ?l1 - 1 < 0 \<longrightarrow> go_trunc ?def \<le> d)"
    using assms(5) opt1 by (auto simp: Reserve_def Let_def split: if_splits)
  show "of_nat (Suc n) \<le> Burst (l_opt l) + ?R * seconds_of (t + d - t0 + 1) + F"
  proof (cases "tokens ?l1 - 1 < 0")
    case False
    have "?R * seconds_of (t - t0) \<le> ?R * seconds_of (t + d - t0 + 1)"
      using d0 R by (intro mult_left_mono seconds_of_mono) simp_all
    with False p1 show ?thesis by simp
  next
    case True
    have "0 \<le> ?def" using True assms(2) by (simp add: zero_le_divide_iff)
    from go_trunc_gt [OF this] have "?def < of_int (go_trunc ?def) + 1" .
    also have "\<dots> \<le> of_int d + 1" using d0 True by simp
    finally have "?def \<le> of_int (d + 1)" by simp
    then have "- (tokens ?l1 - 1) / l_rate l \<le> seconds_of (d + 1)"
      by (simp add: seconds_of_def)
    then have "- (tokens ?l1 - 1) \<le> l_rate l * seconds_of (d + 1)"
      using assms(2) by (simp add: divide_le_eq mult.commute)
    also have "\<dots> \<le> ?R * seconds_of (d + 1)"
      using assms(3) d0 by (intro mult_right_mono) (simp_all add: seconds_of_def)
    finally have "- (tokens ?l1 - 1) \<le> ?R * seconds_of (d + 1)" .
    moreover have "seconds_of (t + d - t0 + 1) = seconds_of (t - t0) + seconds_of (d + 1)"
      by (simp add: seconds_of_def add_divide_distrib diff_divide_distrib)
    ultimately show ?thesis using p1 by (simp add: algebra_simps)
  qed
qed

lemma other_events_pot:
  assumes "lim_pot t0 n F l"
  shows "lim_pot t0 n (F + max 0 (- tokens l)) (Throttled l t d)" "lim_pot t0 n F (Succeeded l)"
    and "last_refill (Throttled l t d) = last_refill l" "last_refill (Succeeded l) = last_refill l"
  using assms by (auto simp: lim_pot_def Throttled_def Succeeded_def Let_def)

lemma releases_index:
  assumes "lim_opt_ok opt" and "lim_inv opt l" and "lim_pot t0 n F l" and "last_refill l \<le> t"
    and "sorted (t # reserve_times es)" and "i < length (reserve_times es)"
  shows "of_nat (n + Suc i) \<le> Burst opt + Rate opt * seconds_of (releases l es ! i - t0 + 1) + F + forgiven l es"
  using assms(2-)
proof (induction l es arbitrary: n F t i rule: releases.induct)
  case (2 l u es)
  obtain d l' where r: "Reserve l u = (d, l')" by (cases "Reserve l u")
  have o: "l_opt l = opt" "0 < l_rate l" "l_rate l \<le> Rate (l_opt l)"
    using "2.prems"(1) assms(1) by (auto simp: lim_inv_def lim_opt_ok_def)
  have le: "last_refill l \<le> u" using "2.prems"(3,4) by auto
  note R = Reserve_release [OF "2.prems"(2) o(2,3) le r]
  have l': "lim_inv opt l'" using Reserve_inv [OF assms(1) "2.prems"(1), of u] r by simp
  show ?case
  proof (cases i)
    case 0
    then show ?thesis using R(3) r o(1) forgiven_nonneg [of l' es] by simp
  next
    case (Suc k)
    have "of_nat (Suc n + Suc k) \<le> Burst opt + Rate opt * seconds_of (releases l' es ! k - t0 + 1) + F + forgiven l' es"
      using "2.prems" R(1,2) l' Suc by (intro "2.IH" [OF r [symmetric] refl, where t = u]) auto
    then show ?thesis using Suc r by simp
  qed
next
  case (3 l u d es)
  then show ?case
    using other_events_pot(1,3) [OF "3.prems"(2), of u d] Throttled_inv [OF assms(1) "3.prems"(1), of u d]
      "3.IH" [of n "F + max 0 (- tokens l)" t i] by (simp add: add.assoc)
next
  case (4 l es)
  then show ?case
    using other_events_pot(2,4) [OF "4.prems"(2)] Succeeded_inv [OF assms(1) "4.prems"(1)] "4.IH" [of n F t i] by simp
qed simp

lemma count_le_index:
  assumes "\<And>i. i < length xs \<Longrightarrow> P (xs ! i) \<Longrightarrow> (of_nat (Suc i) :: rat) \<le> b" and "0 \<le> b"
  shows "of_nat (length (filter P xs)) \<le> b"
proof (cases "filter P xs = []")
  case True
  with assms(2) show ?thesis by simp
next
  case False
  let ?I = "{i. i < length xs \<and> P (xs ! i)}"
  have c: "length (filter P xs) = card ?I" by (rule length_filter_conv_card)
  have fin: "finite ?I" by simp
  have ne: "?I \<noteq> {}" using False c by (metis card.empty length_0_conv)
  then have m: "Max ?I \<in> ?I" using fin Max_in by blast
  have "?I \<subseteq> {..Max ?I}" using fin by (auto intro: Max_ge)
  then have "card ?I \<le> Suc (Max ?I)" by (metis card_atMost card_mono finite_atMost)
  then have "(of_nat (card ?I) :: rat) \<le> of_nat (Suc (Max ?I))" by (simp only: of_nat_le_iff)
  also have "\<dots> \<le> b" using m assms(1) by blast
  finally show ?thesis using c by simp
qed

text \<open>
  C32: whatever a fresh limiter sees, reservations, successes and throttle signals in any order, it
  releases within a time at most its burst plus its configured rate times that time, plus the waiting
  reservations that throttle signals forgave, of which there are none without such signals. The count is over every request whose call
  time plus imposed wait is at most \<open>T\<close>; one nanosecond is added because waits are truncated to whole
  nanoseconds.
\<close>

theorem limiter_admission:
  assumes "0 < Rate opt" and "MinRate opt \<le> Rate opt" and "sorted (t0 # reserve_times es)" and "t0 \<le> T"
  shows "of_nat (length (filter (\<lambda>r. r \<le> T) (releases (lim_New opt t0) es)))
       \<le> Burst (lim_withDefaults opt) + Rate opt * seconds_of (T - t0 + 1) + forgiven (lim_New opt t0) es \<and>
     ((\<forall>t d. EvThrottled t d \<notin> set es) \<longrightarrow> forgiven (lim_New opt t0) es = 0)"
proof (intro conjI impI forgiven_calm count_le_index)
  let ?l = "lim_New opt t0" and ?o = "lim_withDefaults opt"
  have ok: "lim_opt_ok ?o" using assms(1,2) by (rule lim_withDefaults_ok)
  have r: "Rate ?o = Rate opt" "last_refill ?l = t0" by (simp_all add: lim_New_def lim_withDefaults_def Let_def)
  have pot: "lim_pot t0 0 0 ?l" by (simp add: lim_pot_def lim_New_def Let_def seconds_of_def)
  fix i assume i: "i < length (releases ?l es)" and P: "releases ?l es ! i \<le> T"
  have "of_nat (0 + Suc i) \<le> Burst ?o + Rate ?o * seconds_of (releases ?l es ! i - t0 + 1) + 0 + forgiven ?l es"
    using assms r i by (intro releases_index [OF ok lim_New_inv [OF ok] pot, where t = t0]) auto
  also have "\<dots> \<le> Burst ?o + Rate ?o * seconds_of (T - t0 + 1) + 0 + forgiven ?l es"
    using P assms(1) r by (intro add_right_mono add_left_mono mult_left_mono seconds_of_mono) auto
  finally show "of_nat (Suc i) \<le> Burst ?o + Rate opt * seconds_of (T - t0 + 1) + forgiven ?l es"
    using r by simp
next
  have "0 < Burst (lim_withDefaults opt)" using assms(1)
    by (auto simp: lim_withDefaults_def Let_def)
  moreover have "0 \<le> seconds_of (T - t0 + 1)" using assms(4) by (simp add: seconds_of_def)
  ultimately show "0 \<le> Burst (lim_withDefaults opt) + Rate opt * seconds_of (T - t0 + 1) + forgiven (lim_New opt t0) es"
    using assms(1) forgiven_nonneg [of "lim_New opt t0" es] by simp
qed simp

text \<open>Six requests within four seconds at one per second: the signal after five forgives four that wait.\<close>

theorem limiter_admission_witness:
  "let es = replicate 5 (EvReserve 0) @ [EvThrottled 0 0, EvReserve 0] in
     length (filter (\<lambda>r. r \<le> 4 * Second) (releases (lim_New lim_opt1 0) es)) = 6 \<and>
     forgiven (lim_New lim_opt1 0) es = 4 \<and>
     of_nat (length (filter (\<lambda>r. r \<le> 4 * Second) (releases (lim_New lim_opt1 0) es)))
       \<le> Burst (lim_withDefaults lim_opt1) + Rate lim_opt1 * seconds_of (4 * Second - 0 + 1) + forgiven (lim_New lim_opt1 0) es"
proof -
  let ?es = "replicate 5 (EvReserve 0) @ [EvThrottled 0 0, EvReserve 0]"
  have "length (filter (\<lambda>r. r \<le> 4 * Second) (releases (lim_New lim_opt1 0) ?es)) = 6" by code_simp
  moreover have "forgiven (lim_New lim_opt1 0) ?es = 4" by code_simp
  moreover have "sorted (0 # reserve_times ?es)" by code_simp
  ultimately show ?thesis
    using limiter_admission [of lim_opt1 0 ?es "4 * Second"] unfolding Let_def by (simp add: lim_opt1_def)
qed

subsection \<open>A throttle signal forgives queued reservations\<close>

text \<open>
  \<open>Throttled\<close> sets the bucket to zero, not to the minimum of zero and its current value.
  When reservations are queued (the bucket is negative) the signal therefore erases their
  debt: the next caller is let through earlier than it would have been without the
  signal, although the rate was halved.
\<close>

definition lim_queued :: Limiter where
  "lim_queued = foldl lim_step (lim_New lim_opt1 0) (replicate 5 (EvReserve 0))"

lemma throttle_forgives_debt:
  "fst (Reserve lim_queued 0) = 5 * Second \<and>
   fst (Reserve (Throttled lim_queued 0 0) 0) = 2 * Second"
  by (simp add: lim_queued_def lim_New_def lim_opt1_def lim_withDefaults_def Reserve_def
      refillLocked_def Throttled_def seconds_of_def go_trunc_def zero_time_def Let_def
      numeral_eq_Suc)

section \<open>The circuit breaker\<close>

record BreakerOptions =
  Threshold :: int
  Window :: duration
  Cooldown :: duration

definition brk_withDefaults :: "BreakerOptions \<Rightarrow> BreakerOptions" where
  "brk_withDefaults o0 =
     (let o1 = (if Threshold o0 \<le> 0 then o0\<lparr>Threshold := 3\<rparr> else o0);
          o2 = (if Window o1 \<le> 0 then o1\<lparr>Window := 10 * Minute\<rparr> else o1)
      in if Cooldown o2 \<le> 0 then o2\<lparr>Cooldown := 30 * Minute\<rparr> else o2)"

record Breaker =
  b_opt :: BreakerOptions
  b_events :: "gotime list"
  openUntil :: gotime

definition NewBreaker :: "BreakerOptions \<Rightarrow> Breaker" where
  "NewBreaker opt = \<lparr>b_opt = brk_withDefaults opt, b_events = [], openUntil = zero_time\<rparr>"

definition Trip :: "Breaker \<Rightarrow> gotime \<Rightarrow> bool \<times> Breaker" where
  "Trip b now =
     (let cutoff = now - Window (b_opt b);
          b1 = b\<lparr>b_events := filter (\<lambda>e. e > cutoff) (b_events b) @ [now]\<rparr>;
          b2 = (if int (length (b_events b1)) \<ge> Threshold (b_opt b1)
                then b1\<lparr>openUntil := now + Cooldown (b_opt b1), b_events := []\<rparr> else b1)
      in (openUntil b2 > now, b2))"

definition brk_Open :: "Breaker \<Rightarrow> gotime \<Rightarrow> bool" where
  "brk_Open b now \<longleftrightarrow> openUntil b > now"

definition OpenUntil :: "Breaker \<Rightarrow> gotime \<Rightarrow> gotime" where
  "OpenUntil b now = (if openUntil b > now then openUntil b else zero_time)"

definition brk_Reset :: "Breaker \<Rightarrow> Breaker" where
  "brk_Reset b = b\<lparr>openUntil := zero_time, b_events := []\<rparr>"

fun trip_all :: "Breaker \<Rightarrow> gotime list \<Rightarrow> Breaker" where
  "trip_all b [] = b"
| "trip_all b (t # ts) = trip_all (snd (Trip b t)) ts"

text \<open>
  When a breaker should open, without the pruning of its event list: at every event that is at least the
  \<open>k\<close>-th within the last \<open>W\<close>, counting only the events since the last opening.
\<close>

fun openings :: "duration \<Rightarrow> int \<Rightarrow> gotime list \<Rightarrow> gotime list \<Rightarrow> gotime list" where
  "openings W k since [] = []"
| "openings W k since (t # ts) =
     (if k \<le> int (length (filter (\<lambda>e. t - W < e) (since @ [t]))) then t # openings W k [] ts
      else openings W k (since @ [t]) ts)"

definition events_in :: "gotime \<Rightarrow> gotime \<Rightarrow> gotime list \<Rightarrow> int" where
  "events_in lo hi ts = int (length (filter (\<lambda>e. lo \<le> e \<and> e < hi) ts))"

lemma events_in_append [simp]: "events_in lo hi (xs @ ys) = events_in lo hi xs + events_in lo hi ys"
  by (simp add: events_in_def)

lemma events_in_Cons [simp]:
  "events_in lo hi (t # ts) = (if lo \<le> t \<and> t < hi then 1 else 0) + events_in lo hi ts"
  by (simp add: events_in_def)

lemma events_in_none [simp]:
  "\<forall>e \<in> set ts. e < lo \<or> hi \<le> e \<Longrightarrow> events_in lo hi ts = 0"
  by (auto simp: events_in_def filter_empty_conv)

lemma events_in_nonneg: "0 \<le> events_in lo hi ts"
  by (simp add: events_in_def)

lemma openings_subset: "set (openings W k since ts) \<subseteq> set ts"
  by (induction W k since ts rule: openings.induct) auto

lemma filter_later: "c \<le> (d :: int) \<Longrightarrow> filter (\<lambda>e. d < e) (filter (\<lambda>e. c < e) xs) = filter (\<lambda>e. d < e) xs"
  by (induction xs) auto

lemma length_filter_le:
  "\<forall>x \<in> set xs. P x \<longrightarrow> Q x \<Longrightarrow> length (filter P xs) \<le> length (filter Q xs)"
  by (induction xs) auto

lemma trip_all_openings:
  assumes "0 < Window (b_opt b)" and "sorted ts"
    and "b_events b = filter (\<lambda>e. c < e) since" and "\<forall>t \<in> set ts. c \<le> t - Window (b_opt b)"
  shows "openUntil (trip_all b ts) =
     (let ops = openings (Window (b_opt b)) (Threshold (b_opt b)) since ts
      in if ops = [] then openUntil b else last ops + Cooldown (b_opt b))"
  using assms
proof (induction ts arbitrary: b since c)
  case (Cons t ts)
  let ?W = "Window (b_opt b)" and ?k = "Threshold (b_opt b)" and ?b = "snd (Trip b t)"
  let ?full = "?k \<le> int (length (filter (\<lambda>e. t - ?W < e) (since @ [t])))"
  have ev: "filter (\<lambda>e. t - ?W < e) (b_events b) = filter (\<lambda>e. t - ?W < e) since"
    using Cons.prems(1,4) filter_later [of c "t - ?W" since] unfolding Cons.prems(3) by simp
  have opt: "b_opt ?b = b_opt b" by (simp add: Trip_def Let_def)
  have later: "\<forall>u \<in> set ts. t - ?W \<le> u - ?W" "sorted ts" using Cons.prems(2) by auto
  show ?case
  proof (cases ?full)
    case True
    then have b: "openUntil ?b = t + Cooldown (b_opt b)" "b_events ?b = filter (\<lambda>e. t - ?W < e) []"
      using ev Cons.prems(1) by (simp_all add: Trip_def Let_def)
    show ?thesis
      using Cons.IH [of ?b "t - ?W" "[]"] b Cons.prems(1) later opt True by (simp add: Let_def)
  next
    case False
    then have b: "openUntil ?b = openUntil b" "b_events ?b = filter (\<lambda>e. t - ?W < e) (since @ [t])"
      using ev Cons.prems(1) by (simp_all add: Trip_def Let_def)
    show ?thesis
      using Cons.IH [of ?b "t - ?W" "since @ [t]"] b Cons.prems(1) later opt False by (simp add: Let_def)
  qed
qed simp

lemma filter_recent:
  "\<forall>e \<in> set xs. e \<le> (t :: int) \<Longrightarrow> filter (\<lambda>e. t - W < e) xs = filter (\<lambda>e. t - W + 1 \<le> e \<and> e < t + 1) xs"
  by (rule filter_cong) auto

lemma openings_full:
  assumes "sorted (since @ ts)" and "u \<in> set (openings W k since ts)"
  shows "k \<le> events_in (u - W + 1) (u + 1) (since @ ts)"
  using assms
proof (induction W k since ts rule: openings.induct)
  case (2 W k since t ts)
  have n: "int (length (filter (\<lambda>e. t - W < e) (since @ [t]))) = events_in (t - W + 1) (t + 1) (since @ [t])"
    using "2.prems"(1) unfolding events_in_def by (subst filter_recent) (auto simp: sorted_append)
  have s: "sorted ts" "sorted ((since @ [t]) @ ts)" using "2.prems"(1) by (auto simp: sorted_append)
  show ?case
  proof (cases "k \<le> int (length (filter (\<lambda>e. t - W < e) (since @ [t])))")
    case True
    with "2.prems"(2) consider "u = t" | "u \<in> set (openings W k [] ts)" by auto
    then show ?thesis
    proof cases
      case 1
      have "0 \<le> events_in (u - W + 1) (u + 1) ts" by (rule events_in_nonneg)
      with 1 True show ?thesis unfolding n by simp
    next
      case 2
      have "0 \<le> events_in (u - W + 1) (u + 1) since" by (rule events_in_nonneg)
      with "2.IH"(1) [OF True] 2 s(1) show ?thesis by simp
    qed
  next
    case False
    with "2.IH"(2) [OF False s(2)] "2.prems"(2) show ?thesis by simp
  qed
qed simp

lemma openings_complete:
  assumes "sorted (since @ ts)" and "0 < k" and "events_in lo (lo + W) since < k"
    and "\<forall>t \<in> set (openings W k since ts). \<not> (lo \<le> t \<and> t < lo + W)"
  shows "events_in lo (lo + W) (since @ ts) < k"
  using assms
proof (induction W k since ts rule: openings.induct)
  case (2 W k since t ts)
  have s: "sorted ts" "sorted ((since @ [t]) @ ts)" "\<forall>e \<in> set since. e \<le> t" "\<forall>e \<in> set ts. t \<le> e"
    using "2.prems"(1) by (auto simp: sorted_append)
  show ?case
  proof (cases "k \<le> int (length (filter (\<lambda>e. t - W < e) (since @ [t])))")
    case True
    then have out: "t < lo \<or> lo + W \<le> t" and rest: "events_in lo (lo + W) ts < k"
      using "2.prems" "2.IH"(1) [OF True] s(1) by auto
    from out show ?thesis
    proof
      assume "t < lo"
      then have "events_in lo (lo + W) since = 0" using s(3) by (intro events_in_none) force
      with \<open>t < lo\<close> rest show ?thesis by simp
    next
      assume "lo + W \<le> t"
      then have "events_in lo (lo + W) ts = 0" using s(4) by (intro events_in_none) force
      with \<open>lo + W \<le> t\<close> "2.prems"(3) show ?thesis by simp
    qed
  next
    case False
    have "events_in lo (lo + W) (since @ [t]) < k"
    proof (cases "lo \<le> t \<and> t < lo + W")
      case True
      then have "events_in lo (lo + W) (since @ [t]) \<le> int (length (filter (\<lambda>e. t - W < e) (since @ [t])))"
        unfolding events_in_def of_nat_le_iff by (intro length_filter_le) auto
      with False show ?thesis by simp
    next
      case False
      with "2.prems"(3) show ?thesis by auto
    qed
    with "2.IH"(2) [OF False s(2) "2.prems"(2)] "2.prems"(4) False show ?thesis by simp
  qed
qed simp

lemma openings_sorted: "sorted ts \<Longrightarrow> sorted (openings W k since ts)"
proof (induction W k since ts rule: openings.induct)
  case (2 W k since t ts)
  then show ?case using openings_subset [of W k "[]" ts] by auto
qed simp

lemma sorted_le_last: "sorted xs \<Longrightarrow> (t :: int) \<in> set xs \<Longrightarrow> t \<le> last xs"
  by (induction xs) auto

text \<open>
  C34: a breaker is open exactly for the cooldown after an event at which it opens, and it opens when it
  should: each opening is at least the threshold's count of events in the window that ends there, and every
  stretch as long as the window that has that many events has an opening in it. For every sequence of event
  times in order and any options, the defaults filled in.
\<close>

theorem breaker_opens:
  assumes "sorted ts" and "zero_time \<le> T"
  shows "let opt' = brk_withDefaults opt; W = Window opt'; k = Threshold opt'; ops = openings W k [] ts in
    (brk_Open (trip_all (NewBreaker opt) ts) T \<longleftrightarrow> (\<exists>t \<in> set ops. T < t + Cooldown opt')) \<and>
    (\<forall>t \<in> set ops. k \<le> events_in (t - W + 1) (t + 1) ts) \<and>
    (\<forall>lo. k \<le> events_in lo (lo + W) ts \<longrightarrow> (\<exists>t \<in> set ops. lo \<le> t \<and> t < lo + W))"
  unfolding Let_def
proof (intro conjI ballI allI impI)
  let ?o = "brk_withDefaults opt"
  let ?ops = "openings (Window ?o) (Threshold ?o) [] ts"
  have pos: "0 < Window ?o" "0 < Threshold ?o" by (simp_all add: brk_withDefaults_def Let_def)
  have "openUntil (trip_all (NewBreaker opt) ts) = (if ?ops = [] then zero_time else last ?ops + Cooldown ?o)"
    using trip_all_openings [of "NewBreaker opt" ts "Min (set ts) - Window ?o" "[]"] assms(1) pos
    by (simp add: NewBreaker_def Let_def)
  then show "brk_Open (trip_all (NewBreaker opt) ts) T \<longleftrightarrow> (\<exists>t \<in> set ?ops. T < t + Cooldown ?o)"
    using sorted_le_last [OF openings_sorted [OF assms(1)]] assms(2) last_in_set [of ?ops]
    by (force simp: brk_Open_def)
  show "Threshold ?o \<le> events_in (t - Window ?o + 1) (t + 1) ts" if "t \<in> set ?ops" for t
    using openings_full [OF _ that] assms(1) by simp
  show "\<exists>t \<in> set ?ops. lo \<le> t \<and> t < lo + Window ?o"
    if "Threshold ?o \<le> events_in lo (lo + Window ?o) ts" for lo
    using openings_complete [of "[]" ts "Threshold ?o" lo "Window ?o"] assms(1) pos that by force
qed

definition brk_opts0 :: BreakerOptions where
  "brk_opts0 = \<lparr>Threshold = 0, Window = 0, Cooldown = 0\<rparr>"

text \<open>Three events within ten minutes open the breaker at the third, for half an hour.\<close>

theorem breaker_opens_witness:
  "let ts = [Minute, 2 * Minute, 9 * Minute]; b = trip_all (NewBreaker brk_opts0) ts in
     brk_Open b (38 * Minute) \<and> \<not> brk_Open b (39 * Minute) \<and> openings (10 * Minute) 3 [] ts = [9 * Minute]"
proof -
  let ?ts = "[Minute, 2 * Minute, 9 * Minute]"
  have o: "openings (10 * Minute) 3 [] ?ts = [9 * Minute]" by code_simp
  have d: "brk_withDefaults brk_opts0 = \<lparr>Threshold = 3, Window = 10 * Minute, Cooldown = 30 * Minute\<rparr>"
    by (simp add: brk_withDefaults_def brk_opts0_def Let_def)
  have z: "zero_time \<le> 38 * Minute" "zero_time \<le> 39 * Minute" "sorted ?ts" "Minute > 0" by code_simp+
  show ?thesis
    using breaker_opens [OF z(3,1), of brk_opts0] breaker_opens [OF z(3,2), of brk_opts0] o z(4)
    by (simp add: Let_def d)
qed

section \<open>The registry\<close>

record Key =
  k_Remote :: string
  k_Account :: string
  k_Class :: LClass

text \<open>
  Maps hold addresses: \<open>lim_store\<close> and \<open>brk_store\<close> are the heap cells the pointers of the
  source refer to, so that sharing of one limiter by two keys is visible.
\<close>

record Registry =
  limiters :: "Key \<rightharpoonup> nat"
  breakers :: "string \<rightharpoonup> nat"
  lim_store :: "Limiter list"
  brk_store :: "Breaker list"
  lim_defaults :: "Key \<Rightarrow> LimOptions"
  bopts :: BreakerOptions

definition NewRegistry :: "(Key \<Rightarrow> LimOptions) \<Rightarrow> BreakerOptions \<Rightarrow> Registry" where
  "NewRegistry defaults bo =
     \<lparr>limiters = Map.empty, breakers = Map.empty, lim_store = [], brk_store = [],
      lim_defaults = defaults, bopts = bo\<rparr>"

definition lim_alloc :: "Registry \<Rightarrow> Key \<Rightarrow> gotime \<Rightarrow> nat \<times> Registry" where
  "lim_alloc r k now =
     (length (lim_store r),
      r\<lparr>lim_store := lim_store r @ [lim_New (lim_defaults r k) now],
        limiters := (limiters r)(k \<mapsto> length (lim_store r))\<rparr>)"

definition reg_Limiter :: "Registry \<Rightarrow> Key \<Rightarrow> gotime \<Rightarrow> nat \<times> Registry" where
  "reg_Limiter r k now =
     (case limiters r k of
        Some a \<Rightarrow> (a, r)
      | None \<Rightarrow>
          if k_Class k = Transfer \<and> Rate (lim_defaults r k) \<le> 0 then
            (let dk = \<lparr>k_Remote = k_Remote k, k_Account = k_Account k, k_Class = Download\<rparr>;
                 (a, r1) = (case limiters r dk of
                              Some a \<Rightarrow> (a, r)
                            | None \<Rightarrow> lim_alloc r dk now)
             in (a, r1\<lparr>limiters := (limiters r1)(k \<mapsto> a)\<rparr>))
          else lim_alloc r k now)"

definition reg_Breaker :: "Registry \<Rightarrow> string \<Rightarrow> string \<Rightarrow> nat \<times> Registry" where
  "reg_Breaker r remote account =
     (let bid = remote @ ''/'' @ account in
      case breakers r bid of
        Some a \<Rightarrow> (a, r)
      | None \<Rightarrow>
          (length (brk_store r),
           r\<lparr>brk_store := brk_store r @ [NewBreaker (bopts r)],
             breakers := (breakers r)(bid \<mapsto> length (brk_store r))\<rparr>))"

text \<open>The download key a transfer key is aliased onto.\<close>

definition download_key :: "Key \<Rightarrow> Key" where
  "download_key k = \<lparr>k_Remote = k_Remote k, k_Account = k_Account k, k_Class = Download\<rparr>"

definition aliased :: "Registry \<Rightarrow> Key \<Rightarrow> Key" where
  "aliased r k = (if k_Class k = Transfer \<and> Rate (lim_defaults r k) \<le> 0 then download_key k else k)"

definition sharing_ok :: "(Key \<Rightarrow> Key) \<Rightarrow> (Key \<rightharpoonup> nat) \<Rightarrow> nat \<Rightarrow> bool" where
  "sharing_ok A m n \<longleftrightarrow>
     (\<forall>k a. m k = Some a \<longrightarrow> a < n \<and> m (A k) = Some a) \<and>
     (\<forall>k k' a. m k = Some a \<longrightarrow> m k' = Some a \<longrightarrow> A k = A k')"

definition reg_inv :: "Registry \<Rightarrow> bool" where
  "reg_inv r \<longleftrightarrow> sharing_ok (aliased r) (limiters r) (length (lim_store r))"

lemma aliased_idem [simp]: "aliased r (aliased r k) = aliased r k"
  by (simp add: aliased_def download_key_def)

lemma NewRegistry_inv: "reg_inv (NewRegistry d bo)"
  by (simp add: reg_inv_def NewRegistry_def sharing_ok_def)

lemma reg_Limiter_defaults [simp]: "lim_defaults (snd (reg_Limiter r k now)) = lim_defaults r"
  by (auto simp: reg_Limiter_def lim_alloc_def Let_def split: option.splits prod.splits)

lemma aliased_cong: "lim_defaults r' = lim_defaults r \<Longrightarrow> aliased r' = aliased r"
  by (simp add: aliased_def fun_eq_iff)

lemma reg_Limiter_cases:
  obtains (known) a where "limiters r k = Some a" and "reg_Limiter r k now = (a, r)"
  | (shared) a where "limiters r k = None" and "aliased r k \<noteq> k" and "limiters r (aliased r k) = Some a"
      and "reg_Limiter r k now = (a, r\<lparr>limiters := (limiters r)(k \<mapsto> a)\<rparr>)"
  | (fresh) "limiters r k = None" and "limiters r (aliased r k) = None"
      and "fst (reg_Limiter r k now) = length (lim_store r)"
      and "limiters (snd (reg_Limiter r k now)) =
           (limiters r)(aliased r k \<mapsto> length (lim_store r), k \<mapsto> length (lim_store r))"
      and "length (lim_store (snd (reg_Limiter r k now))) = Suc (length (lim_store r))"
proof (cases "limiters r k")
  case (Some a)
  then show ?thesis using known by (simp add: reg_Limiter_def)
next
  case None
  show ?thesis
  proof (cases "k_Class k = Transfer \<and> Rate (lim_defaults r k) \<le> 0")
    case False
    then have al: "aliased r k = k" by (auto simp: aliased_def)
    have "reg_Limiter r k now = lim_alloc r k now" using None False by (auto simp: reg_Limiter_def)
    with None al show ?thesis by (intro fresh) (simp_all add: lim_alloc_def)
  next
    case True
    then have al: "aliased r k = download_key k" by (simp add: aliased_def)
    have neq: "download_key k \<noteq> k"
    proof
      assume "download_key k = k"
      then have "k_Class k = Download" by (metis Key.select_convs(3) download_key_def)
      with True show False by simp
    qed
    show ?thesis
    proof (cases "limiters r (download_key k)")
      case (Some a)
      have "reg_Limiter r k now = (a, r\<lparr>limiters := (limiters r)(k \<mapsto> a)\<rparr>)"
        using None True Some by (simp add: reg_Limiter_def download_key_def)
      with None al neq Some show ?thesis by (intro shared [of a]) simp_all
    next
      case N: None
      have "reg_Limiter r k now = (length (lim_store r),
          (snd (lim_alloc r (download_key k) now))\<lparr>limiters :=
             (limiters (snd (lim_alloc r (download_key k) now)))(k \<mapsto> length (lim_store r))\<rparr>)"
        using None True N by (simp add: reg_Limiter_def download_key_def lim_alloc_def Let_def)
      with None al N show ?thesis by (intro fresh) (simp_all add: lim_alloc_def)
    qed
  qed
qed

lemma sharing_okD:
  assumes "sharing_ok A m n" and "m k = Some a"
  shows "a < n" and "m (A k) = Some a" and "m k' = Some a \<Longrightarrow> A k' = A k"
  using assms unfolding sharing_ok_def by blast+

lemma sharing_ok_upd:
  assumes inv: "sharing_ok A m n" and idem: "\<And>k. A (A k) = A k" and new: "m k = None"
    and a: "(m (A k) = Some a \<and> n' = n) \<or> (m (A k) = None \<and> a = n \<and> n' = Suc n)"
  shows "sharing_ok A (m(A k \<mapsto> a, k \<mapsto> a)) n'"
proof -
  let ?m = "m(A k \<mapsto> a, k \<mapsto> a)"
  have addr: "A k' = A k" if "m k' = Some a" for k'
  proof -
    have "m (A k) = Some a" using a sharing_okD(1) [OF inv that] by blast
    from sharing_okD(3) [OF inv this that] show ?thesis by (simp add: idem)
  qed
  have cases: "(b = a \<and> A k' = A k) \<or> m k' = Some b" if "?m k' = Some b" for k' b
    using that by (auto simp: idem split: if_splits)
  have lt: "a < n'" using a sharing_okD(1) [OF inv] by auto
  have "b < n' \<and> ?m (A k') = Some b" if "?m k' = Some b" for k' b
    using cases [OF that]
  proof
    assume "b = a \<and> A k' = A k"
    then show ?thesis using lt by simp
  next
    assume "m k' = Some b"
    from sharing_okD(1,2) [OF inv this] a new show ?thesis by auto
  qed
  moreover have "A k' = A k''" if "?m k' = Some b" and "?m k'' = Some b" for k' k'' b
    using cases [OF that(1)] cases [OF that(2)] addr [of k'] addr [of k'']
      sharing_okD(3) [OF inv, of k'' b k'] by auto
  ultimately show ?thesis unfolding sharing_ok_def by blast
qed

text \<open>
  C35: two keys are served by one limiter exactly when the second is a transfer key
  without a rate of its own and the first is its download key (or the keys are equal):
  throttling one account never slows another down, and the aliasing does not depend on
  which of the two keys is asked for first.
\<close>

theorem registry_sharing:
  assumes "reg_inv r"
  shows "reg_inv (snd (reg_Limiter r k now)) \<and>
    limiters (snd (reg_Limiter r k now)) k = Some (fst (reg_Limiter r k now)) \<and>
    (\<forall>k' a. limiters (snd (reg_Limiter r k now)) k' = Some a \<longrightarrow>
       (a = fst (reg_Limiter r k now) \<longleftrightarrow> aliased r k' = aliased r k))"
proof -
  let ?r = "snd (reg_Limiter r k now)"
  have al: "aliased ?r = aliased r" by (rule aliased_cong) simp
  note I = assms [unfolded reg_inv_def]
  have inv: "reg_inv ?r \<and> limiters ?r k = Some (fst (reg_Limiter r k now))"
  proof (cases rule: reg_Limiter_cases [of r k now])
    case (known a)
    with assms show ?thesis by simp
  next
    case (shared a)
    have "(limiters r)(k \<mapsto> a) = (limiters r)(aliased r k \<mapsto> a, k \<mapsto> a)"
      using shared(3) by auto
    then show ?thesis
      using sharing_ok_upd [OF I _ shared(1), of a "length (lim_store r)"] shared(3,4) al
      by (simp add: reg_inv_def)
  next
    case fresh
    then show ?thesis
      using sharing_ok_upd [OF I _ fresh(1), of "length (lim_store r)" "Suc (length (lim_store r))"] al
      by (simp add: reg_inv_def)
  qed
  then have S: "sharing_ok (aliased r) (limiters ?r) (length (lim_store ?r))"
    and mine: "limiters ?r k = Some (fst (reg_Limiter r k now))"
    by (simp_all add: reg_inv_def al)
  have "a = fst (reg_Limiter r k now) \<longleftrightarrow> aliased r k' = aliased r k"
    if "limiters ?r k' = Some a" for k' a
  proof
    assume "a = fst (reg_Limiter r k now)"
    with that sharing_okD(3) [OF S mine, of k'] show "aliased r k' = aliased r k" by blast
  next
    assume "aliased r k' = aliased r k"
    with sharing_okD(2) [OF S that] sharing_okD(2) [OF S mine]
    show "a = fst (reg_Limiter r k now)" by (metis option.inject)
  qed
  with inv show ?thesis by blast
qed

definition transfer_defaults :: "Key \<Rightarrow> LimOptions" where
  "transfer_defaults k = (if k_Class k = Transfer then lim_opt1\<lparr>Rate := 0\<rparr> else lim_opt1)"

theorem registry_sharing_witness:
  "reg_inv (snd (reg_Limiter (NewRegistry transfer_defaults (brk_withDefaults brk_opts0))
      \<lparr>k_Remote = ''nas'', k_Account = [], k_Class = Transfer\<rparr> 0))"
  using registry_sharing [OF NewRegistry_inv] by blast

end
