(* ===== verification/Uploader.thy ===== *)
theory Uploader
  imports RateLimit JournalSystem
begin

text \<open>
  \<open>internal/upload\<close>: what a worker does with one claimed upload (\<open>uploader.go\<close>), the registration
  that decides races with a stop (\<open>cancel.go\<close>), and the verdict of a flush (\<open>flush.go\<close>).

  The backend and the hooks are not part of the package: they are arguments, functions on the
  whole world. Whatever other goroutines do to the journal or the context while such a call runs
  is part of what the function does to the world. The goroutines of \<open>Start\<close> and \<open>Stop\<close> are not modelled.
\<close>

section \<open>The world of a worker\<close>

text \<open>
  \<open>w_r\<close> is the state of backend and hooks. The transfers registered by id stand for the map of their cancel
  functions; \<open>w_ended\<close> are those whose context has ended, \<open>w_stopped\<close> says that the context of the
  worker has. Each call of the journal or of \<open>Policy.Do\<close> takes its environment from its position.
\<close>

record 'r World =
  w_j :: Journal
  w_r :: 'r
  w_lim :: "Registry option"
  w_transfers :: "string set"
  w_ended :: "string set"
  w_stopped :: bool
  w_envs :: "nat \<Rightarrow> env"
  w_dos :: "nat \<Rightarrow> doenv"
  w_pos :: nat

definition ctx_over :: "'r World \<Rightarrow> string \<Rightarrow> bool" where
  "ctx_over w uid \<longleftrightarrow> w_stopped w \<or> uid \<in> w_ended w"

text \<open>A query or transaction on an ended context fails before it begins.\<close>

definition ended_env :: "env \<Rightarrow> env" where
  "ended_env env = env\<lparr>dbf := \<lambda>n. DBBegin, ctx_err := True\<rparr>"

definition jcall :: "bool \<Rightarrow> (env \<Rightarrow> Journal \<Rightarrow> 'a \<times> Journal) \<Rightarrow> 'r World \<Rightarrow> 'a \<times> 'r World" where
  "jcall over f w =
     (let env = w_envs w (w_pos w);
          (r, j) = f (if over then ended_env env else env) (w_j w) in
      (r, w\<lparr>w_j := j, w_pos := Suc (w_pos w)\<rparr>))"

definition jread :: "bool \<Rightarrow> (env \<Rightarrow> Journal \<Rightarrow> 'a) \<Rightarrow> 'r World \<Rightarrow> 'a \<times> 'r World" where
  "jread over f w = jcall over (\<lambda>env j. (f env j, j)) w"

section \<open>Backends and hooks\<close>

datatype Kind = KindFile | KindDir

record Entry =
  en_ID :: string
  en_ParentID :: string
  en_Name :: string
  en_Kind :: Kind
  en_Size :: int
  en_ModTime :: gotime
  en_Version :: string
  en_Hashes :: Hashes

definition no_entry :: Entry where
  "no_entry = \<lparr>en_ID = [], en_ParentID = [], en_Name = [], en_Kind = KindFile, en_Size = 0,
     en_ModTime = zero_time, en_Version = [], en_Hashes = Map.empty\<rparr>"

record UploadSession =
  us_ID :: string
  us_PartSize :: int
  us_RapidDone :: bool
  us_Entry :: "Entry option"
  us_Opaque :: "string \<rightharpoonup> string"

record PartToken =
  tk_Index :: int
  tk_ETag :: string

text \<open>
  The capabilities and methods that the uploader uses; \<open>pv_PutFile\<close> is there when the backend is a
  \<open>SinglePutter\<close>. A reader argument is the bytes it yields.
\<close>

type_synonym ('r, 'a) remote_call = "'r World \<Rightarrow> (goerr + 'a) \<times> 'r World"

record 'r Provider =
  pv_PartSize :: int
  pv_SinglePutMax :: int
  pv_List :: "string \<Rightarrow> string \<Rightarrow> ('r, Entry list \<times> string) remote_call"
  pv_BeginUpload :: "string \<Rightarrow> string \<Rightarrow> int \<Rightarrow> Hashes \<Rightarrow> ('r, UploadSession) remote_call"
  pv_UploadPart :: "UploadSession \<Rightarrow> int \<Rightarrow> byte list \<Rightarrow> int \<Rightarrow> ('r, PartToken) remote_call"
  pv_CompleteUpload :: "UploadSession \<Rightarrow> PartToken list \<Rightarrow> ('r, Entry) remote_call"
  pv_PutFile :: "(string \<Rightarrow> string \<Rightarrow> byte list \<Rightarrow> int \<Rightarrow> Hashes \<Rightarrow> ('r, Entry) remote_call) option"
  pv_Delete :: "string \<Rightarrow> ('r, unit) remote_call"

record Result =
  rs_UploadID :: string
  rs_Entry :: Entry
  rs_Rapid :: bool
  rs_ConflictName :: string

record 'r Hooks =
  hk_Authorize :: "(Upload \<Rightarrow> 'r World \<Rightarrow> goerr option \<times> 'r World) option"
  hk_OnSuccess :: "(Upload \<Rightarrow> Result \<Rightarrow> 'r World \<Rightarrow> goerr option \<times> 'r World) option"
  hk_OnDead :: "(Upload \<Rightarrow> goerr \<Rightarrow> 'r World \<Rightarrow> 'r World) option"
  hk_RemoteVersion :: "(Upload \<Rightarrow> 'r World \<Rightarrow> string option) option"
  hk_Exists :: "(Upload \<Rightarrow> 'r World \<Rightarrow> bool) option"

text \<open>
  \<open>op_text\<close> is the \<open>Error\<close> method of errors, \<open>op_host\<close> the host name and \<open>op_date\<close> the date of a time
  as \<open>Format\<close> prints it.
\<close>

record 'r UOptions =
  op_Providers :: "string \<Rightarrow> 'r Provider option"
  op_Policy :: Policy
  op_MaxAttempts :: int
  op_Workers :: int
  op_PollInterval :: duration
  op_Backoff :: Backoff
  op_Hooks :: "'r Hooks"
  op_text :: "goerr \<Rightarrow> string"
  op_host :: string
  op_date :: "gotime \<Rightarrow> string"

text \<open>The defaults of \<open>New\<close>.\<close>

definition New_Uploader :: "'r UOptions \<Rightarrow> 'r UOptions" where
  "New_Uploader o0 =
     (let o1 = (if op_Workers o0 \<le> 0 then o0\<lparr>op_Workers := 2\<rparr> else o0);
          o2 = (if op_MaxAttempts o1 \<le> 0 then o1\<lparr>op_MaxAttempts := 8\<rparr> else o1);
          o3 = (if op_PollInterval o2 \<le> 0 then o2\<lparr>op_PollInterval := Second\<rparr> else o2);
          o4 = (if MaxAttempts (op_Policy o3) = 0
                then o3\<lparr>op_Policy := \<lparr>pBackoff = DefaultBackoff, MaxAttempts = 3\<rparr>\<rparr> else o3) in
      if bo_Max (op_Backoff o4) = 0 then o4\<lparr>op_Backoff := DefaultBackoff\<rparr> else o4)"

definition wrap :: "string \<Rightarrow> goerr list \<Rightarrow> goerr" where
  "wrap msg es = GoErr (EText msg) es"

definition os_err :: goerr where
  "os_err = GoErr (EText ''open'') []"

definition ctx_error :: goerr where
  "ctx_error = sentinel_err CtxCanceled"

definition journal_err :: "bool \<Rightarrow> goerr" where
  "journal_err over = (if over then ctx_error else GoErr (EText ''journal'') [])"

section \<open>Rate limits\<close>

definition upload_key :: "string \<Rightarrow> Key" where
  "upload_key remote = \<lparr>k_Remote = remote, k_Account = [], k_Class = LClass.Upload\<rparr>"

text \<open>A method of the limiter of the remote, at the time of the world's position.\<close>

definition on_limiter ::
  "string \<Rightarrow> (Limiter \<Rightarrow> gotime \<Rightarrow> 'a \<times> Limiter) \<Rightarrow> 'a \<Rightarrow> 'r World \<Rightarrow> 'a \<times> 'r World" where
  "on_limiter remote f dflt w =
     (case w_lim w of
        None \<Rightarrow> (dflt, w)
      | Some reg \<Rightarrow>
          (let t = now (w_envs w (w_pos w));
               (a, reg1) = reg_Limiter reg (upload_key remote) t;
               (r, l) = f (lim_store reg1 ! a) t in
           (r, w\<lparr>w_lim := Some (reg1\<lparr>lim_store := (lim_store reg1)[a := l]\<rparr>)\<rparr>)))"

definition end_ctx :: "string \<Rightarrow> 'r World \<Rightarrow> 'r World" where
  "end_ctx uid w = w\<lparr>w_ended := insert uid (w_ended w)\<rparr>"

text \<open>The wait ends early when the context has ended or ends meanwhile.\<close>

definition waitLimit :: "Upload \<Rightarrow> 'r World \<Rightarrow> goerr option \<times> 'r World" where
  "waitLimit up w =
     (let over = ctx_over w (u_ID up) \<or> ctx_ended (w_dos w (w_pos w)) 0 \<noteq> None;
          (e, w1) = on_limiter (u_Remote up) (\<lambda>l t. lim_Wait l t (if over then Some ctx_error else None)) None w;
          w2 = w1\<lparr>w_pos := Suc (w_pos w1)\<rparr> in
      (e, if e = None then w2 else end_ctx (u_ID up) w2))"

definition trip_breaker :: "string \<Rightarrow> 'r World \<Rightarrow> 'r World" where
  "trip_breaker remote w =
     (case w_lim w of
        None \<Rightarrow> w
      | Some reg \<Rightarrow>
          (let (b, reg1) = reg_Breaker reg remote [];
               (_, br) = Trip (brk_store reg1 ! b) (now (w_envs w (w_pos w))) in
           w\<lparr>w_lim := Some (reg1\<lparr>brk_store := (brk_store reg1)[b := br]\<rparr>)\<rparr>))"

definition throttled :: "string \<Rightarrow> goerr option \<Rightarrow> 'r World \<Rightarrow> 'r World" where
  "throttled remote err w =
     (if Classify err = ClassRetryable \<or> Classify err = ClassRiskControl then
        (let w1 = snd (on_limiter remote (\<lambda>l t. ((), Throttled l t (RetryAfter err))) () w) in
         if Classify err = ClassRiskControl \<and> w_lim w \<noteq> None then trip_breaker remote w1 else w1)
      else w)"

definition succeeded :: "string \<Rightarrow> 'r World \<Rightarrow> 'r World" where
  "succeeded remote w = snd (on_limiter remote (\<lambda>l t. ((), Succeeded l)) () w)"

text \<open>
  \<open>Policy.Do\<close> around a method of the backend: the value of the last call, which is the zero value \<open>z\<close> when
  there was none, and whether the context ended in one of the pauses (the hook counts them).
\<close>

definition u_Do :: "'r UOptions \<Rightarrow> Upload \<Rightarrow> 'a \<Rightarrow> ('r, 'a) remote_call \<Rightarrow> 'r World \<Rightarrow> (goerr + 'a) \<times> 'r World" where
  "u_Do opt up z m w =
     (let de = w_dos w (w_pos w);
          (e, (v, k, w1)) =
            Do (op_Policy opt) de
              (\<lambda>(v, k, w). case m w of (Inl e, w') \<Rightarrow> (Some e, (v, k, w')) | (Inr a, w') \<Rightarrow> (None, (a, k, w')))
              (Some (\<lambda>e c d (v, k, w). (v, Suc k, throttled (u_Remote up) e w)))
              (z, 0, w\<lparr>w_pos := Suc (w_pos w)\<rparr>);
          w2 = (if 0 < k \<and> ctx_ended de (int k - 1) \<noteq> None then end_ctx (u_ID up) w1 else w1) in
      (case e of Some err \<Rightarrow> (Inl err, w2) | None \<Rightarrow> (Inr v, w2)))"

section \<open>Sessions\<close>

definition sessionIDKey :: string where
  "sessionIDKey = ''cloudfs.session_id''"

definition sessionPartSizeKey :: string where
  "sessionPartSizeKey = ''cloudfs.part_size''"

definition persistSession :: "UploadSession \<Rightarrow> (string \<rightharpoonup> string)" where
  "persistSession s =
     (us_Opaque s)(sessionIDKey \<mapsto> us_ID s, sessionPartSizeKey \<mapsto> FormatInt (us_PartSize s))"

definition restoreSession :: "(string \<rightharpoonup> string) \<Rightarrow> UploadSession option" where
  "restoreSession m =
     (case m sessionIDKey of
        None \<Rightarrow> None
      | Some i \<Rightarrow>
          if i = [] then None
          else
            Some \<lparr>us_ID = i,
              us_PartSize = ParseInt64 (case m sessionPartSizeKey of None \<Rightarrow> [] | Some v \<Rightarrow> v),
              us_RapidDone = False, us_Entry = None,
              us_Opaque = (\<lambda>k. if k = sessionIDKey \<or> k = sessionPartSizeKey then None else m k)\<rparr>)"

definition no_session :: UploadSession where
  "no_session = \<lparr>us_ID = [], us_PartSize = 0, us_RapidDone = False, us_Entry = None, us_Opaque = Map.empty\<rparr>"

definition no_token :: PartToken where
  "no_token = \<lparr>tk_Index = 0, tk_ETag = []\<rparr>"

section \<open>Conflicts\<close>

text \<open>The index of the last dot, if that is not the first character.\<close>

fun last_dot :: "nat \<Rightarrow> string \<Rightarrow> nat option" where
  "last_dot i name = (if i = 0 then None else if name ! i = CHR ''.'' then Some i else last_dot (i - 1) name)"

declare last_dot.simps [simp del]

definition conflictName :: "string \<Rightarrow> string \<Rightarrow> string \<Rightarrow> string" where
  "conflictName host date name =
     (let suffix = '' (conflict '' @ date @ '' '' @ (if host = [] then ''local'' else host) @ '')'' in
      case last_dot (length name - 1) name of
        None \<Rightarrow> name @ suffix
      | Some i \<Rightarrow> take i name @ suffix @ drop i name)"

definition expected_version :: "'r UOptions \<Rightarrow> Upload \<Rightarrow> 'r World \<Rightarrow> string" where
  "expected_version opt up w =
     (case hk_RemoteVersion (op_Hooks opt) of
        None \<Rightarrow> u_ExpectedVersion up
      | Some f \<Rightarrow> (case f up w of None \<Rightarrow> u_ExpectedVersion up | Some v \<Rightarrow> if v = [] then u_ExpectedVersion up else v))"

text \<open>The pages of the directory until the name turns up; a listing that never ends does not return.\<close>

partial_function (option) list_pages ::
  "'r Provider \<Rightarrow> Upload \<Rightarrow> string \<Rightarrow> string \<Rightarrow> 'r World \<Rightarrow> ((goerr + bool) \<times> 'r World) option" where
  "list_pages p up expected cursor w =
     (case pv_List p (u_RemoteParentID up) cursor w of
        (Inl e, w1) \<Rightarrow> Some (Inl e, w1)
      | (Inr (entries, nxt), w1) \<Rightarrow>
          (case find (\<lambda>e. en_Name e = u_Name up) entries of
             Some e \<Rightarrow> Some (Inr (en_Version e \<noteq> [] \<and> en_Version e \<noteq> expected), w1)
           | None \<Rightarrow> if nxt = [] then Some (Inr False, w1) else list_pages p up expected nxt w1))"

definition remoteChanged ::
  "'r UOptions \<Rightarrow> 'r Provider \<Rightarrow> Upload \<Rightarrow> 'r World \<Rightarrow> ((goerr + bool) \<times> 'r World) option" where
  "remoteChanged opt p up w = list_pages p up (expected_version opt up w) [] w"

text \<open>The name the data goes under.\<close>

definition choose_name :: "'r UOptions \<Rightarrow> 'r Provider \<Rightarrow> Upload \<Rightarrow> 'r World \<Rightarrow> (string \<times> 'r World) option" where
  "choose_name opt p up w =
     (if u_ExpectedVersion up = [] then Some (u_Name up, w)
      else
        (case remoteChanged opt p up w of
           None \<Rightarrow> None
         | Some (Inr True, w1) \<Rightarrow>
             Some (conflictName (op_host opt) (op_date opt (now (w_envs w1 (w_pos w1)))) (u_Name up), w1)
         | Some (_, w1) \<Rightarrow> Some (u_Name up, w1)))"

section \<open>One transfer\<close>

definition open_blob :: "Upload \<Rightarrow> 'r World \<Rightarrow> oserr + nat" where
  "open_blob up w = os_open (w_envs w (w_pos w)) (jos (w_j w)) (u_BlobPath up)"

definition blob_data :: "nat \<Rightarrow> 'r World \<Rightarrow> byte list" where
  "blob_data f w = os_data (jos (w_j w)) f"

text \<open>What \<open>io.NewSectionReader\<close> yields.\<close>

definition section_of :: "int \<Rightarrow> int \<Rightarrow> byte list \<Rightarrow> byte list" where
  "section_of off n bs = take (nat n) (drop (nat off) bs)"

definition result_of :: "Upload \<Rightarrow> string \<Rightarrow> bool \<Rightarrow> Entry \<Rightarrow> Result" where
  "result_of up name rapid entry =
     \<lparr>rs_UploadID = u_ID up, rs_Entry = entry, rs_Rapid = rapid,
      rs_ConflictName = (if name \<noteq> u_Name up then name else [])\<rparr>"

definition gone_err :: goerr where
  "gone_err = wrap ''upload'' [sentinel_err ErrNotFound, os_err]"

definition putWhole ::
  "'r UOptions \<Rightarrow> (string \<Rightarrow> string \<Rightarrow> byte list \<Rightarrow> int \<Rightarrow> Hashes \<Rightarrow> ('r, Entry) remote_call) \<Rightarrow> Upload \<Rightarrow> string \<Rightarrow> 'r World \<Rightarrow>
   (goerr + Result) \<times> 'r World" where
  "putWhole opt put up name w =
     (case open_blob up w of
        Inl e \<Rightarrow> (Inl gone_err, w)
      | Inr f \<Rightarrow>
          (case u_Do opt up no_entry (\<lambda>w. put (u_RemoteParentID up) name (section_of 0 (u_Size up) (blob_data f w))
                  (u_Size up) (u_Hashes up) w) w of
             (Inl e, w1) \<Rightarrow> (Inl e, w1)
           | (Inr entry, w1) \<Rightarrow> (Inr (result_of up name False entry), succeeded (u_Remote up) w1)))"

definition begin_upload ::
  "'r UOptions \<Rightarrow> 'r Provider \<Rightarrow> Upload \<Rightarrow> string \<Rightarrow> 'r World \<Rightarrow> (goerr + UploadSession) \<times> 'r World" where
  "begin_upload opt p up name w =
     (case open_blob up w of
        Inl e \<Rightarrow> (Inl (wrap ''upload: open proof content'' [os_err]), w)
      | Inr f \<Rightarrow> u_Do opt up no_session (pv_BeginUpload p (u_RemoteParentID up) name (u_Size up) (u_Hashes up)) w)"

definition part_size :: "'r Provider \<Rightarrow> UploadSession \<Rightarrow> int" where
  "part_size p sess =
     (let ps = us_PartSize sess; ps1 = (if ps \<le> 0 then pv_PartSize p else ps) in
      if ps1 \<le> 0 then 4194304 else ps1)"

definition n_parts :: "int \<Rightarrow> int \<Rightarrow> nat" where
  "n_parts sz ps = (let n = nat ((sz + ps - 1) div ps) in if n = 0 then 1 else n)"

text \<open>Offset and length of part \<open>i\<close>.\<close>

definition part_range :: "int \<Rightarrow> int \<Rightarrow> int \<Rightarrow> int \<times> int" where
  "part_range sz ps i =
     (let off = i * ps; n = (if off + ps > sz then sz - off else ps) in (off, if n < 0 then 0 else n))"

definition done_parts :: "Part list \<Rightarrow> int \<Rightarrow> PartToken option" where
  "done_parts recorded i =
     map_option (\<lambda>pt. \<lparr>tk_Index = p_Index pt, tk_ETag = p_ETag pt\<rparr>)
       (find (\<lambda>pt. p_State pt = ''done'' \<and> p_Index pt = i) (rev recorded))"

definition expired :: "bool \<Rightarrow> goerr \<Rightarrow> goerr" where
  "expired resumed e =
     (if resumed \<and> err_is e ErrNotFound then wrap [] [sentinel_err ErrSessionExpired, e] else e)"

fun send_parts ::
  "'r UOptions \<Rightarrow> 'r Provider \<Rightarrow> Upload \<Rightarrow> UploadSession \<Rightarrow> bool \<Rightarrow> nat \<Rightarrow> int \<Rightarrow> (int \<Rightarrow> PartToken option) \<Rightarrow> int list \<Rightarrow>
   'r World \<Rightarrow> (goerr + PartToken list) \<times> 'r World" where
  "send_parts opt p up sess resumed f ps recorded [] w = (Inr [], w)"
| "send_parts opt p up sess resumed f ps recorded (i # is) w =
     (if ctx_over w (u_ID up) then (Inl ctx_error, w)
      else
        (case recorded i of
           Some t \<Rightarrow>
             (case send_parts opt p up sess resumed f ps recorded is w of
                (Inl e, w') \<Rightarrow> (Inl e, w')
              | (Inr ts, w') \<Rightarrow> (Inr (t # ts), w'))
         | None \<Rightarrow>
             (let (off, n) = part_range (u_Size up) ps i in
              case waitLimit up w of
                (Some e, w1) \<Rightarrow> (Inl e, w1)
              | (None, w1) \<Rightarrow>
                  (case u_Do opt up no_token (\<lambda>w. pv_UploadPart p sess i (section_of off n (blob_data f w)) n w) w1 of
                     (Inl e, w2) \<Rightarrow> (Inl (expired resumed e), w2)
                   | (Inr t, w2) \<Rightarrow>
                       (let w3 = succeeded (u_Remote up) w2;
                            (_, w4) = jcall (ctx_over w3 (u_ID up)) (\<lambda>env j. RecordPart env j (u_ID up)
                              \<lparr>p_Index = i, p_ETag = tk_ETag t, p_State = ''done''\<rparr>) w3 in
                        case send_parts opt p up sess resumed f ps recorded is w4 of
                          (Inl e, w') \<Rightarrow> (Inl e, w')
                        | (Inr ts, w') \<Rightarrow> (Inr (t # ts), w'))))))"

definition send_session ::
  "'r UOptions \<Rightarrow> 'r Provider \<Rightarrow> Upload \<Rightarrow> string \<Rightarrow> UploadSession \<Rightarrow> bool \<Rightarrow> 'r World \<Rightarrow> (goerr + Result) \<times> 'r World" where
  "send_session opt p up name sess resumed w =
     (case open_blob up w of
        Inl e \<Rightarrow> (Inl gone_err, w)
      | Inr f \<Rightarrow>
          (let ps = part_size p sess;
               (rec, w1) = jread (ctx_over w (u_ID up)) (\<lambda>env j. Parts env j (u_ID up)) w;
               recorded = (case rec of Inl e \<Rightarrow> (\<lambda>i. None) | Inr pts \<Rightarrow> done_parts pts) in
           case send_parts opt p up sess resumed f ps recorded (map int [0 ..< n_parts (u_Size up) ps]) w1 of
             (Inl e, w2) \<Rightarrow> (Inl e, w2)
           | (Inr parts, w2) \<Rightarrow>
               (case u_Do opt up no_entry (pv_CompleteUpload p sess parts) w2 of
                  (Inl e, w3) \<Rightarrow> (Inl (expired resumed e), w3)
                | (Inr entry, w3) \<Rightarrow> (Inr (result_of up name False entry), succeeded (u_Remote up) w3))))"

definition run_session ::
  "'r UOptions \<Rightarrow> 'r Provider \<Rightarrow> Upload \<Rightarrow> string \<Rightarrow> 'r World \<Rightarrow> (goerr + Result) \<times> 'r World" where
  "run_session opt p up name w =
     (case restoreSession (u_Session up) of
        Some sess \<Rightarrow> send_session opt p up name sess True w
      | None \<Rightarrow>
          (case begin_upload opt p up name w of
             (Inl e, w1) \<Rightarrow> (Inl e, w1)
           | (Inr sess, w1) \<Rightarrow>
               if us_RapidDone sess then
                 (Inr (result_of up name True (case us_Entry sess of None \<Rightarrow> no_entry | Some e \<Rightarrow> e)),
                  succeeded (u_Remote up) w1)
               else
                 (case jcall (ctx_over w1 (u_ID up))
                         (\<lambda>env j. SetSession env j (u_ID up) (persistSession sess)) w1 of
                    (Inl e, w2) \<Rightarrow> (Inl (journal_err (ctx_over w1 (u_ID up))), w2)
                  | (Inr _, w2) \<Rightarrow> send_session opt p up name sess False w2)))"

definition run_named ::
  "'r UOptions \<Rightarrow> 'r Provider \<Rightarrow> Upload \<Rightarrow> string \<Rightarrow> 'r World \<Rightarrow> (goerr + Result) \<times> 'r World" where
  "run_named opt p up name w =
     (case waitLimit up w of
        (Some e, w1) \<Rightarrow> (Inl e, w1)
      | (None, w1) \<Rightarrow>
          (case pv_PutFile p of
             Some put \<Rightarrow>
               if pv_SinglePutMax p > 0 \<and> u_Size up \<le> pv_SinglePutMax p \<and> restoreSession (u_Session up) = None
               then putWhole opt put up name w1
               else run_session opt p up name w1
           | None \<Rightarrow> run_session opt p up name w1))"

definition runOne ::
  "'r UOptions \<Rightarrow> 'r Provider \<Rightarrow> Upload \<Rightarrow> 'r World \<Rightarrow> ((goerr + Result) \<times> 'r World) option" where
  "runOne opt p up w =
     (case choose_name opt p up w of
        None \<Rightarrow> None
      | Some (name, w1) \<Rightarrow> Some (run_named opt p up name w1))"

section \<open>Registration and stops\<close>

text \<open>
  \<open>registerTransfer\<close>: whether the transfer may go ahead. The checks run on a context of their own, so
  that they work when the one of the worker has ended.
\<close>

definition registerTransfer :: "Upload \<Rightarrow> 'r World \<Rightarrow> bool \<times> 'r World" where
  "registerTransfer up w =
     (case jread False (\<lambda>env j. Get env j (u_ID up)) w of
        (Inl e, w1) \<Rightarrow> (False, w1)
      | (Inr row, w1) \<Rightarrow>
          if u_State row = StateCancelling then
            (False, snd (jcall False (\<lambda>env j. FinishCancel env j (u_ID up)) w1))
          else if u_State row \<noteq> StateUploading then (False, w1)
          else if w_stopped w1 then
            (False, snd (jcall False
               (\<lambda>env j. Defer env j (u_ID up) 0 ''worker cancelled before transfer registration'') w1))
          else if u_ID up \<in> w_transfers w1 then (False, w1)
          else (True, w1\<lparr>w_transfers := insert (u_ID up) (w_transfers w1), w_ended := w_ended w1 - {u_ID up}\<rparr>))"

definition release :: "Upload \<Rightarrow> 'r World \<Rightarrow> 'r World" where
  "release up w =
     (let (r, w1) = jread False (\<lambda>env j. Get env j (u_ID up)) (end_ctx (u_ID up) w);
          w2 = (case r of
                  Inl e \<Rightarrow> w1
                | Inr row \<Rightarrow>
                    if u_State row = StateCancelling then
                      snd (jcall False (\<lambda>env j. FinishCancel env j (u_ID up)) w1)
                    else if u_State row = StateUploading then
                      snd (jcall False
                        (\<lambda>env j. Defer env j (u_ID up) 0 ''worker ended before completing bookkeeping'') w1)
                    else w1) in
      w2\<lparr>w_transfers := w_transfers w2 - {u_ID up}\<rparr>)"

text \<open>\<open>Cancel\<close>, on a live context of its own.\<close>

definition Cancel :: "string \<Rightarrow> 'r World \<Rightarrow> (jerr + State) \<times> 'r World" where
  "Cancel uid w =
     (case jcall False (\<lambda>env j. RequestCancel env j uid) w of
        (Inl e, w1) \<Rightarrow> (Inl e, w1)
      | (Inr state, w1) \<Rightarrow>
          if uid \<in> w_transfers w1 then (Inr state, end_ctx uid w1)
          else if state = StateCancelling then
            (case jcall False (\<lambda>env j. FinishCancel env j uid) w1 of
               (Inl e, w2) \<Rightarrow> (Inl e, w2)
             | (Inr _, w2) \<Rightarrow> (Inr StateCancelled, w2))
          else (Inr state, w1))"

section \<open>Outcomes\<close>

text \<open>An operation of the journal on the context of the transfer whose error is dropped.\<close>

definition jdo :: "Upload \<Rightarrow> (env \<Rightarrow> Journal \<Rightarrow> 'a \<times> Journal) \<Rightarrow> 'r World \<Rightarrow> 'r World" where
  "jdo up f w = snd (jcall (ctx_over w (u_ID up)) f w)"

definition goneLocally :: "'r UOptions \<Rightarrow> Upload \<Rightarrow> 'r World \<Rightarrow> bool" where
  "goneLocally opt up w =
     (case hk_Exists (op_Hooks opt) of
        None \<Rightarrow> False
      | Some f \<Rightarrow> u_Ino up \<noteq> 0 \<and> \<not> f up w)"

definition dead :: "'r UOptions \<Rightarrow> Upload \<Rightarrow> goerr \<Rightarrow> 'r World \<Rightarrow> 'r World" where
  "dead opt up cause w =
     (case jcall (ctx_over w (u_ID up)) (\<lambda>env j. Fail env j (u_ID up) (Some (op_text opt cause))) w of
        (Inl e, w1) \<Rightarrow> w1
      | (Inr _, w1) \<Rightarrow> (case hk_OnDead (op_Hooks opt) of None \<Rightarrow> w1 | Some h \<Rightarrow> h up cause w1))"

fun mark_stale :: "Upload \<Rightarrow> Part list \<Rightarrow> 'r World \<Rightarrow> 'r World" where
  "mark_stale up [] w = w"
| "mark_stale up (pt # pts) w =
     mark_stale up pts (jdo up (\<lambda>env j. RecordPart env j (u_ID up)
       \<lparr>p_Index = p_Index pt, p_ETag = [], p_State = ''stale''\<rparr>) w)"

text \<open>The session and its parts are given up and the upload starts over at once.\<close>

definition restart :: "'r UOptions \<Rightarrow> Upload \<Rightarrow> goerr \<Rightarrow> 'r World \<Rightarrow> 'r World" where
  "restart opt up err w =
     (let w1 = jdo up (\<lambda>env j. SetSession env j (u_ID up) Map.empty) w;
          (r, w2) = jread (ctx_over w1 (u_ID up)) (\<lambda>env j. Parts env j (u_ID up)) w1;
          w3 = mark_stale up (case r of Inl e \<Rightarrow> [] | Inr pts \<Rightarrow> pts) w2 in
      jdo up (\<lambda>env j. RetryUpload env j (u_ID up) (Some (op_text opt err)) 0) w3)"

definition unavailableRetry :: duration where
  "unavailableRetry = 30 * Second"

definition give_up_err :: "Upload \<Rightarrow> goerr \<Rightarrow> goerr" where
  "give_up_err up err = wrap (''upload: giving up after '' @ FormatInt (u_Attempt up + 1) @ '' attempts'') [err]"

text \<open>The delay before the next attempt: risk control means at least half a minute.\<close>

definition retry_delay :: "'r UOptions \<Rightarrow> rat \<Rightarrow> Upload \<Rightarrow> goerr \<Rightarrow> duration" where
  "retry_delay opt r up err =
     (let d = Delay (op_Backoff opt) r (u_Attempt up) (RetryAfter (Some err)) in
      if Classify (Some err) = ClassRiskControl \<and> d < 30 * Second then 30 * Second else d)"

text \<open>What a failed transfer comes to.\<close>

definition settle_failure :: "'r UOptions \<Rightarrow> Upload \<Rightarrow> goerr \<Rightarrow> 'r World \<Rightarrow> 'r World" where
  "settle_failure opt up err w =
     (if err_is err ErrUnavailable then
        jdo up (\<lambda>env j. Defer env j (u_ID up) unavailableRetry (op_text opt err)) w
      else if err_is err ErrNotFound \<and> goneLocally opt up w then
        jdo up (\<lambda>env j. Drop env j (u_ID up)) w
      else
        (case Classify (Some err) of
           ClassCanceled \<Rightarrow> snd (jcall False (\<lambda>env j. Defer env j (u_ID up) 0 (op_text opt err)) w)
         | ClassQuota \<Rightarrow>
             if \<not> err_is err ErrRestartUpload then dead opt up err w
             else if u_Attempt up + 1 \<ge> op_MaxAttempts opt then dead opt up (give_up_err up err) w
             else restart opt up err w
         | c \<Rightarrow>
             if c \<in> {ClassRetryable, ClassAuth, ClassRiskControl, ClassLinkExpired} then
               if u_Attempt up + 1 \<ge> op_MaxAttempts opt then dead opt up (give_up_err up err) w
               else jdo up (\<lambda>env j. RetryUpload env j (u_ID up) (Some (op_text opt err))
                      (retry_delay opt (rnd (w_dos w (w_pos w)) 0) up err)) w
             else dead opt up err w))"

text \<open>What a finished transfer comes to: a stop or a local deletion that came first wins.\<close>

definition settle_success :: "'r UOptions \<Rightarrow> 'r Provider \<Rightarrow> Upload \<Rightarrow> Result \<Rightarrow> 'r World \<Rightarrow> 'r World" where
  "settle_success opt p up res w =
     (case jread False (\<lambda>env j. Get env j (u_ID up)) w of
        (Inl e, w1) \<Rightarrow> w1
      | (Inr row, w1) \<Rightarrow>
          if u_State row = StateCancelling \<or> u_State row = StateCancelled \<or> u_State row = StatePurging then w1
          else
            (let (r, w2) = jread (ctx_over w1 (u_ID up)) (\<lambda>env j. Get env j (u_ID up)) w1 in
             if \<not> isl r \<and> u_Tombstone (projr r) then
               (let (e, w3) = (if en_ID (rs_Entry res) \<noteq> [] then pv_Delete p (en_ID (rs_Entry res)) w2 else (Inr (), w2)) in
                case e of
                  Inl derr \<Rightarrow>
                    if \<not> err_is derr ErrNotFound then
                      jdo up (\<lambda>env j. RetryUpload env j (u_ID up)
                        (Some (op_text opt (wrap ''upload: removing tombstoned file'' [derr]))) Second) w3
                    else jdo up (\<lambda>env j. Drop env j (u_ID up)) w3
                | Inr _ \<Rightarrow> jdo up (\<lambda>env j. Drop env j (u_ID up)) w3)
             else
               (case hk_OnSuccess (op_Hooks opt) of
                  None \<Rightarrow> jdo up (\<lambda>env j. Succeed env j (u_ID up)) w2
                | Some h \<Rightarrow>
                    (case h up res w2 of
                       (Some herr, w3) \<Rightarrow> dead opt up (wrap ''upload: post-upload bookkeeping failed'' [herr]) w3
                     | (None, w3) \<Rightarrow> jdo up (\<lambda>env j. Succeed env j (u_ID up)) w3))))"

definition waiting_msg :: string where
  "waiting_msg = ''upload: waiting for an earlier version of this file''"

definition authorize :: "'r UOptions \<Rightarrow> Upload \<Rightarrow> 'r World \<Rightarrow> goerr option \<times> 'r World" where
  "authorize opt up w = (case hk_Authorize (op_Hooks opt) of None \<Rightarrow> (None, w) | Some h \<Rightarrow> h up w)"

text \<open>The body of \<open>process\<close> between registration and release.\<close>

definition transfer :: "'r UOptions \<Rightarrow> Upload \<Rightarrow> 'r World \<Rightarrow> 'r World option" where
  "transfer opt up w =
     (case authorize opt up w of
        (Some e, w1) \<Rightarrow> Some (dead opt up (wrap ''upload: local account binding rejected this task'' [e]) w1)
      | (None, w1) \<Rightarrow>
          (let (sup, w2) = jread (ctx_over w1 (u_ID up)) (\<lambda>env j. Superseded env j up) w1 in
           if sup = Inr True then Some (jdo up (\<lambda>env j. Succeed env j (u_ID up)) w2)
           else
             (let (busy, w3) = jread (ctx_over w2 (u_ID up)) (\<lambda>env j. OlderInFlight env j up) w2 in
              if busy = Inr True then Some (jdo up (\<lambda>env j. Defer env j (u_ID up) (20 * Millisecond) waiting_msg) w3)
              else
                (case op_Providers opt (u_Remote up) of
                   None \<Rightarrow> Some (dead opt up (wrap ''upload: no provider for remote'' []) w3)
                 | Some p \<Rightarrow>
                     (case runOne opt p up w3 of
                        None \<Rightarrow> None
                      | Some (Inl err, w4) \<Rightarrow>
                          Some (if err_is err ErrSessionExpired then restart opt up err w4
                                else settle_failure opt up err w4)
                      | Some (Inr res, w4) \<Rightarrow> Some (settle_success opt p up res w4))))))"

definition process :: "'r UOptions \<Rightarrow> Upload \<Rightarrow> 'r World \<Rightarrow> 'r World option" where
  "process opt up w =
     (case registerTransfer up w of
        (False, w1) \<Rightarrow> Some w1
      | (True, w1) \<Rightarrow> (case transfer opt up w1 of None \<Rightarrow> None | Some w2 \<Rightarrow> Some (release up w2)))"

section \<open>Draining\<close>

fun process_all :: "'r UOptions \<Rightarrow> Upload list \<Rightarrow> 'r World \<Rightarrow> 'r World option" where
  "process_all opt [] w = Some w"
| "process_all opt (up # ups) w =
     (case process opt up w of None \<Rightarrow> None | Some w1 \<Rightarrow> process_all opt ups w1)"

text \<open>The count and the error, if any.\<close>

definition drainOnce :: "'r UOptions \<Rightarrow> string \<Rightarrow> 'r World \<Rightarrow> (nat \<times> jerr option \<times> 'r World) option" where
  "drainOnce opt remote w =
     (case jcall (w_stopped w) (\<lambda>env j. Claim env j remote 1) w of
        (Inl e, w1) \<Rightarrow> Some (0, Some e, w1)
      | (Inr claimed, w1) \<Rightarrow>
          (case process_all opt claimed w1 of None \<Rightarrow> None | Some w2 \<Rightarrow> Some (length claimed, None, w2)))"

fun drain_remotes :: "'r UOptions \<Rightarrow> string list \<Rightarrow> nat \<Rightarrow> 'r World \<Rightarrow> (nat \<times> jerr option \<times> 'r World) option" where
  "drain_remotes opt [] cnt w = Some (cnt, None, w)"
| "drain_remotes opt (r # rs) cnt w =
     (case drainOnce opt r w of
        None \<Rightarrow> None
      | Some (n, Some e, w1) \<Rightarrow> Some (cnt, Some e, w1)
      | Some (n, None, w1) \<Rightarrow> drain_remotes opt rs (cnt + n) w1)"

text \<open>\<open>DrainAll\<close> goes round the remotes until a round does nothing; it need not end.\<close>

partial_function (option) DrainAll :: "'r UOptions \<Rightarrow> nat \<Rightarrow> 'r World \<Rightarrow> (nat \<times> jerr option \<times> 'r World) option" where
  "DrainAll opt cnt w =
     (case jread (w_stopped w) Remotes w of
        (Inl e, w1) \<Rightarrow> Some (cnt, Some e, w1)
      | (Inr remotes, w1) \<Rightarrow>
          (case drain_remotes opt remotes cnt w1 of
             None \<Rightarrow> None
           | Some (cnt', Some e, w2) \<Rightarrow> Some (cnt', Some e, w2)
           | Some (cnt', None, w2) \<Rightarrow> if cnt' = cnt then Some (cnt, None, w2) else DrainAll opt cnt' w2))"

text \<open>What \<open>Flush\<close> makes of the counters: wait on, or return with or without an error.\<close>

datatype flush_err = ErrDeadLetters nat | ErrCancelledUploads | ErrCleanupPending

definition flush_verdict :: "Stats \<Rightarrow> flush_err option option" where
  "flush_verdict st =
     (if st_Purging st > 0 then Some (Some ErrCleanupPending)
      else if st_Cancelled st > 0 \<or> st_Cancelling st > 0 then Some (Some ErrCancelledUploads)
      else if st_Pending st = 0 \<and> st_Uploading st = 0 then
        Some (if st_Dead st > 0 then Some (ErrDeadLetters (st_Dead st)) else None)
      else None)"

end
