(* ===== verification/UploaderProps.thy ===== *)
theory UploaderProps
  imports Uploader
begin

text \<open>
  What a worker achieves with one claim: its calls of the journal are steps of the journal, it always
  comes to an end, and no claim is stranded. A sample backend for the concrete instances.
\<close>

section \<open>Moves of the world\<close>

text \<open>
  A move changes the journal by steps with the given labels; it keeps the ownership of the queue
  and the environments to come.
\<close>

definition moves :: "label set \<Rightarrow> 'r World \<Rightarrow> 'r World \<Rightarrow> bool" where
  "moves L w w' \<longleftrightarrow>
     (\<exists>ls. set ls \<subseteq> L \<and> trace ls (w_j w) (w_j w')) \<and> owner (w_j w') = owner (w_j w) \<and> w_envs w' = w_envs w"

lemma trace_append:
  assumes "trace ls j j'" "trace ms j' j''"
  shows "trace (ls @ ms) j j''"
  using assms(2,1)
proof (induction rule: trace.induct)
  case (snoc ms j' j1 l j2)
  then have "trace ((ls @ ms) @ [l]) j j2" by (blast intro: trace.snoc)
  then show ?case by simp
qed simp

lemma moves_refl [simp]: "moves L w w"
  unfolding moves_def by (metis empty_subsetI list.set(1) trace.nil)

lemma moves_trans [trans]:
  assumes "moves L w w1" "moves L w1 w2"
  shows "moves L w w2"
proof -
  obtain ls ms where l: "set ls \<subseteq> L" "trace ls (w_j w) (w_j w1)" "set ms \<subseteq> L" "trace ms (w_j w1) (w_j w2)"
    using assms unfolding moves_def by blast
  then have "set (ls @ ms) \<subseteq> L \<and> trace (ls @ ms) (w_j w) (w_j w2)" by (simp add: trace_append)
  then show ?thesis using assms unfolding moves_def by metis
qed

lemma moves_same:
  "w_j w' = w_j w \<Longrightarrow> w_envs w' = w_envs w \<Longrightarrow> moves L w w'"
  unfolding moves_def by (metis empty_subsetI list.set(1) trace.nil)

text \<open>The labels of what the uploader itself does.\<close>

definition worker_labels :: "label set" where
  "worker_labels = {LNote, LSucceed, LRetry, LFail, LDrop, LStopped}"

lemma tx_owner [simp]: "owner (snd (tx env fn j)) = owner j"
  by (auto simp: tx_def split: sum.split)

lemma txf_owner [simp]: "owner (snd (txf env fn j)) = owner j"
  by (simp add: txf_def split: sum.split prod.split)

lemma removeBlob_owner [simp]: "owner (removeBlobIfUnreferenced env j blob) = owner j"
  by (simp add: removeBlobIfUnreferenced_def split: option.split prod.split)

lemma worker_owner [simp]:
  "owner (snd (FinishCancel env j uid)) = owner j" "owner (snd (Defer env j uid d msg)) = owner j"
  "owner (snd (Fail env j uid c)) = owner j" "owner (snd (RetryUpload env j uid c d)) = owner j"
  "owner (snd (SetSession env j uid m)) = owner j" "owner (snd (RecordPart env j uid p)) = owner j"
  "owner (snd (Drop env j uid)) = owner j" "owner (snd (Succeed env j uid)) = owner j"
  by (simp_all add: FinishCancel_def Defer_def Fail_def RetryUpload_def SetSession_def RecordPart_def Let_def)
    (simp_all add: Drop_def Succeed_def tx_def split: sum.split prod.split)

text \<open>
  What the worker relies on in the operations of the journal it calls: each is one call of the journal as a
  system, with a label of its own, and leaves the ownership of the queue alone.
\<close>

locale journal_op =
  fixes f :: "env \<Rightarrow> Journal \<Rightarrow> 'a \<times> Journal" and c :: call
  assumes run_op: "snd (f env j) = exec env c j"
    and keeps_owner: "owner (snd (f env j)) = owner j"
    and worker_op: "label_of c \<in> worker_labels"
begin

lemma jcall_moves:
  assumes "worker_labels \<subseteq> L"
  shows "moves L w (snd (jcall over f w))"
proof -
  let ?env = "if over then ended_env (w_envs w (w_pos w)) else w_envs w (w_pos w)"
  have "trace ([] @ [label_of c]) (w_j w) (exec ?env c (w_j w))" by (rule trace.snoc [OF trace.nil jstep.call])
  then have "\<exists>ls. set ls \<subseteq> L \<and> trace ls (w_j w) (snd (f ?env (w_j w)))"
    using assms run_op worker_op by (intro exI [of _ "[label_of c]"]) auto
  then show ?thesis using keeps_owner by (simp add: moves_def jcall_def Let_def case_prod_beta)
qed

end

interpretation finish_op: journal_op "\<lambda>env j. FinishCancel env j uid" "JFinishCancel uid" for uid
  by unfold_locales (simp_all add: worker_labels_def)

interpretation defer_op: journal_op "\<lambda>env j. Defer env j uid d msg" "JDefer uid d msg" for uid d msg
  by unfold_locales (simp_all add: worker_labels_def)

interpretation fail_op: journal_op "\<lambda>env j. Fail env j uid c" "JFail uid c" for uid c
  by unfold_locales (simp_all add: worker_labels_def)

interpretation retry_op: journal_op "\<lambda>env j. RetryUpload env j uid c d" "JRetry uid c d" for uid c d
  by unfold_locales (simp_all add: worker_labels_def)

interpretation session_op: journal_op "\<lambda>env j. SetSession env j uid m" "JSetSession uid m" for uid m
  by unfold_locales (simp_all add: worker_labels_def)

interpretation part_op: journal_op "\<lambda>env j. RecordPart env j uid p" "JRecordPart uid p" for uid p
  by unfold_locales (simp_all add: worker_labels_def)

interpretation drop_op: journal_op "\<lambda>env j. Drop env j uid" "JDrop uid" for uid
  by unfold_locales (simp_all add: worker_labels_def)

interpretation succeed_op: journal_op "\<lambda>env j. Succeed env j uid" "JSucceed uid" for uid
  by unfold_locales (simp_all add: worker_labels_def)

lemma jread_moves [simp]: "moves L w (snd (jread over f w))"
  by (rule moves_same) (simp_all add: jread_def jcall_def Let_def)

lemmas worker_moves = finish_op.jcall_moves defer_op.jcall_moves fail_op.jcall_moves retry_op.jcall_moves session_op.jcall_moves part_op.jcall_moves drop_op.jcall_moves succeed_op.jcall_moves

section \<open>Backends that only make moves\<close>

text \<open>
  What a backend, a hook, or anybody else meanwhile does to the journal is a sequence of its own
  operations, none of them a resume or a change of ownership.
\<close>

definition quiet_provider :: "label set \<Rightarrow> 'r Provider \<Rightarrow> bool" where
  "quiet_provider L p \<longleftrightarrow>
     (\<forall>d c w. moves L w (snd (pv_List p d c w))) \<and>
     (\<forall>d n sz h w. moves L w (snd (pv_BeginUpload p d n sz h w))) \<and>
     (\<forall>s i bs n w. moves L w (snd (pv_UploadPart p s i bs n w))) \<and>
     (\<forall>s ts w. moves L w (snd (pv_CompleteUpload p s ts w))) \<and>
     (\<forall>put d n bs sz h w. pv_PutFile p = Some put \<longrightarrow> moves L w (snd (put d n bs sz h w))) \<and>
     (\<forall>x w. moves L w (snd (pv_Delete p x w)))"

definition quiet :: "label set \<Rightarrow> 'r UOptions \<Rightarrow> bool" where
  "quiet L opt \<longleftrightarrow>
     worker_labels \<subseteq> L \<and>
     (\<forall>r p. op_Providers opt r = Some p \<longrightarrow> quiet_provider L p) \<and>
     (\<forall>h up w. hk_Authorize (op_Hooks opt) = Some h \<longrightarrow> moves L w (snd (h up w))) \<and>
     (\<forall>h up r w. hk_OnSuccess (op_Hooks opt) = Some h \<longrightarrow> moves L w (snd (h up r w))) \<and>
     (\<forall>h up e w. hk_OnDead (op_Hooks opt) = Some h \<longrightarrow> moves L w (h up e w))"

lemma on_limiter_moves [simp]: "moves L w (snd (on_limiter remote f d w))"
  by (rule moves_same) (simp_all add: on_limiter_def Let_def case_prod_beta split: option.split)

lemma small_moves [simp]:
  "moves L w (end_ctx uid w)" "moves L w (succeeded remote w)" "moves L w (throttled remote e w)"
  "moves L w (snd (waitLimit up w))" "moves L w (w\<lparr>w_pos := n\<rparr>)"
proof -
  have lim: "w_j (snd (on_limiter remote f d v)) = w_j v" "w_envs (snd (on_limiter remote f d v)) = w_envs v"
    for remote f d and v :: "'a World"
    by (simp_all add: on_limiter_def Let_def case_prod_beta split: option.split)
  have trip: "w_j (trip_breaker remote v) = w_j v" "w_envs (trip_breaker remote v) = w_envs v" for v :: "'a World"
    by (simp_all add: trip_breaker_def Let_def case_prod_beta split: option.split)
  show "moves L w (end_ctx uid w)" by (rule moves_same) (simp_all add: end_ctx_def)
  show "moves L w (succeeded remote w)" by (simp add: succeeded_def)
  show "moves L w (throttled remote e w)" by (rule moves_same) (simp_all add: throttled_def Let_def lim trip)
  show "moves L w (snd (waitLimit up w))"
    by (rule moves_same) (simp_all add: waitLimit_def Let_def case_prod_beta lim end_ctx_def)
  show "moves L w (w\<lparr>w_pos := n\<rparr>)" by (rule moves_same) simp_all
qed

lemma do_loop_moves:
  assumes "\<And>s. moves L (wof s) (wof (snd (fn s)))" "\<And>h e c d s. hook = Some h \<Longrightarrow> moves L (wof s) (wof (h e c d s))"
  shows "moves L (wof s) (wof (snd (do_loop p de fn hook attempt err s)))"
  using assms
proof (induction p de fn hook attempt err s rule: do_loop.induct)
  case (1 p de fn hook attempt err s)
  obtain e s1 where f: "fn s = (e, s1)" by fastforce
  have one: "moves L (wof s) (wof s1)" using "1.prems"(1) [of s] f by simp
  define d where "d = Delay (pBackoff p) (rnd de attempt) attempt (RetryAfter e)"
  define s2 where "s2 = (case hook of None \<Rightarrow> s1 | Some h \<Rightarrow> h e (Classify e) d s1)"
  have two: "moves L (wof s) (wof s2)"
    using one moves_trans [OF one "1.prems"(2)] by (cases hook) (simp_all add: s2_def)
  have "moves L (wof s) (wof (snd (do_loop p de fn hook (attempt + 1) e s2)))"
    if "attempt < MaxAttempts p" "Classify e = ClassRetryable" "attempt \<noteq> MaxAttempts p - 1" "ctx_ended de attempt = None"
  proof (rule moves_trans [OF two])
    show "moves L (wof s2) (wof (snd (do_loop p de fn hook (attempt + 1) e s2)))"
      by (rule "1.IH" [OF that(1) f [symmetric] refl refl _ that(3) d_def s2_def that(4)]) (use that(2) "1.prems" in auto)
  qed
  then show ?case
    using one two f
    by (subst do_loop.simps) (auto simp: Let_def d_def [symmetric] s2_def [symmetric] split: option.split)
qed

lemma u_Do_moves:
  assumes "\<And>w. moves L w (snd (m w))"
  shows "moves L w (snd (u_Do opt up z m w))"
proof -
  let ?fn = "\<lambda>(v, k, w). case m w of (Inl e, w') \<Rightarrow> (Some e, (v, k, w')) | (Inr a, w') \<Rightarrow> (None, (a, k, w'))"
  let ?hook = "Some (\<lambda>e c d (v, k, w). (v, Suc k, throttled (u_Remote up) e w))"
  let ?s = "(z, 0 :: nat, w\<lparr>w_pos := Suc (w_pos w)\<rparr>)"
  let ?wof = "\<lambda>s. snd (snd s)"
  obtain e v k w1 where d: "Do (op_Policy opt) (w_dos w (w_pos w)) ?fn ?hook ?s = (e, (v, k, w1))" by (rule prod_cases4)
  have "moves L (?wof ?s) (?wof (snd (Do (op_Policy opt) (w_dos w (w_pos w)) ?fn ?hook ?s)))"
    unfolding Do_def
  proof (rule do_loop_moves)
    fix s show "moves L (?wof s) (?wof (snd (?fn s)))"
      using assms [of "snd (snd s)"] by (cases s) (auto split: prod.split sum.split)
  qed auto
  then have "moves L w w1" unfolding d using moves_trans [OF small_moves(5)] by simp
  then have "moves L w (end_ctx (u_ID up) w1)" "moves L w w1" using moves_trans [OF _ small_moves(1)] by blast+
  then show ?thesis by (simp add: u_Do_def d split: option.split)
qed

lemma quiet_providerD:
  assumes "quiet_provider L p"
  shows "moves L w (snd (pv_List p d c w))" "moves L w (snd (pv_BeginUpload p d n sz h w))"
    "moves L w (snd (pv_UploadPart p s i bs k w))" "moves L w (snd (pv_CompleteUpload p s ts w))"
    "pv_PutFile p = Some put \<Longrightarrow> moves L w (snd (put d n bs sz h w))" "moves L w (snd (pv_Delete p x w))"
  using assms by (simp_all add: quiet_provider_def)

lemma after_move: "moves L w (snd r) \<Longrightarrow> r = (a, w1) \<Longrightarrow> moves L w1 w2 \<Longrightarrow> moves L w w2"
  using moves_trans by fastforce

lemma send_parts_moves:
  assumes "quiet_provider L p" "worker_labels \<subseteq> L"
  shows "moves L w (snd (send_parts opt p up sess resumed f ps recorded is w))"
proof (induction "is" arbitrary: w)
  case (Cons i "is")
  obtain off n where o: "part_range (u_Size up) ps i = (off, n)" by fastforce
  let ?m = "\<lambda>w. pv_UploadPart p sess i (section_of off n (blob_data f w)) n w"
  obtain e w1 where l: "waitLimit up w = (e, w1)" by fastforce
  obtain r w2 where d: "u_Do opt up no_token ?m w1 = (r, w2)" by fastforce
  have w1: "moves L w w1" using small_moves(4) [of L w up] l by simp
  have "moves L w1 (snd (u_Do opt up no_token ?m w1))" by (rule u_Do_moves) (rule quiet_providerD(3) [OF assms(1)])
  then have w2: "moves L w w2" using moves_trans [OF w1] d by simp
  have w3: "moves L w (snd (jcall over (\<lambda>env j. RecordPart env j (u_ID up) q) (succeeded (u_Remote up) w2)))" for over q
    using moves_trans [OF moves_trans [OF w2 small_moves(2)] worker_moves(6) [OF assms(2)]] by blast
  have w4: "moves L w (snd (send_parts opt p up sess resumed f ps recorded is
      (snd (jcall over (\<lambda>env j. RecordPart env j (u_ID up) q) (succeeded (u_Remote up) w2)))))" for over q
    using moves_trans [OF w3 Cons.IH] by blast
  show ?case
    using w1 w2 w4 Cons.IH [of w]
    by (cases e; cases r) (auto simp: l d o Let_def case_prod_beta split: option.split sum.split)
qed simp

lemma send_session_moves:
  assumes "quiet_provider L p" "worker_labels \<subseteq> L"
  shows "moves L w (snd (send_session opt p up name sess resumed w))"
proof -
  define ps where "ps = part_size p sess"
  obtain rc w1 where j: "jread (ctx_over w (u_ID up)) (\<lambda>env j. Parts env j (u_ID up)) w = (rc, w1)" by fastforce
  define recorded where "recorded = (case rc of Inl e \<Rightarrow> (\<lambda>i. None) | Inr pts \<Rightarrow> done_parts pts)"
  have w1: "moves L w w1" using jread_moves [of L w] j by (metis snd_conv)
  have "moves L w (snd (send_parts opt p up sess resumed f ps recorded is w1))" for f "is"
    using moves_trans [OF w1 send_parts_moves [OF assms]] by blast
  moreover have "moves L w2 (snd (u_Do opt up no_entry (pv_CompleteUpload p sess parts) w2))" for parts w2
    by (rule u_Do_moves) (rule quiet_providerD(4) [OF assms(1)])
  ultimately show ?thesis
    unfolding send_session_def
    by (auto simp: j recorded_def [symmetric] ps_def [symmetric] Let_def split: sum.split prod.split)
      (metis moves_trans snd_conv small_moves(2))+
qed

lemma run_named_moves:
  assumes "quiet_provider L p" "worker_labels \<subseteq> L"
  shows "moves L w (snd (run_named opt p up name w))"
proof -
  have beg: "moves L v (snd (begin_upload opt p up name v))" for v
    by (auto simp: begin_upload_def u_Do_moves quiet_providerD [OF assms(1)] split: sum.split)
  have sess: "moves L v (snd (run_session opt p up name v))" for v
  proof (cases "restoreSession (u_Session up)")
    case None
    obtain r v1 where b: "begin_upload opt p up name v = (r, v1)" by fastforce
    have v1: "moves L v v1" using beg [of v] b by simp
    obtain q v2 where c: "jcall (ctx_over v1 (u_ID up))
        (\<lambda>env j. SetSession env j (u_ID up) (persistSession (projr r))) v1 = (q, v2)" by fastforce
    have v2: "moves L v v2" using moves_trans [OF v1 worker_moves(5) [OF assms(2)]] c by (metis snd_conv)
    show ?thesis
      using v1 v2 moves_trans [OF v1 small_moves(2)] moves_trans [OF v2 send_session_moves [OF assms]] c
      by (cases r; cases q) (simp_all add: run_session_def None b)
  qed (simp add: run_session_def send_session_moves [OF assms])
  have put: "moves L v (snd (putWhole opt put up name v))" if "pv_PutFile p = Some put" for put v
  proof (cases "open_blob up v")
    case (Inr f)
    let ?m = "\<lambda>w. put (u_RemoteParentID up) name (section_of 0 (u_Size up) (blob_data f w)) (u_Size up) (u_Hashes up) w"
    obtain r v1 where d: "u_Do opt up no_entry ?m v = (r, v1)" by fastforce
    have "moves L v (snd (u_Do opt up no_entry ?m v))" by (rule u_Do_moves) (rule quiet_providerD(5) [OF assms(1) that])
    then have v1: "moves L v v1" using d by simp
    then show ?thesis using moves_trans [OF v1 small_moves(2)] by (cases r) (simp_all add: putWhole_def Inr d)
  qed (simp add: putWhole_def)
  obtain e w1 where l: "waitLimit up w = (e, w1)" by fastforce
  have w1: "moves L w w1" using small_moves(4) [of L w up] l by simp
  show ?thesis
    using w1 moves_trans [OF w1 sess] moves_trans [OF w1 put]
    by (cases e) (auto simp: run_named_def l split: option.split)
qed

lemma list_pages_moves:
  assumes "list_pages p up expd cursor w = Some y" "quiet_provider L p"
  shows "moves L w (snd y)"
proof -
  have "quiet_provider L p \<longrightarrow> moves L w (snd y)"
  proof (rule list_pages.raw_induct [where P = "\<lambda>p up e c w y. quiet_provider L p \<longrightarrow> moves L w (snd y)", OF _ assms(1)])
    fix rc p up expd cursor and w :: "'a World" and y
    assume IH: "\<And>p up e c w y. rc p up e c w = Some y \<Longrightarrow> quiet_provider L p \<longrightarrow> moves L w (snd y)"
      and run: "(case pv_List p (u_RemoteParentID up) cursor w of (Inl e, w1) \<Rightarrow> Some (Inl e, w1)
        | (Inr (entries, nxt), w1) \<Rightarrow> (case find (\<lambda>e. en_Name e = u_Name up) entries of
            None \<Rightarrow> if nxt = [] then Some (Inr False, w1) else rc p up expd nxt w1
          | Some e \<Rightarrow> Some (Inr (en_Version e \<noteq> [] \<and> en_Version e \<noteq> expd), w1))) = Some y"
    show "quiet_provider L p \<longrightarrow> moves L w (snd y)"
    proof
      assume q: "quiet_provider L p"
      obtain r w1 where l: "pv_List p (u_RemoteParentID up) cursor w = (r, w1)" by fastforce
      have w1: "moves L w w1" using quiet_providerD(1) [OF q, of w "u_RemoteParentID up" cursor] l by simp
      have "snd y = w1 \<or> (\<exists>nxt. rc p up expd nxt w1 = Some y)"
        using run l by (auto split: sum.splits option.splits if_splits)
      then show "moves L w (snd y)" using w1 IH q moves_trans [OF w1] by metis
    qed
  qed
  then show ?thesis using assms(2) by blast
qed

text \<open>Listings whose cursors run out.\<close>

definition listing_ends :: "'r Provider \<Rightarrow> bool" where
  "listing_ends p \<longleftrightarrow>
     (\<exists>m :: string \<Rightarrow> nat. \<forall>d c w es nxt w'. pv_List p d c w = (Inr (es, nxt), w') \<and> nxt \<noteq> [] \<longrightarrow> m nxt < m c)"

lemma list_pages_ends:
  assumes "listing_ends p"
  shows "\<exists>y. list_pages p up expd cursor w = Some y"
proof -
  obtain m :: "string \<Rightarrow> nat" where m: "\<And>d c w es nxt w'. pv_List p d c w = (Inr (es, nxt), w') \<Longrightarrow> nxt \<noteq> [] \<Longrightarrow> m nxt < m c"
    using assms unfolding listing_ends_def by blast
  show ?thesis
  proof (induction "m cursor" arbitrary: cursor w rule: less_induct)
    case less
    obtain r w1 where l: "pv_List p (u_RemoteParentID up) cursor w = (r, w1)" by fastforce
    then show ?case
      using less m [of "u_RemoteParentID up" cursor w]
      by (subst list_pages.simps) (auto simp: l split: sum.split option.split)
  qed
qed

lemma runOne_moves:
  assumes "quiet_provider L p" "worker_labels \<subseteq> L" "runOne opt p up w = Some y"
  shows "moves L w (snd y)"
proof -
  obtain name w1 where c: "choose_name opt p up w = Some (name, w1)" "y = run_named opt p up name w1"
    using assms(3) by (auto simp: runOne_def split: option.splits)
  have "w1 = w \<or> (\<exists>r. remoteChanged opt p up w = Some (r, w1))"
    using c(1) by (auto simp: choose_name_def split: if_splits option.splits sum.splits bool.splits)
  then have "moves L w w1" using list_pages_moves [OF _ assms(1)] unfolding remoteChanged_def by (metis moves_refl snd_conv)
  then show ?thesis using moves_trans [OF _ run_named_moves [OF assms(1,2)]] c(2) by blast
qed

lemma runOne_ends: "listing_ends p \<Longrightarrow> \<exists>y. runOne opt p up w = Some y"
  using list_pages_ends [of p up "expected_version opt up w" "[]" w]
  by (auto simp: runOne_def choose_name_def remoteChanged_def split: sum.split bool.split)

section \<open>Settling\<close>

lemma jdo_moves:
  assumes "worker_labels \<subseteq> L"
  shows "moves L w (jdo up (\<lambda>env j. Defer env j uid d msg) w)" "moves L w (jdo up (\<lambda>env j. RetryUpload env j uid c d) w)"
    "moves L w (jdo up (\<lambda>env j. SetSession env j uid m) w)" "moves L w (jdo up (\<lambda>env j. RecordPart env j uid p) w)"
    "moves L w (jdo up (\<lambda>env j. Drop env j uid) w)" "moves L w (jdo up (\<lambda>env j. Succeed env j uid) w)"
  unfolding jdo_def by (rule worker_moves [OF assms])+

lemma quietD:
  assumes "quiet L opt"
  shows "worker_labels \<subseteq> L" "op_Providers opt r = Some p \<Longrightarrow> quiet_provider L p"
    "moves L w (snd (authorize opt up w))" "hk_OnSuccess (op_Hooks opt) = Some h \<Longrightarrow> moves L w (snd (h up res w))"
    "hk_OnDead (op_Hooks opt) = Some g \<Longrightarrow> moves L w (g up e w)"
  using assms by (simp_all add: quiet_def authorize_def split: option.split)

lemma dead_moves: "quiet L opt \<Longrightarrow> moves L w (dead opt up cause w)"
proof -
  assume q: "quiet L opt"
  obtain r w1 where c: "jcall (ctx_over w (u_ID up)) (\<lambda>env j. Fail env j (u_ID up) (Some (op_text opt cause))) w = (r, w1)" by fastforce
  have w1: "moves L w w1" using worker_moves(3) [OF quietD(1) [OF q]] c by (metis snd_conv)
  then show ?thesis using moves_trans [OF w1 quietD(5) [OF q]] by (cases r) (auto simp: dead_def c split: option.split)
qed

lemma mark_stale_moves: "worker_labels \<subseteq> L \<Longrightarrow> moves L w (mark_stale up pts w)"
proof (induction pts arbitrary: w)
  case (Cons pt pts)
  show ?case unfolding mark_stale.simps by (rule moves_trans [OF jdo_moves(4) [OF Cons.prems] Cons.IH [OF Cons.prems]])
qed simp

lemma restart_moves:
  assumes "worker_labels \<subseteq> L"
  shows "moves L w (restart opt up err w)"
proof -
  define w1 where "w1 = jdo up (\<lambda>env j. SetSession env j (u_ID up) Map.empty) w"
  obtain r w2 where p: "jread (ctx_over w1 (u_ID up)) (\<lambda>env j. Parts env j (u_ID up)) w1 = (r, w2)" by fastforce
  have "moves L w w1" unfolding w1_def by (rule jdo_moves [OF assms])
  also have "moves L w1 w2" using jread_moves [of L w1] p by (metis snd_conv)
  also have "moves L w2 (mark_stale up (case r of Inl e \<Rightarrow> [] | Inr pts \<Rightarrow> pts) w2)" by (rule mark_stale_moves [OF assms])
  also have "moves L \<dots> (restart opt up err w)"
    unfolding restart_def Let_def w1_def [symmetric] p prod.case by (rule jdo_moves [OF assms])
  finally show ?thesis .
qed

lemma settle_failure_moves: "quiet L opt \<Longrightarrow> moves L w (settle_failure opt up err w)"
  unfolding settle_failure_def
  using dead_moves [of L opt w up] restart_moves [of L w opt up] jdo_moves [of L w up] worker_moves(2) [of L w False "u_ID up"]
    quietD(1) [of L opt]
  by (simp split: Class.split)

lemma settle_success_moves:
  assumes "quiet L opt" "quiet_provider L p"
  shows "moves L w (settle_success opt p up res w)"
proof -
  note l = quietD(1) [OF assms(1)]
  obtain r w1 where g: "jread False (\<lambda>env j. Get env j (u_ID up)) w = (r, w1)" by fastforce
  obtain q w2 where g2: "jread (ctx_over w1 (u_ID up)) (\<lambda>env j. Get env j (u_ID up)) w1 = (q, w2)" by fastforce
  have w1: "moves L w w1" using jread_moves [of L w] g by (metis snd_conv)
  have w2: "moves L w w2" using moves_trans [OF w1 jread_moves] g2 by (metis snd_conv)
  obtain e w3 where d: "(if en_ID (rs_Entry res) \<noteq> [] then pv_Delete p (en_ID (rs_Entry res)) w2 else (Inr (), w2)) = (e, w3)" by fastforce
  have w3: "moves L w w3"
    using d w2 moves_trans [OF w2 quiet_providerD(6) [OF assms(2)]] by (metis snd_conv)
  have h: "moves L w (snd (h up res w2))" if "hk_OnSuccess (op_Hooks opt) = Some h" for h
    using moves_trans [OF w2 quietD(4) [OF assms(1) that]] .
  show ?thesis
    unfolding settle_success_def
    using w1 w2 moves_trans [OF w3 jdo_moves(2) [OF l]] moves_trans [OF w3 jdo_moves(5) [OF l]]
      moves_trans [OF w2 jdo_moves(6) [OF l]] moves_trans [OF h dead_moves [OF assms(1)]] moves_trans [OF h jdo_moves(6) [OF l]]
    by (auto simp: g g2 d Let_def split: sum.split option.split prod.split) (metis snd_conv)+
qed

lemma transfer_moves:
  assumes "quiet L opt" "transfer opt up w = Some w'"
  shows "moves L w w'"
proof -
  note l = quietD(1) [OF assms(1)]
  obtain a w1 where a: "authorize opt up w = (a, w1)" by fastforce
  obtain sup w2 where b: "jread (ctx_over w1 (u_ID up)) (\<lambda>env j. Superseded env j up) w1 = (sup, w2)" by fastforce
  obtain busy w3 where c: "jread (ctx_over w2 (u_ID up)) (\<lambda>env j. OlderInFlight env j up) w2 = (busy, w3)" by fastforce
  have w1: "moves L w w1" using quietD(3) [OF assms(1)] a by (metis snd_conv)
  have w2: "moves L w w2" using moves_trans [OF w1 jread_moves] b by (metis snd_conv)
  have w3: "moves L w w3" using moves_trans [OF w2 jread_moves] c by (metis snd_conv)
  consider e where "w' = dead opt up e w1" | "w' = jdo up (\<lambda>env j. Succeed env j (u_ID up)) w2"
    | "w' = jdo up (\<lambda>env j. Defer env j (u_ID up) (20 * Millisecond) waiting_msg) w3"
    | e where "w' = dead opt up e w3"
    | p err w4 where "op_Providers opt (u_Remote up) = Some p" "runOne opt p up w3 = Some (Inl err, w4)"
        "w' = restart opt up err w4 \<or> w' = settle_failure opt up err w4"
    | p res w4 where "op_Providers opt (u_Remote up) = Some p" "runOne opt p up w3 = Some (Inr res, w4)"
        "w' = settle_success opt p up res w4"
    using assms(2) by (auto simp: transfer_def a b c split: option.splits sum.splits if_splits)
  then show ?thesis
  proof cases
    case (5 p err w4)
    have "moves L w w4" using moves_trans [OF w3 runOne_moves [OF quietD(2) [OF assms(1) 5(1)] l 5(2)]] by simp
    then show ?thesis
      using 5(3) moves_trans [OF _ restart_moves [OF l]] moves_trans [OF _ settle_failure_moves [OF assms(1)]] by blast
  next
    case (6 p res w4)
    note q = quietD(2) [OF assms(1) 6(1)]
    have "moves L w w4" using moves_trans [OF w3 runOne_moves [OF q l 6(2)]] by simp
    then show ?thesis using 6(3) moves_trans [OF _ settle_success_moves [OF assms(1) q]] by blast
  qed (use moves_trans [OF w1 dead_moves [OF assms(1)]] moves_trans [OF w3 dead_moves [OF assms(1)]]
      moves_trans [OF w2 jdo_moves(6) [OF l]] moves_trans [OF w3 jdo_moves(1) [OF l]] in blast)+
qed

lemma transfer_ends:
  assumes "\<And>p. op_Providers opt (u_Remote up) = Some p \<Longrightarrow> listing_ends p"
  shows "\<exists>w'. transfer opt up w = Some w'"
proof (cases "op_Providers opt (u_Remote up)")
  case (Some p)
  then have "\<exists>y. runOne opt p up v = Some y" for v using assms runOne_ends by blast
  then have "runOne opt p up v \<noteq> None" for v by (metis option.distinct(1))
  then show ?thesis
    using Some by (auto simp: transfer_def Let_def simp del: not_None_eq split: option.split sum.split prod.split)
qed (auto simp: transfer_def Let_def split: option.split prod.split)

lemma release_moves:
  assumes "worker_labels \<subseteq> L"
  shows "moves L w (release up w)"
proof -
  obtain r w1 where g: "jread False (\<lambda>env j. Get env j (u_ID up)) (end_ctx (u_ID up) w) = (r, w1)" by fastforce
  have w1: "moves L w w1" using moves_trans [OF small_moves(1) jread_moves] g by (metis snd_conv)
  have drop: "moves L w (v\<lparr>w_transfers := T\<rparr>)" if "moves L w v" for v T
    by (rule moves_trans [OF that]) (rule moves_same, simp_all)
  show ?thesis
    unfolding release_def Let_def g prod.case
    using w1 moves_trans [OF w1 worker_moves(1) [OF assms]] moves_trans [OF w1 worker_moves(2) [OF assms]]
    by (intro drop) (simp split: sum.split)
qed

lemma registerTransfer_moves:
  assumes "worker_labels \<subseteq> L"
  shows "moves L w (snd (registerTransfer up w))"
proof -
  obtain r w1 where g: "jread False (\<lambda>env j. Get env j (u_ID up)) w = (r, w1)" by fastforce
  have w1: "moves L w w1" using jread_moves [of L w] g by (metis snd_conv)
  have reg: "moves L w (w1\<lparr>w_transfers := T, w_ended := E\<rparr>)" for T E
    by (rule moves_trans [OF w1]) (rule moves_same, simp_all)
  show ?thesis
    using w1 reg moves_trans [OF w1 worker_moves(1) [OF assms]] moves_trans [OF w1 worker_moves(2) [OF assms]]
    by (simp add: registerTransfer_def g split: sum.split)
qed

lemma process_moves:
  assumes "quiet L opt" "process opt up w = Some w'"
  shows "moves L w w'"
proof -
  note l = quietD(1) [OF assms(1)]
  obtain b w1 where r: "registerTransfer up w = (b, w1)" by fastforce
  have w1: "moves L w w1" using registerTransfer_moves [OF l, of w up] r by simp
  show ?thesis
  proof (cases b)
    case True
    then obtain w2 where t: "transfer opt up w1 = Some w2" "w' = release up w2"
      using assms(2) r by (auto simp: process_def split: option.splits)
    show ?thesis
      using moves_trans [OF moves_trans [OF w1 transfer_moves [OF assms(1) t(1)]] release_moves [OF l]] t(2) by simp
  qed (use assms(2) r w1 in \<open>simp add: process_def\<close>)
qed

section \<open>No claim is stranded\<close>

lemma jcall_calm: "jcall False f w = (fst (f (w_envs w (w_pos w)) (w_j w)), w\<lparr>w_j := snd (f (w_envs w (w_pos w)) (w_j w)), w_pos := Suc (w_pos w)\<rparr>)"
  by (simp add: jcall_def Let_def case_prod_beta)

lemma Get_calm: "dbf env 0 = DBOk \<Longrightarrow> Get env j uid = (case row_of (jdb j) uid of None \<Rightarrow> Inl JErrNotFound | Some r \<Rightarrow> Inr (scanUpload r))"
  by (simp add: Get_def dbq_def)

lemma FinishCancel_done:
  assumes "dbf env 0 = DBOk" "owner j" "row_of (jdb j) uid = Some q" "r_state q = StateCancelling"
    and "row_of (jdb (snd (FinishCancel env j uid))) uid = Some r"
  shows "r_state r = StateCancelled"
proof -
  have "row_of (jdb (snd (FinishCancel env j uid))) uid =
      map_option (\<lambda>r. if r_id r = uid \<and> r_state r = StateCancelling then r\<lparr>r_state := StateCancelled\<rparr> else r) (row_of (jdb j) uid)"
    using assms(1,2) by (simp add: FinishCancel_def tx_calm row_of_def sel_one_upd_where)
  then have "r = q\<lparr>r_state := StateCancelled\<rparr>" using assms(3-5) row_of_SomeD [OF assms(3)] by simp
  then show ?thesis by simp
qed

lemma Defer_done:
  assumes "dbf env 0 = DBOk" "row_of (jdb j) uid = Some q" "r_state q = StateUploading"
  shows "row_of (jdb (snd (Defer env j uid d msg))) uid = Some r \<Longrightarrow> r_state r = StatePending"
  using assms
  by (auto simp: Defer_def tx_calm guardNotCancelled_def uploadMutationState_def row_of_upd_id)

text \<open>What both ends of a registration do with a row that is running or stopping.\<close>

lemma acknowledge:
  assumes "\<And>n k. dbf (w_envs w n) k = DBOk" "owner (w_j w)"
    and "jread False (\<lambda>env j. Get env j uid) w = (r, w1)"
  shows "w_j w1 = w_j w" "w_envs w1 = w_envs w" "w_transfers w1 = w_transfers w"
    and "r = (case row_of (jdb (w_j w)) uid of None \<Rightarrow> Inl JErrNotFound | Some q \<Rightarrow> Inr (scanUpload q))"
    and "r = Inr row \<Longrightarrow> u_State row = StateCancelling \<Longrightarrow>
      row_of (jdb (w_j (snd (jcall False (\<lambda>env j. FinishCancel env j uid) w1)))) uid = Some x \<Longrightarrow>
      r_state x \<notin> {StateUploading, StateCancelling}"
    and "r = Inr row \<Longrightarrow> u_State row = StateUploading \<Longrightarrow>
      row_of (jdb (w_j (snd (jcall False (\<lambda>env j. Defer env j uid d msg) w1)))) uid = Some x \<Longrightarrow>
      r_state x \<notin> {StateUploading, StateCancelling}"
proof -
  show w1: "w_j w1 = w_j w" "w_envs w1 = w_envs w" "w_transfers w1 = w_transfers w"
    using assms(3) by (auto simp: jread_def jcall_calm)
  show r: "r = (case row_of (jdb (w_j w)) uid of None \<Rightarrow> Inl JErrNotFound | Some q \<Rightarrow> Inr (scanUpload q))"
    using assms(1,3) by (auto simp: jread_def jcall_calm Get_calm)
  have row: "\<exists>q. row_of (jdb (w_j w)) uid = Some q \<and> row = scanUpload q" if "r = Inr row" for row
    using that r by (auto split: option.splits)
  show "r_state x \<notin> {StateUploading, StateCancelling}" if "r = Inr row" "u_State row = StateCancelling"
      "row_of (jdb (w_j (snd (jcall False (\<lambda>env j. FinishCancel env j uid) w1)))) uid = Some x"
    using row [OF that(1)] that(2,3) FinishCancel_done [of "w_envs w (w_pos w1)" "w_j w" uid _ x] assms(1,2)
    by (auto simp: jcall_calm w1)
  show "r_state x \<notin> {StateUploading, StateCancelling}" if "r = Inr row" "u_State row = StateUploading"
      "row_of (jdb (w_j (snd (jcall False (\<lambda>env j. Defer env j uid d msg) w1)))) uid = Some x"
    using row [OF that(1)] that(2,3) Defer_done [of "w_envs w (w_pos w1)" "w_j w" uid _ d msg x] assms(1)
    by (auto simp: jcall_calm w1)
qed

lemma release_done:
  assumes "\<And>n k. dbf (w_envs w n) k = DBOk" "owner (w_j w)"
    and "row_of (jdb (w_j (release up w))) (u_ID up) = Some x"
  shows "r_state x \<notin> {StateUploading, StateCancelling}"
proof -
  let ?w = "end_ctx (u_ID up) w"
  obtain r w1 where g: "jread False (\<lambda>env j. Get env j (u_ID up)) ?w = (r, w1)" by fastforce
  have e: "\<And>n k. dbf (w_envs ?w n) k = DBOk" "owner (w_j ?w)" and ew: "w_j ?w = w_j w" using assms(1,2) by (simp_all add: end_ctx_def)
  note a = acknowledge [OF e g]
  show ?thesis
  proof (cases r)
    case (Inl err)
    then have "row_of (jdb (w_j w)) (u_ID up) = None" using a(4) by (auto simp: ew split: option.splits)
    then show ?thesis using assms(3) Inl a(1) by (simp add: release_def g ew)
  next
    case (Inr row)
    have "x = q" if "u_State row \<notin> {StateCancelling, StateUploading}" "row_of (jdb (w_j w)) (u_ID up) = Some q" for q
      using assms(3) that a(1) Inr by (simp add: release_def g ew)
    moreover have "\<exists>q. row_of (jdb (w_j w)) (u_ID up) = Some q \<and> row = scanUpload q"
      using a(4) Inr by (auto simp: ew split: option.splits)
    moreover have "r_state x \<notin> {StateUploading, StateCancelling}" if "u_State row = StateCancelling"
      using a(5) [OF Inr that] assms(3) that Inr by (simp add: release_def g Let_def)
    moreover have "r_state x \<notin> {StateUploading, StateCancelling}" if "u_State row = StateUploading"
      using a(6) [OF Inr that] assms(3) that Inr by (simp add: release_def g Let_def)
    ultimately show ?thesis by (cases "u_State row \<in> {StateCancelling, StateUploading}") auto
  qed
qed

lemma register_done:
  assumes "\<And>n k. dbf (w_envs w n) k = DBOk" "owner (w_j w)" "u_ID up \<notin> w_transfers w"
    and "registerTransfer up w = (False, w1)" "row_of (jdb (w_j w1)) (u_ID up) = Some x"
  shows "r_state x \<notin> {StateUploading, StateCancelling}"
proof -
  obtain r v where g: "jread False (\<lambda>env j. Get env j (u_ID up)) w = (r, v)" by fastforce
  note a = acknowledge [OF assms(1,2) g]
  show ?thesis
  proof (cases r)
    case (Inl e)
    then show ?thesis using assms(4,5) a(1,4) by (auto simp: registerTransfer_def g split: option.splits)
  next
    case (Inr row)
    then obtain q where q: "row_of (jdb (w_j w)) (u_ID up) = Some q" "row = scanUpload q" using a(4) by (auto split: option.splits)
    consider "u_State row = StateCancelling" | "u_State row \<notin> {StateCancelling, StateUploading}"
      | "u_State row = StateUploading" "w_stopped v" | "u_State row = StateUploading" "\<not> w_stopped v" by auto
    then show ?thesis
    proof cases
      case 1
      then show ?thesis using a(5) [OF Inr 1] assms(4,5) Inr by (auto simp: registerTransfer_def g)
    next
      case 2
      then show ?thesis using assms(4,5) Inr a(1) q by (auto simp: registerTransfer_def g)
    next
      case 3
      then show ?thesis using a(6) [OF Inr 3(1)] assms(4,5) Inr by (auto simp: registerTransfer_def g)
    next
      case 4
      then show ?thesis using assms(3,4) Inr a(3) by (auto simp: registerTransfer_def g)
    qed
  qed
qed

lemma register_transfers:
  "registerTransfer up w = (False, w1) \<Longrightarrow> w_transfers w1 = w_transfers w"
  by (auto simp: registerTransfer_def jread_def jcall_calm split: sum.splits if_splits)

text \<open>
  C3. A worker never strands a claim and always acknowledges a stop. Whatever the backend, the hooks
  and everybody else do to the journal meanwhile, and whenever the context ends: once \<open>process\<close>
  returns, and it does if listings end, the upload is neither running nor stopping any more and its
  registration is gone. All it did to the journal are steps of the journal, so a stop that was
  accepted before is still in force.
\<close>

theorem process_settles:
  assumes "quiet L opt" and "\<And>p. op_Providers opt (u_Remote up) = Some p \<Longrightarrow> listing_ends p"
    and "\<And>n k. dbf (w_envs w n) k = DBOk" and "owner (w_j w)" and "u_ID up \<notin> w_transfers w"
  shows "\<exists>w'. process opt up w = Some w' \<and> u_ID up \<notin> w_transfers w' \<and>
    (\<forall>r. row_of (jdb (w_j w')) (u_ID up) = Some r \<longrightarrow> r_state r \<notin> {StateUploading, StateCancelling}) \<and>
    (\<exists>ls. set ls \<subseteq> L \<and> trace ls (w_j w) (w_j w')) \<and>
    (db_inv (jdb (w_j w)) \<and> LResume \<notin> L \<and> held (phase_of (jdb (w_j w)) x) \<longrightarrow> held (phase_of (jdb (w_j w')) x))"
proof -
  obtain b w1 where r: "registerTransfer up w = (b, w1)" by fastforce
  obtain w2 where t: "transfer opt up w1 = Some w2" using transfer_ends [OF assms(2)] by blast
  define w' where "w' = (if b then release up w2 else w1)"
  have p: "process opt up w = Some w'" by (simp add: process_def r t w'_def split: bool.split)
  have m: "moves L w w'" using process_moves [OF assms(1) p] .
  then obtain ls where ls: "set ls \<subseteq> L" "trace ls (w_j w) (w_j w')" unfolding moves_def by blast
  have "moves L w w1" using registerTransfer_moves [OF quietD(1) [OF assms(1)], of w up] r by simp
  then have "moves L w w2" using moves_trans transfer_moves [OF assms(1) t] by blast
  then have e: "\<And>n k. dbf (w_envs w2 n) k = DBOk" "owner (w_j w2)" using assms(3,4) by (simp_all add: moves_def)
  have "r_state q \<notin> {StateUploading, StateCancelling}" if "row_of (jdb (w_j w')) (u_ID up) = Some q" for q
    using that release_done [OF e, of up q] register_done [OF assms(3-5) _, of w1 q] r by (cases b) (simp_all add: w'_def)
  moreover have "u_ID up \<notin> w_transfers w'"
    using assms(5) register_transfers [of up w w1] r by (cases b) (simp_all add: w'_def release_def Let_def case_prod_beta)
  moreover have "held (phase_of (jdb (w_j w')) x)"
    if "db_inv (jdb (w_j w))" "LResume \<notin> L" "held (phase_of (jdb (w_j w)) x)"
    using trace_invariant [OF ls(2) that(1), where P = held, OF that(3)] life_held ls(1) that(2) by (metis subsetD)
  ultimately show ?thesis using p ls by blast
qed

section \<open>A sample backend\<close>

text \<open>A store of parts and files whose first calls to take a part fail.\<close>

record store =
  st_flaky :: nat
  st_parts :: "string \<Rightarrow> PartToken \<Rightarrow> byte list option"
  st_files :: "string \<Rightarrow> byte list option"

definition sample_part :: "UploadSession \<Rightarrow> int \<Rightarrow> byte list \<Rightarrow> int \<Rightarrow> (store, PartToken) remote_call" where
  "sample_part s i bs n w =
     (let r = w_r w; t = \<lparr>tk_Index = i, tk_ETag = ''e''\<rparr> in
      if 0 < st_flaky r then (Inl (sentinel_err ErrTransient), w\<lparr>w_r := r\<lparr>st_flaky := st_flaky r - 1\<rparr>\<rparr>)
      else (Inr t, w\<lparr>w_r := r\<lparr>st_parts := (\<lambda>x u. if x = us_ID s \<and> u = t then Some bs else st_parts r x u)\<rparr>\<rparr>))"

definition sample_complete :: "UploadSession \<Rightarrow> PartToken list \<Rightarrow> (store, Entry) remote_call" where
  "sample_complete s ts w =
     (if list_all (\<lambda>t. st_parts (w_r w) (us_ID s) t \<noteq> None) ts then
        (Inr (no_entry\<lparr>en_ID := us_ID s\<rparr>),
         w\<lparr>w_r := (w_r w)\<lparr>st_files := (st_files (w_r w))(us_ID s \<mapsto>
           concat (map (\<lambda>t. the (st_parts (w_r w) (us_ID s) t)) ts))\<rparr>\<rparr>)
      else (Inl (sentinel_err ErrNotFound), w))"

definition sample_backend :: "store Provider" where
  "sample_backend =
     \<lparr>pv_PartSize = 2, pv_SinglePutMax = 0, pv_List = (\<lambda>d c w. (Inr ([], []), w)),
      pv_BeginUpload = (\<lambda>d n sz h w. (Inr (no_session\<lparr>us_ID := ''s''\<rparr>), w)),
      pv_UploadPart = sample_part, pv_CompleteUpload = sample_complete, pv_PutFile = None,
      pv_Delete = (\<lambda>x w. (Inr (), w))\<rparr>"

definition sample_opt :: "store UOptions" where
  "sample_opt =
     \<lparr>op_Providers = (\<lambda>r. Some sample_backend), op_Policy = \<lparr>pBackoff = DefaultBackoff, MaxAttempts = 3\<rparr>,
      op_MaxAttempts = 8, op_Workers = 2, op_PollInterval = Second, op_Backoff = DefaultBackoff,
      op_Hooks = \<lparr>hk_Authorize = None, hk_OnSuccess = None, hk_OnDead = None, hk_RemoteVersion = None, hk_Exists = None\<rparr>,
      op_text = (\<lambda>e. ''error''), op_host = ''host'', op_date = (\<lambda>t. ''2026-09-02'')\<rparr>"

definition sample_world :: "store \<Rightarrow> Journal \<Rightarrow> store World" where
  "sample_world r j =
     \<lparr>w_j = j, w_r = r, w_lim = None, w_transfers = {}, w_ended = {}, w_stopped = False,
      w_envs = (\<lambda>n. sample_env), w_dos = (\<lambda>n. quiet_env), w_pos = 0\<rparr>"

definition flaky_store :: store where
  "flaky_store = \<lparr>st_flaky = 1, st_parts = (\<lambda>x t. None), st_files = Map.empty\<rparr>"

lemma sample_quiet: "quiet worker_labels sample_opt"
proof -
  have "moves worker_labels w (snd (sample_part s i bs n w))" "moves worker_labels w (snd (sample_complete s ts w))" for s i bs n ts w
    by (rule moves_same; simp add: sample_part_def sample_complete_def Let_def)+
  then show ?thesis by (simp add: quiet_def quiet_provider_def sample_opt_def sample_backend_def)
qed

lemma sample_listing: "listing_ends sample_backend"
  by (simp add: listing_ends_def sample_backend_def)

theorem process_settles_witness:
  "\<exists>w'. process sample_opt (scanUpload (sample_row 1 ''a'' StateUploading ''/j/objects/a'')) (sample_world flaky_store sample_restart) = Some w' \<and>
     ''a'' \<notin> w_transfers w' \<and> (\<forall>r. row_of (jdb (w_j w')) ''a'' = Some r \<longrightarrow> r_state r \<noteq> StateUploading) \<and>
     held (phase_of (jdb (w_j w')) ''c'')"
proof -
  let ?up = "scanUpload (sample_row 1 ''a'' StateUploading ''/j/objects/a'')"
  let ?w = "sample_world flaky_store sample_restart"
  have up: "u_ID ?up = ''a''" by simp
  have p: "op_Providers sample_opt (u_Remote ?up) = Some p \<Longrightarrow> listing_ends p" for p using sample_listing by (auto simp: sample_opt_def)
  have e: "dbf (w_envs ?w n) k = DBOk" "owner (w_j ?w)" "u_ID ?up \<notin> w_transfers ?w" for n k
    by (simp_all add: sample_world_def sample_env_def sample_restart_def sample_journal_def)
  have inv: "db_inv (jdb (w_j ?w))"
    unfolding sample_world_def sample_restart_def World.simps by (rule sample_inv) simp_all
  have "held (phase_of (jdb (w_j ?w)) ''c'')"
    by (simp add: sample_world_def held_def halted_def phase_of_def row_of_def sample_restart_def sample_journal_def empty_db_def)
  moreover have "LResume \<notin> worker_labels" by (simp add: worker_labels_def)
  ultimately show ?thesis
    using process_settles [OF sample_quiet p e, where x = "''c''"] inv unfolding up by blast
qed

end
