(* ===== verification/UploaderContent.thy ===== *)
theory UploaderContent
  imports UploaderProps
begin

text \<open>
  What arrives at the backend: the parts cover the payload, and a session that completes, resumed
  or not and however often its calls were repeated, stores exactly the bytes of the payload.
\<close>

section \<open>Parts cover the payload\<close>

lemma part_section:
  assumes "int (length bs) = sz" "0 < ps" "k < n_parts sz ps"
  shows "section_of (fst (part_range sz ps (int k))) (snd (part_range sz ps (int k))) bs =
    take (nat ps) (drop (k * nat ps) bs)"
proof -
  have off: "nat (int k * ps) = k * nat ps" using assms(2) by (simp add: nat_mult_distrib)
  show ?thesis
  proof (cases "int k * ps + ps > sz")
    case True
    have "length (drop (k * nat ps) bs) \<le> nat (sz - int k * ps)"
      using assms(1) off by auto
    moreover have "length (drop (k * nat ps) bs) \<le> nat ps"
      using True assms(1,2) off by (simp add: nat_le_iff)
    ultimately show ?thesis using True assms(1) by (auto simp: part_range_def section_of_def Let_def off)
  next
    case False
    then show ?thesis using assms(2) by (simp add: part_range_def section_of_def Let_def off)
  qed
qed

lemma concat_chunks: "concat (map (\<lambda>k. take p (drop (k * p) bs)) [0 ..< n]) = take (n * p) bs"
  by (induction n) (simp_all add: take_add [symmetric] add.commute)

lemma n_parts_cover:
  assumes "int (length bs) = sz" "0 < ps"
  shows "length bs \<le> n_parts sz ps * nat ps"
proof -
  have "sz \<le> ((sz + ps - 1) div ps) * ps"
  proof -
    have "sz + ps - 1 = ((sz + ps - 1) div ps) * ps + (sz + ps - 1) mod ps" by simp
    moreover have "(sz + ps - 1) mod ps \<le> ps - 1" using assms(2) by (simp add: pos_mod_bound zle_diff1_eq)
    ultimately show ?thesis by linarith
  qed
  moreover have "0 \<le> (sz + ps - 1) div ps" using assms by (simp add: pos_imp_zdiv_nonneg_iff)
  ultimately have "length bs \<le> nat ((sz + ps - 1) div ps) * nat ps"
    using assms by (metis nat_int nat_mono nat_mult_distrib)
  also have "\<dots> \<le> n_parts sz ps * nat ps" by (simp add: n_parts_def Let_def)
  finally show ?thesis .
qed

lemma parts_cover:
  assumes "int (length bs) = sz" "0 < ps"
  shows "concat (map (\<lambda>i. section_of (fst (part_range sz ps i)) (snd (part_range sz ps i)) bs)
    (map int [0 ..< n_parts sz ps])) = bs"
proof -
  have "concat (map (\<lambda>i. section_of (fst (part_range sz ps i)) (snd (part_range sz ps i)) bs) (map int [0 ..< n_parts sz ps])) =
      concat (map (\<lambda>k. take (nat ps) (drop (k * nat ps) bs)) [0 ..< n_parts sz ps])"
    using part_section [OF assms] by (intro arg_cong [where f = concat]) simp
  also have "\<dots> = bs" using n_parts_cover [OF assms] by (simp add: concat_chunks)
  finally show ?thesis .
qed

lemma part_size_pos: "0 < part_size p sess"
  by (simp add: part_size_def Let_def)

section \<open>A successful retry loop ends with a successful call\<close>

lemma do_loop_success:
  assumes "J s" "\<And>s e s'. J s \<Longrightarrow> fn s = (Some e, s') \<Longrightarrow> J s'" "\<And>h e c d s. hook = Some h \<Longrightarrow> J s \<Longrightarrow> J (h e c d s)"
    and "attempt < MaxAttempts p" "do_loop p de fn hook attempt err s = (None, s')"
  shows "\<exists>s0. J s0 \<and> fn s0 = (None, s')"
  using assms
proof (induction p de fn hook attempt err s rule: do_loop.induct)
  case (1 p de fn hook attempt err s)
  obtain e s1 where f: "fn s = (e, s1)" by fastforce
  show ?case
  proof (cases e)
    case None
    then show ?thesis using 1 f by (auto simp: do_loop.simps [of p de fn hook attempt err s])
  next
    case (Some x)
    define d where "d = Delay (pBackoff p) (rnd de attempt) attempt (RetryAfter e)"
    define s2 where "s2 = (case hook of None \<Rightarrow> s1 | Some h \<Rightarrow> h e (Classify e) d s1)"
    have J2: "J s2" using "1.prems"(1-3) f Some by (cases hook) (auto simp: s2_def)
    have step: "do_loop p de fn hook attempt err s =
        (if Classify e \<noteq> ClassRetryable \<or> attempt = MaxAttempts p - 1 then (e, s1)
         else case ctx_ended de attempt of Some ce \<Rightarrow> (Some ce, s2) | None \<Rightarrow> do_loop p de fn hook (attempt + 1) e s2)"
      using "1.prems"(4) unfolding s2_def d_def by (subst do_loop.simps) (simp add: Let_def f)
    have c: "Classify e = ClassRetryable" "attempt \<noteq> MaxAttempts p - 1" "ctx_ended de attempt = None"
      and rest: "do_loop p de fn hook (attempt + 1) e s2 = (None, s')"
      using "1.prems"(5) unfolding step by (simp_all add: Some split: if_splits option.splits)
    show ?thesis
    proof (rule "1.IH" [OF "1.prems"(4) f [symmetric] refl refl _ c(2) d_def s2_def c(3) J2])
      show "\<And>s e s'. J s \<Longrightarrow> fn s = (Some e, s') \<Longrightarrow> J s'" by (rule "1.prems"(2))
      show "\<And>h s e c d. hook = Some h \<Longrightarrow> J s \<Longrightarrow> J (h e c d s)" by (rule "1.prems"(3))
    qed (use c rest "1.prems"(4) in auto)
  qed
qed

lemma idle [simp]:
  "w_r (throttled remote e w) = w_r w" "w_j (throttled remote e w) = w_j w"
  "w_r (succeeded remote w) = w_r w" "w_j (succeeded remote w) = w_j w"
  "w_r (end_ctx uid w) = w_r w" "w_j (end_ctx uid w) = w_j w"
  "w_r (snd (waitLimit up w)) = w_r w" "w_j (snd (waitLimit up w)) = w_j w"
proof -
  have lim: "w_j (snd (on_limiter remote f d v)) = w_j v" "w_r (snd (on_limiter remote f d v)) = w_r v"
    for remote f d and v :: "'a World"
    by (simp_all add: on_limiter_def Let_def case_prod_beta split: option.split)
  have trip: "w_j (trip_breaker remote v) = w_j v" "w_r (trip_breaker remote v) = w_r v" for v :: "'a World"
    by (simp_all add: trip_breaker_def Let_def case_prod_beta split: option.split)
  show "w_r (throttled remote e w) = w_r w" "w_j (throttled remote e w) = w_j w"
    by (simp_all add: throttled_def Let_def lim trip)
  show "w_r (succeeded remote w) = w_r w" "w_j (succeeded remote w) = w_j w" by (simp_all add: succeeded_def lim)
  show "w_r (end_ctx uid w) = w_r w" "w_j (end_ctx uid w) = w_j w" by (simp_all add: end_ctx_def)
  then show "w_r (snd (waitLimit up w)) = w_r w" "w_j (snd (waitLimit up w)) = w_j w"
    by (simp_all add: waitLimit_def Let_def case_prod_beta lim end_ctx_def)
qed

lemma u_Do_success:
  assumes "0 < MaxAttempts (op_Policy opt)" "u_Do opt up z m w = (Inr v, w')" "P (w_r w) (w_j w)"
    and "\<And>w e w'. P (w_r w) (w_j w) \<Longrightarrow> m w = (Inl e, w') \<Longrightarrow> P (w_r w') (w_j w')"
  obtains w0 w1 where "P (w_r w0) (w_j w0)" "m w0 = (Inr v, w1)" "w_r w' = w_r w1" "w_j w' = w_j w1"
proof -
  let ?fn = "\<lambda>(v, k, w). case m w of (Inl e, w') \<Rightarrow> (Some e, (v, k, w')) | (Inr a, w') \<Rightarrow> (None, (a, k, w'))"
  let ?hook = "Some (\<lambda>e c d (v, k, w). (v, Suc k, throttled (u_Remote up) e w))"
  let ?s = "(z, 0 :: nat, w\<lparr>w_pos := Suc (w_pos w)\<rparr>)"
  let ?J = "\<lambda>s. P (w_r (snd (snd s))) (w_j (snd (snd s)))"
  obtain e a k w1 where d: "Do (op_Policy opt) (w_dos w (w_pos w)) ?fn ?hook ?s = (e, (a, k, w1))" by (rule prod_cases4)
  have r: "e = None" "v = a" "w_r w' = w_r w1" "w_j w' = w_j w1"
    using assms(2) by (auto simp: u_Do_def d Let_def split: option.splits if_splits)
  have "\<exists>s0. ?J s0 \<and> ?fn s0 = (None, (a, k, w1))"
  proof (rule do_loop_success [where J = ?J])
    show "do_loop (op_Policy opt) (w_dos w (w_pos w)) ?fn ?hook 0 None ?s = (None, (a, k, w1))"
      using d r(1) by (simp add: Do_def)
    show "?J ?s" using assms(3) by simp
    show "?J s'" if "?J s" "?fn s = (Some x, s')" for s x s'
      using that assms(4) by (auto split: prod.splits sum.splits)
    show "?J (h x c d s)" if "?hook = Some h" "?J s" for h x c d s using that by (auto split: prod.splits)
  qed (use assms(1) in simp)
  then obtain b l w0 where "P (w_r w0) (w_j w0)" "?fn (b, l, w0) = (None, (a, k, w1))" by auto
  then show thesis using that [of w0 w1] r by (auto split: prod.splits sum.splits)
qed

section \<open>Honest backends\<close>

text \<open>
  What the interface of a backend promises. \<open>part\<close> says which bytes it holds for a token of a session,
  \<open>content\<close> those of an entry. A part that was accepted stays until the session is completed or the part is sent
  again; completion joins the parts in the order given; \<open>PutFile\<close> stores what it reads.
\<close>

type_synonym 'r parts_of = "'r \<Rightarrow> string \<Rightarrow> PartToken \<Rightarrow> byte list option"
type_synonym 'r contents = "'r \<Rightarrow> string \<Rightarrow> byte list option"

definition honest :: "'r Provider \<Rightarrow> 'r parts_of \<Rightarrow> 'r contents \<Rightarrow> bool" where
  "honest p part content \<longleftrightarrow>
     (\<forall>s i bs n w t w'. pv_UploadPart p s i bs n w = (Inr t, w') \<longrightarrow>
        tk_Index t = i \<and> part (w_r w') (us_ID s) t = Some bs) \<and>
     (\<forall>s i bs n w t b. tk_Index t \<noteq> i \<and> part (w_r w) (us_ID s) t = Some b \<longrightarrow>
        part (w_r (snd (pv_UploadPart p s i bs n w))) (us_ID s) t = Some b) \<and>
     (\<forall>s ts bss w e w'. pv_CompleteUpload p s ts w = (Inr e, w') \<and> map (part (w_r w) (us_ID s)) ts = map Some bss \<longrightarrow>
        content (w_r w') (en_ID e) = Some (concat bss)) \<and>
     (\<forall>s ts w e w'. pv_CompleteUpload p s ts w = (Inl e, w') \<longrightarrow> part (w_r w') (us_ID s) = part (w_r w) (us_ID s)) \<and>
     (\<forall>d c w. part (w_r (snd (pv_List p d c w))) = part (w_r w)) \<and>
     (\<forall>put d n bs sz h w e w'. pv_PutFile p = Some put \<and> put d n bs sz h w = (Inr e, w') \<longrightarrow>
        content (w_r w') (en_ID e) = Some bs)"

text \<open>Nobody touches the payload of the upload or the record of its parts while a call of the backend runs.\<close>

definition payload :: "string \<Rightarrow> Journal \<Rightarrow> (nat \<times> byte list) option" where
  "payload path j = map_option (\<lambda>n. (fst n, os_data (jos j) (fst n))) (resolve (jos j) path)"

definition noted :: "string \<Rightarrow> Journal \<Rightarrow> Part list" where
  "noted uid j = sort_key p_Index (map pt_part (sel_where (\<lambda>q. pt_upload q = uid) (upload_parts (jdb j))))"

definition steady :: "Upload \<Rightarrow> 'r World \<Rightarrow> 'r World \<Rightarrow> bool" where
  "steady up w w' \<longleftrightarrow>
     payload (u_BlobPath up) (w_j w') = payload (u_BlobPath up) (w_j w) \<and> noted (u_ID up) (w_j w') = noted (u_ID up) (w_j w)"

definition steady_provider :: "Upload \<Rightarrow> 'r Provider \<Rightarrow> bool" where
  "steady_provider up p \<longleftrightarrow>
     (\<forall>d c w. steady up w (snd (pv_List p d c w))) \<and>
     (\<forall>d n sz h w. steady up w (snd (pv_BeginUpload p d n sz h w))) \<and>
     (\<forall>s i bs n w. steady up w (snd (pv_UploadPart p s i bs n w))) \<and>
     (\<forall>s ts w. steady up w (snd (pv_CompleteUpload p s ts w))) \<and>
     (\<forall>put d n bs sz h w. pv_PutFile p = Some put \<longrightarrow> steady up w (snd (put d n bs sz h w)))"

text \<open>The bytes of part \<open>i\<close>, and records of parts that the backend really holds.\<close>

definition part_bytes :: "'r Provider \<Rightarrow> UploadSession \<Rightarrow> byte list \<Rightarrow> int \<Rightarrow> byte list" where
  "part_bytes p sess bs i =
     (let r = part_range (int (length bs)) (part_size p sess) i in section_of (fst r) (snd r) bs)"

definition notes_true :: "'r Provider \<Rightarrow> 'r parts_of \<Rightarrow> Upload \<Rightarrow> byte list \<Rightarrow> 'r World \<Rightarrow> bool" where
  "notes_true p part up bs w \<longleftrightarrow>
     (\<forall>i t. done_parts (noted (u_ID up) (w_j w)) i = Some t \<longrightarrow>
        (\<exists>sess. restoreSession (u_Session up) = Some sess \<and> part (w_r w) (us_ID sess) t = Some (part_bytes p sess bs i)))"

lemma honestD:
  assumes "honest p part content"
  shows "pv_UploadPart p s i bs n w = (Inr t, w') \<Longrightarrow> tk_Index t = i"
    and "pv_UploadPart p s i bs n w = (Inr t, w') \<Longrightarrow> part (w_r w') (us_ID s) t = Some bs"
    and "tk_Index t \<noteq> i \<Longrightarrow> part (w_r w) (us_ID s) t = Some b \<Longrightarrow> pv_UploadPart p s i bs n w = (r, w') \<Longrightarrow>
      part (w_r w') (us_ID s) t = Some b"
    and "pv_CompleteUpload p s ts w = (Inr e, w') \<Longrightarrow> map (part (w_r w) (us_ID s)) ts = map Some bss \<Longrightarrow>
      content (w_r w') (en_ID e) = Some (concat bss)"
    and "pv_CompleteUpload p s ts w = (Inl er, w') \<Longrightarrow> part (w_r w') (us_ID s) = part (w_r w) (us_ID s)"
    and "part (w_r (snd (pv_List p d c w))) = part (w_r w)"
    and "pv_PutFile p = Some put \<Longrightarrow> put d nm bs sz h w = (Inr e, w') \<Longrightarrow> content (w_r w') (en_ID e) = Some bs"
  using assms unfolding honest_def by (metis snd_conv)+

lemma steadyD:
  assumes "steady_provider up p"
  shows "pv_List p d c w = (r1, w') \<Longrightarrow> steady up w w'"
    and "pv_BeginUpload p d n sz h w = (r2, w') \<Longrightarrow> steady up w w'"
    and "pv_UploadPart p s i bs k w = (r3, w') \<Longrightarrow> steady up w w'"
    and "pv_CompleteUpload p s ts w = (r4, w') \<Longrightarrow> steady up w w'"
    and "pv_PutFile p = Some put \<Longrightarrow> put d n bs sz h w = (r4, w') \<Longrightarrow> steady up w w'"
  using assms unfolding steady_provider_def by (metis snd_conv)+

section \<open>A finished transfer stores the payload\<close>

lemma journal_keeps [simp]:
  "payload path (snd (RecordPart env j uid q)) = payload path j"
  "payload path (snd (SetSession env j uid m)) = payload path j"
  "noted x (snd (SetSession env j uid m)) = noted x j"
proof -
  have os: "jos (snd (RecordPart env j uid q)) = jos j" "jos (snd (SetSession env j uid m)) = jos j"
    by (simp_all add: RecordPart_def SetSession_def Let_def tx_def split: sum.split)
  then show "payload path (snd (RecordPart env j uid q)) = payload path j"
    "payload path (snd (SetSession env j uid m)) = payload path j" by (simp_all add: payload_def)
  have "upload_parts (jdb (snd (SetSession env j uid m))) = upload_parts (jdb j)"
    by (auto simp: SetSession_def tx_def upd_id_def guarded_def split: sum.split option.split)
  then show "noted x (snd (SetSession env j uid m)) = noted x j" by (simp add: noted_def)
qed

lemma jcall_keeps [simp]:
  "w_r (snd (jcall over f w)) = w_r w"
  "w_j (snd (jcall over f w)) = snd (f (if over then ended_env (w_envs w (w_pos w)) else w_envs w (w_pos w)) (w_j w))"
  by (simp_all add: jcall_def Let_def case_prod_beta)

lemma blob_payload: "payload path (w_j w) = Some (f, bs) \<Longrightarrow> blob_data f w = bs"
  by (auto simp: payload_def blob_data_def)

lemma upload_part_stores:
  assumes "honest p part content" "steady_provider up p" "0 < MaxAttempts (op_Policy opt)"
    and "u_Do opt up no_token (\<lambda>w. pv_UploadPart p sess i (section_of off n (blob_data f w)) n w) w = (Inr t, w')"
    and "payload (u_BlobPath up) (w_j w) = Some (f, bs)"
  shows "tk_Index t = i" "part (w_r w') (us_ID sess) t = Some (section_of off n bs)"
    and "payload (u_BlobPath up) (w_j w') = Some (f, bs)"
    and "tk_Index u \<noteq> i \<Longrightarrow> part (w_r w) (us_ID sess) u = Some b \<Longrightarrow> part (w_r w') (us_ID sess) u = Some b"
proof -
  let ?P = "\<lambda>r j. payload (u_BlobPath up) j = Some (f, bs) \<and>
    (\<forall>u b. tk_Index u \<noteq> i \<and> part (w_r w) (us_ID sess) u = Some b \<longrightarrow> part r (us_ID sess) u = Some b)"
  have keep: "?P (w_r v') (w_j v')"
    if "?P (w_r v) (w_j v)" "pv_UploadPart p sess i (section_of off n (blob_data f v)) n v = (r, v')" for v r v'
    using that(1) honestD(3) [OF assms(1) _ _ that(2)] steadyD(3) [OF assms(2) that(2)] by (simp add: steady_def)
  obtain w0 w1 where c: "?P (w_r w0) (w_j w0)" "pv_UploadPart p sess i (section_of off n (blob_data f w0)) n w0 = (Inr t, w1)"
      "w_r w' = w_r w1" "w_j w' = w_j w1"
  proof (rule u_Do_success [where P = ?P, OF assms(3,4)])
    show "?P (w_r w) (w_j w)" using assms(5) by simp
    show "?P (w_r v') (w_j v')"
      if "?P (w_r v) (w_j v)" "pv_UploadPart p sess i (section_of off n (blob_data f v)) n v = (Inl e, v')" for v e v'
      by (rule keep [OF that])
  qed
  have "blob_data f w0 = bs" using c(1) blob_payload by blast
  then show "tk_Index t = i" "part (w_r w') (us_ID sess) t = Some (section_of off n bs)"
    using honestD(1,2) [OF assms(1) c(2)] c(3) by simp_all
  show "payload (u_BlobPath up) (w_j w') = Some (f, bs)" using keep [OF c(1,2)] c(4) by simp
  show "part (w_r w') (us_ID sess) u = Some b" if "tk_Index u \<noteq> i" "part (w_r w) (us_ID sess) u = Some b"
    using keep [OF c(1,2)] c(3) that by simp
qed

lemma send_parts_stores:
  assumes "honest p part content" "steady_provider up p" "0 < MaxAttempts (op_Policy opt)"
    and "send_parts opt p up sess resumed f ps recorded is w = (Inr ts, w')"
    and "payload (u_BlobPath up) (w_j w) = Some (f, bs)" "distinct is"
    and "\<And>i t. i \<in> set is \<Longrightarrow> recorded i = Some t \<Longrightarrow> tk_Index t = i \<and> part (w_r w) (us_ID sess) t =
      Some (section_of (fst (part_range (u_Size up) ps i)) (snd (part_range (u_Size up) ps i)) bs)"
  shows "map (part (w_r w') (us_ID sess)) ts =
      map (\<lambda>i. Some (section_of (fst (part_range (u_Size up) ps i)) (snd (part_range (u_Size up) ps i)) bs)) is"
    and "payload (u_BlobPath up) (w_j w') = Some (f, bs)"
    and "tk_Index u \<notin> set is \<Longrightarrow> part (w_r w) (us_ID sess) u = Some b \<Longrightarrow> part (w_r w') (us_ID sess) u = Some b"
proof -
  let ?sec = "\<lambda>i. section_of (fst (part_range (u_Size up) ps i)) (snd (part_range (u_Size up) ps i)) bs"
  let ?held = "\<lambda>w u b. part (w_r w) (us_ID sess) u = Some b"
  have "map (part (w_r w') (us_ID sess)) ts = map (\<lambda>i. Some (?sec i)) is \<and> payload (u_BlobPath up) (w_j w') = Some (f, bs) \<and>
      (\<forall>u b. tk_Index u \<notin> set is \<and> ?held w u b \<longrightarrow> ?held w' u b)"
    using assms(4-7)
  proof (induction "is" arbitrary: w ts)
    case (Cons i "is")
    have live: "\<not> ctx_over w (u_ID up)" using Cons.prems(1) by (auto split: if_splits)
    show ?case
    proof (cases "recorded i")
      case (Some t)
      then obtain us where us: "send_parts opt p up sess resumed f ps recorded is w = (Inr us, w')" "ts = t # us"
        using Cons.prems(1) live by (auto split: prod.splits sum.splits)
      have "tk_Index t = i" "?held w t (?sec i)" using Cons.prems(4) Some by auto
      then show ?thesis using Cons.IH [OF us(1) Cons.prems(2)] Cons.prems(3,4) us(2) by auto
    next
      case None
      obtain off n where o: "part_range (u_Size up) ps i = (off, n)" by fastforce
      obtain e w1 where l: "waitLimit up w = (e, w1)" by fastforce
      obtain r w2 where d: "u_Do opt up no_token (\<lambda>w. pv_UploadPart p sess i (section_of off n (blob_data f w)) n w) w1 = (r, w2)"
        by fastforce
      obtain t where t: "e = None" "r = Inr t"
        using Cons.prems(1) live None o l d by (cases e; cases r) auto
      let ?jc = "jcall (ctx_over (succeeded (u_Remote up) w2) (u_ID up))
        (\<lambda>env j. RecordPart env j (u_ID up) \<lparr>p_Index = i, p_ETag = tk_ETag t, p_State = ''done''\<rparr>) (succeeded (u_Remote up) w2)"
      obtain x w4 where jc: "?jc = (x, w4)" by fastforce
      then have w4_def: "w4 = snd ?jc" by simp
      obtain us where us: "send_parts opt p up sess resumed f ps recorded is w4 = (Inr us, w')" "ts = t # us"
        using Cons.prems(1) live None o l d t
        by (auto simp: jc Let_def split: prod.splits sum.splits)
      have w1: "w_r w1 = w_r w" "w_j w1 = w_j w" using idle(7,8) [of up w] l by simp_all
      note st = upload_part_stores [OF assms(1-3) d [unfolded t(2)], unfolded w1, OF Cons.prems(2)]
      have w4: "w_r w4 = w_r w2" "payload (u_BlobPath up) (w_j w4) = Some (f, bs)" using st(3) by (simp_all add: w4_def)
      have "tk_Index q = x \<and> ?held w4 q (?sec x)" if "x \<in> set is" "recorded x = Some q" for x q
        using Cons.prems(3) Cons.prems(4) [of x q] that st(4) [of q "?sec x"] w4(1) by auto
      from Cons.IH [OF us(1) w4(2) _ this] Cons.prems(3)
      have ih: "map (part (w_r w') (us_ID sess)) us = map (\<lambda>i. Some (?sec i)) is" "payload (u_BlobPath up) (w_j w') = Some (f, bs)"
        "\<And>u b. tk_Index u \<notin> set is \<Longrightarrow> ?held w4 u b \<Longrightarrow> ?held w' u b" by auto
      have "?held w' t (?sec i)" using ih(3) [of t] st(1,2) w4(1) Cons.prems(3) o by simp
      then show ?thesis using ih st(4) w4(1) us(2) by auto
    qed
  qed simp
  then show "map (part (w_r w') (us_ID sess)) ts = map (\<lambda>i. Some (?sec i)) is" "payload (u_BlobPath up) (w_j w') = Some (f, bs)"
    "tk_Index u \<notin> set is \<Longrightarrow> ?held w u b \<Longrightarrow> ?held w' u b" by auto
qed

lemma done_parts_index: "done_parts pts i = Some t \<Longrightarrow> tk_Index t = i"
  by (auto simp: done_parts_def find_Some_iff)

lemma open_payload:
  assumes "payload (u_BlobPath up) (w_j w) = Some (f, bs)" "open_blob up w = Inr g"
  shows "g = f"
  using assms by (auto simp: payload_def open_blob_def os_open_def split: if_splits option.splits)

lemma send_session_stores:
  assumes "honest p part content" "steady_provider up p" "0 < MaxAttempts (op_Policy opt)"
    and "send_session opt p up name sess resumed w = (Inr res, w')"
    and "payload (u_BlobPath up) (w_j w) = Some (f, bs)" "u_Size up = int (length bs)"
    and "\<And>i t. done_parts (noted (u_ID up) (w_j w)) i = Some t \<Longrightarrow> part (w_r w) (us_ID sess) t = Some (part_bytes p sess bs i)"
  shows "content (w_r w') (en_ID (rs_Entry res)) = Some bs"
proof -
  let ?sec = "\<lambda>i. section_of (fst (part_range (u_Size up) (part_size p sess) i)) (snd (part_range (u_Size up) (part_size p sess) i)) bs"
  obtain rc w1 where j: "jread (ctx_over w (u_ID up)) (\<lambda>env j. Parts env j (u_ID up)) w = (rc, w1)" by fastforce
  define recorded where "recorded = (case rc of Inl e \<Rightarrow> (\<lambda>i. None) | Inr pts \<Rightarrow> done_parts pts)"
  have w1: "w_r w1 = w_r w" "w_j w1 = w_j w" using j by (auto simp: jread_def jcall_def Let_def)
  have "rc = Inr pts \<Longrightarrow> pts = noted (u_ID up) (w_j w)" for pts
    using j by (auto simp: jread_def jcall_def Let_def Parts_def dbq_def noted_def split: if_splits)
  then have rec: "tk_Index t = i \<and> part (w_r w1) (us_ID sess) t = Some (?sec i)" if "recorded i = Some t" for i t
    using that assms(6) assms(7) [of i t] done_parts_index [of _ i t]
    by (auto simp: recorded_def part_bytes_def Let_def w1 split: sum.splits)
  obtain g where g: "open_blob up w = Inr g" using assms(4) by (cases "open_blob up w") (auto simp: send_session_def)
  define ixs where "ixs = map int [0 ..< n_parts (u_Size up) (part_size p sess)]"
  obtain rs w2 where sp: "send_parts opt p up sess resumed f (part_size p sess) recorded ixs w1 = (rs, w2)" by fastforce
  obtain q w3 where cu: "u_Do opt up no_entry (pv_CompleteUpload p sess (projr rs)) w2 = (q, w3)" by fastforce
  note run = assms(4) [unfolded send_session_def g open_payload [OF assms(5) g] sum.case Let_def j prod.case
      recorded_def [symmetric] ixs_def [symmetric] sp]
  obtain parts entry where r: "rs = Inr parts" "q = Inr entry" "rs_Entry res = entry" "w_r w' = w_r w3"
    using run cu by (cases rs; cases q) (auto simp: result_of_def)
  have "distinct ixs" by (simp add: ixs_def distinct_map)
  note st = send_parts_stores [OF assms(1-3) sp [unfolded r(1)] _ this rec, unfolded w1, OF assms(5)]
  let ?P = "\<lambda>r j. map (part r (us_ID sess)) parts = map Some (map ?sec ixs)"
  obtain v0 v1 where c: "?P (w_r v0) (w_j v0)" "pv_CompleteUpload p sess parts v0 = (Inr entry, v1)" "w_r w3 = w_r v1" "w_j w3 = w_j v1"
  proof (rule u_Do_success [where P = ?P, OF assms(3) cu [unfolded r(1,2) sum.sel]])
    show "?P (w_r w2) (w_j w2)" using st(1) by simp
    show "?P (w_r v') (w_j v')" if "?P (w_r v) (w_j v)" "pv_CompleteUpload p sess parts v = (Inl e, v')" for v e v'
      using that(1) honestD(5) [OF assms(1) that(2)] by simp
  qed
  have "content (w_r v1) (en_ID entry) = Some (concat (map ?sec ixs))" by (rule honestD(4) [OF assms(1) c(2,1)])
  also have "concat (map ?sec ixs) = bs" unfolding ixs_def by (rule parts_cover [OF assms(6) [symmetric] part_size_pos])
  finally show ?thesis using r c(3) by simp
qed

lemma list_pages_keeps:
  assumes "list_pages p up expd cursor w = Some y" "\<And>d c w. P w \<Longrightarrow> P (snd (pv_List p d c w))" "P w"
  shows "P (snd y)"
proof -
  have "(\<forall>d c w. P w \<longrightarrow> P (snd (pv_List p d c w))) \<longrightarrow> P w \<longrightarrow> P (snd y)"
  proof (rule list_pages.raw_induct
      [where P = "\<lambda>p up e c w y. (\<forall>d c w. P w \<longrightarrow> P (snd (pv_List p d c w))) \<longrightarrow> P w \<longrightarrow> P (snd y)", OF _ assms(1)])
    fix rc p up expd cursor w y
    assume IH: "\<And>p up e c w y. rc p up e c w = Some y \<Longrightarrow> (\<forall>d c w. P w \<longrightarrow> P (snd (pv_List p d c w))) \<longrightarrow> P w \<longrightarrow> P (snd y)"
      and run: "(case pv_List p (u_RemoteParentID up) cursor w of (Inl e, w1) \<Rightarrow> Some (Inl e, w1)
        | (Inr (entries, nxt), w1) \<Rightarrow> (case find (\<lambda>e. en_Name e = u_Name up) entries of
            None \<Rightarrow> if nxt = [] then Some (Inr False, w1) else rc p up expd nxt w1
          | Some e \<Rightarrow> Some (Inr (en_Version e \<noteq> [] \<and> en_Version e \<noteq> expd), w1))) = Some y"
    show "(\<forall>d c w. P w \<longrightarrow> P (snd (pv_List p d c w))) \<longrightarrow> P w \<longrightarrow> P (snd y)"
    proof (intro impI)
      assume q: "\<forall>d c w. P w \<longrightarrow> P (snd (pv_List p d c w))" "P w"
      obtain r w1 where l: "pv_List p (u_RemoteParentID up) cursor w = (r, w1)" by fastforce
      have w1: "P w1" using q l by (metis snd_conv)
      have "snd y = w1 \<or> (\<exists>nxt. rc p up expd nxt w1 = Some y)"
        using run l by (auto split: sum.splits option.splits if_splits)
      then show "P (snd y)" using w1 IH q(1) by metis
    qed
  qed
  then show ?thesis using assms(2,3) by blast
qed

lemma begin_upload_keeps:
  assumes "steady_provider up p" "0 < MaxAttempts (op_Policy opt)" "begin_upload opt p up name w = (Inr sess, w')"
  shows "steady up w w'"
proof -
  let ?m = "pv_BeginUpload p (u_RemoteParentID up) name (u_Size up) (u_Hashes up)"
  let ?P = "\<lambda>r j. payload (u_BlobPath up) j = payload (u_BlobPath up) (w_j w) \<and> noted (u_ID up) j = noted (u_ID up) (w_j w)"
  have d: "u_Do opt up no_session ?m w = (Inr sess, w')" using assms(3) by (auto simp: begin_upload_def split: sum.splits)
  have keep: "?P (w_r v') (w_j v')" if "?P (w_r v) (w_j v)" "?m v = (r, v')" for v r v'
    using that(1) steadyD(2) [OF assms(1) that(2)] by (simp add: steady_def)
  obtain w0 w1 where c: "?P (w_r w0) (w_j w0)" "?m w0 = (Inr sess, w1)" "w_r w' = w_r w1" "w_j w' = w_j w1"
  proof (rule u_Do_success [where P = ?P, OF assms(2) d])
    show "?P (w_r v') (w_j v')" if "?P (w_r v) (w_j v)" "?m v = (Inl e, v')" for v e v' by (rule keep [OF that])
  qed simp
  show ?thesis using keep [OF c(1,2)] c(4) by (simp add: steady_def)
qed

lemma put_stores:
  assumes "honest p part content" "steady_provider up p" "0 < MaxAttempts (op_Policy opt)" "pv_PutFile p = Some put"
    and "putWhole opt put up name w = (Inr res, w')"
    and "payload (u_BlobPath up) (w_j w) = Some (f, bs)" "u_Size up = int (length bs)"
  shows "content (w_r w') (en_ID (rs_Entry res)) = Some bs"
proof -
  let ?m = "\<lambda>w. put (u_RemoteParentID up) name (section_of 0 (u_Size up) (blob_data f w)) (u_Size up) (u_Hashes up) w"
  obtain g where g: "open_blob up w = Inr g" using assms(5) by (cases "open_blob up w") (auto simp: putWhole_def)
  obtain q w1 where d: "u_Do opt up no_entry ?m w = (q, w1)" by fastforce
  obtain entry where r: "q = Inr entry" "rs_Entry res = entry" "w_r w' = w_r w1"
    using assms(5) d open_payload [OF assms(6) g] by (cases q) (auto simp: putWhole_def g result_of_def)
  let ?P = "\<lambda>r j. payload (u_BlobPath up) j = Some (f, bs)"
  obtain v0 v1 where c: "?P (w_r v0) (w_j v0)" "?m v0 = (Inr entry, v1)" "w_r w1 = w_r v1" "w_j w1 = w_j v1"
  proof (rule u_Do_success [where P = ?P, OF assms(3) d [unfolded r(1)]])
    show "?P (w_r v') (w_j v')" if "?P (w_r v) (w_j v)" "?m v = (Inl e, v')" for v e v'
      using that(1) steadyD(5) [OF assms(2,4) that(2)] by (simp add: steady_def)
  qed (rule assms(6))
  have "content (w_r v1) (en_ID entry) = Some (section_of 0 (u_Size up) (blob_data f v0))"
    by (rule honestD(7) [OF assms(1,4) c(2)])
  then show ?thesis using blob_payload [OF c(1)] assms(7) r(2,3) c(3) by (simp add: section_of_def)
qed

lemma run_session_stores:
  assumes "honest p part content" "steady_provider up p" "0 < MaxAttempts (op_Policy opt)"
    and "run_session opt p up name w = (Inr res, w')" "\<not> rs_Rapid res"
    and "payload (u_BlobPath up) (w_j w) = Some (f, bs)" "u_Size up = int (length bs)" "notes_true p part up bs w"
  shows "content (w_r w') (en_ID (rs_Entry res)) = Some bs"
proof (cases "restoreSession (u_Session up)")
  case (Some sess)
  then have "send_session opt p up name sess True w = (Inr res, w')" using assms(4) by (simp add: run_session_def)
  then show ?thesis
    by (rule send_session_stores [OF assms(1-3) _ assms(6,7)]) (use assms(8) Some in \<open>auto simp: notes_true_def\<close>)
next
  case None
  obtain r w1 where b: "begin_upload opt p up name w = (r, w1)" by fastforce
  obtain sess where r: "r = Inr sess" using assms(4) b None by (cases r) (auto simp: run_session_def)
  have st: "steady up w w1" by (rule begin_upload_keeps [OF assms(2,3) b [unfolded r]])
  obtain q w2 where c: "jcall (ctx_over w1 (u_ID up)) (\<lambda>env j. SetSession env j (u_ID up) (persistSession sess)) w1 = (q, w2)" by fastforce
  have run: "send_session opt p up name sess False w2 = (Inr res, w')"
    using assms(4,5) None b r c by (cases q) (auto simp: run_session_def result_of_def split: if_splits)
  have w2: "payload (u_BlobPath up) (w_j w2) = payload (u_BlobPath up) (w_j w1)" "noted (u_ID up) (w_j w2) = noted (u_ID up) (w_j w1)"
    using jcall_keeps(2) [of "ctx_over w1 (u_ID up)" "\<lambda>env j. SetSession env j (u_ID up) (persistSession sess)" w1] c by simp_all
  show ?thesis
    by (rule send_session_stores [OF assms(1-3) run _ assms(7)]) (use assms(6,8) None st w2 in \<open>auto simp: notes_true_def steady_def\<close>)
qed

text \<open>
  C4. A transfer that succeeds has stored the payload: whichever way it went, in one request or
  in parts, begun afresh or resumed from the parts recorded before, and however often its calls were repeated
  in between, the entry it returns has exactly the bytes of the payload. (Of an upload that the
  backend accepted by its hashes alone nothing is said.)
\<close>

theorem runOne_stores_payload:
  assumes "honest p part content" and "steady_provider up p" and "0 < MaxAttempts (op_Policy opt)"
    and "payload (u_BlobPath up) (w_j w) = Some (f, bs)" and "u_Size up = int (length bs)" and "notes_true p part up bs w"
    and "runOne opt p up w = Some (Inr res, w')" and "\<not> rs_Rapid res"
  shows "content (w_r w') (en_ID (rs_Entry res)) = Some bs"
proof -
  let ?P = "\<lambda>v. payload (u_BlobPath up) (w_j v) = Some (f, bs) \<and> notes_true p part up bs v"
  obtain name w1 where c: "choose_name opt p up w = Some (name, w1)" "run_named opt p up name w1 = (Inr res, w')"
    using assms(7) by (auto simp: runOne_def split: option.splits)
  have keep: "?P (snd (pv_List p d k v))" if "?P v" for d k v
    using that steadyD(1) [OF assms(2), of d k v] honestD(6) [OF assms(1), of d k v]
    by (cases "pv_List p d k v") (simp add: steady_def notes_true_def)
  have "w1 = w \<or> (\<exists>r. remoteChanged opt p up w = Some (r, w1))"
    using c(1) by (auto simp: choose_name_def split: if_splits option.splits sum.splits bool.splits)
  then have w1: "?P w1"
    using list_pages_keeps [where P = ?P, OF _ keep] assms(4,6) unfolding remoteChanged_def by (metis snd_conv)
  obtain e w2 where l: "waitLimit up w1 = (e, w2)" by fastforce
  have w2: "w_r w2 = w_r w1" "w_j w2 = w_j w1" using idle(7,8) [of up w1] l by simp_all
  have P2: "payload (u_BlobPath up) (w_j w2) = Some (f, bs)" "notes_true p part up bs w2"
    using w1 by (simp_all add: w2 notes_true_def)
  have "(\<exists>put. pv_PutFile p = Some put \<and> putWhole opt put up name w2 = (Inr res, w')) \<or> run_session opt p up name w2 = (Inr res, w')"
    using c(2) l by (auto simp: run_named_def split: option.splits if_splits)
  then show ?thesis
    using put_stores [OF assms(1-3) _ _ P2(1) assms(5)] run_session_stores [OF assms(1-3) _ assms(8) P2(1) assms(5) P2(2)] by blast
qed

text \<open>
  A resumed transfer to the sample backend: the first of two parts is recorded, and the first
  attempt to send the other one fails.
\<close>

definition resumed_upload :: Upload where
  "resumed_upload = (sample_upload ''a'' ''/j/objects/a'')\<lparr>u_Size := 3,
     u_Session := persistSession (no_session\<lparr>us_ID := ''s'', us_PartSize := 2\<rparr>)\<rparr>"

definition resumed_world :: "store World" where
  "resumed_world =
     sample_world (flaky_store\<lparr>st_parts := (\<lambda>x t. if x = ''s'' \<and> t = \<lparr>tk_Index = 0, tk_ETag = ''e''\<rparr> then Some [1, 2] else None)\<rparr>)
       ((sample_journal [sample_row 1 ''a'' StateUploading ''/j/objects/a''])
          \<lparr>jdb := empty_db\<lparr>upload_parts := [\<lparr>pt_upload = ''a'', pt_part = \<lparr>p_Index = 0, p_ETag = ''e'', p_State = ''done''\<rparr>\<rparr>]\<rparr>,
           jos := sample_fs\<lparr>os_data := (\<lambda>i. if i = 5 then [1, 2, 3] else [])\<rparr>\<rparr>)"

lemma sample_honest: "honest sample_backend st_parts st_files"
proof -
  have "map (st_parts r x) ts = map Some bss \<Longrightarrow> map (\<lambda>t. the (st_parts r x t)) ts = bss" for r x ts bss
    by (induction ts arbitrary: bss) auto
  then show ?thesis
    by (auto simp: honest_def sample_backend_def sample_part_def sample_complete_def Let_def split: if_splits)
qed

lemma sample_steady: "steady_provider up sample_backend"
  by (simp add: steady_provider_def steady_def sample_backend_def sample_part_def sample_complete_def Let_def)

lemma resumed_run:
  "(case runOne sample_opt sample_backend resumed_upload resumed_world of
      Some (Inr res, w') \<Rightarrow> \<not> rs_Rapid res \<and> en_ID (rs_Entry res) = ''s'' | _ \<Rightarrow> False)"
  by code_simp

theorem runOne_stores_payload_witness:
  "\<exists>res w'. runOne sample_opt sample_backend resumed_upload resumed_world = Some (Inr res, w') \<and>
     st_files (w_r w') ''s'' = Some [1, 2, 3]"
proof -
  obtain res w' where run: "runOne sample_opt sample_backend resumed_upload resumed_world = Some (Inr res, w')"
      "\<not> rs_Rapid res" "en_ID (rs_Entry res) = ''s''"
    using resumed_run by (auto split: option.splits sum.splits)
  have "payload (u_BlobPath resumed_upload) (w_j resumed_world) = Some (5, [1, 2, 3])" by code_simp
  moreover have "notes_true sample_backend st_parts resumed_upload [1, 2, 3] resumed_world"
  proof -
    have n: "noted (u_ID resumed_upload) (w_j resumed_world) = [\<lparr>p_Index = 0, p_ETag = ''e'', p_State = ''done''\<rparr>]" by code_simp
    have "st_parts (w_r resumed_world) ''s'' \<lparr>tk_Index = 0, tk_ETag = ''e''\<rparr> =
        Some (part_bytes sample_backend (the (restoreSession (u_Session resumed_upload))) [1, 2, 3] 0)" by code_simp
    moreover have "restoreSession (u_Session resumed_upload) \<noteq> None" "us_ID (the (restoreSession (u_Session resumed_upload))) = ''s''"
      by code_simp+
    ultimately show ?thesis unfolding notes_true_def n by (auto simp: done_parts_def split: if_splits)
  qed
  ultimately show ?thesis
    using runOne_stores_payload [OF sample_honest sample_steady _ _ _ _ run(1,2)] run by (simp add: resumed_upload_def sample_opt_def)
qed

end
