(* ===== verification/UploaderVerdicts.thy ===== *)
theory UploaderVerdicts
  imports UploaderContent
begin

text \<open>
  What becomes of a transfer that failed, of the session of one that starts over, of a session that is
  stored and read back, and of a file that changed on the backend.
\<close>

section \<open>Running rows on a calm journal\<close>

text \<open>The row of the upload is running and the database works.\<close>

definition claimed :: "Upload \<Rightarrow> urow \<Rightarrow> 'r World \<Rightarrow> bool" where
  "claimed up r w \<longleftrightarrow>
     (\<forall>n k. dbf (w_envs w n) k = DBOk) \<and> row_of (jdb (w_j w)) (u_ID up) = Some r \<and> r_state r = StateUploading"

text \<open>And the context of the transfer is live.\<close>

definition running :: "Upload \<Rightarrow> urow \<Rightarrow> 'r World \<Rightarrow> bool" where
  "running up r w \<longleftrightarrow>
     (\<forall>n k. dbf (w_envs w n) k = DBOk) \<and> \<not> ctx_over w (u_ID up) \<and> row_of (jdb (w_j w)) (u_ID up) = Some r \<and> r_state r = StateUploading"

lemma running_claimed: "running up r w \<longleftrightarrow> claimed up r w \<and> \<not> ctx_over w (u_ID up)"
  by (auto simp: running_def claimed_def)

lemma running_guards:
  assumes "running up r w"
  shows "guardNotCancelled (jdb (w_j w)) (u_ID up) = None" "guardNotPurging (jdb (w_j w)) (u_ID up) = None"
  using assms by (simp_all add: running_def guardNotCancelled_def guardNotPurging_def uploadMutationState_def)

lemma jdo_calm:
  assumes "running up r w"
  shows "jdo up f w = w\<lparr>w_j := snd (f (w_envs w (w_pos w)) (w_j w)), w_pos := Suc (w_pos w)\<rparr>"
  using assms by (simp add: jdo_def running_def jcall_calm)

lemma running_jdo:
  assumes "running up r w" "row_of (jdb (snd (f (w_envs w (w_pos w)) (w_j w)))) (u_ID up) = Some q" "r_state q = StateUploading"
  shows "running up q (jdo up f w)"
  using assms jdo_calm [OF assms(1), of f] by (simp add: running_def ctx_over_def)

lemma running_outcomes:
  assumes "running up r w"
  shows "row_of (jdb (snd (Defer (w_envs w n) (w_j w) (u_ID up) d msg))) (u_ID up) =
      Some (r\<lparr>r_state := StatePending, r_next_retry_at := unixMilli (now (w_envs w n) + d), r_last_error := msg\<rparr>)"
    and "row_of (jdb (snd (RetryUpload (w_envs w n) (w_j w) (u_ID up) (Some msg) d))) (u_ID up) =
      Some (r\<lparr>r_state := StatePending, r_attempt := r_attempt r + 1,
        r_next_retry_at := unixMilli (now (w_envs w n) + d), r_last_error := msg\<rparr>)"
    and "row_of (jdb (snd (Fail (w_envs w n) (w_j w) (u_ID up) (Some msg)))) (u_ID up) =
      Some (r\<lparr>r_state := StateDead, r_last_error := msg\<rparr>)"
    and "fst (Fail (w_envs w n) (w_j w) (u_ID up) (Some msg)) = Inr ()"
    and "row_of (jdb (snd (Drop (w_envs w n) (w_j w) (u_ID up)))) (u_ID up) = None"
proof -
  have c: "dbf (w_envs w n) k = DBOk" and r: "row_of (jdb (w_j w)) (u_ID up) = Some r" for k using assms by (simp_all add: running_def)
  note g = running_guards [OF assms]
  show "row_of (jdb (snd (Defer (w_envs w n) (w_j w) (u_ID up) d msg))) (u_ID up) =
      Some (r\<lparr>r_state := StatePending, r_next_retry_at := unixMilli (now (w_envs w n) + d), r_last_error := msg\<rparr>)"
    by (simp add: Defer_def tx_calm c g row_of_upd_id r)
  show "row_of (jdb (snd (RetryUpload (w_envs w n) (w_j w) (u_ID up) (Some msg) d))) (u_ID up) =
      Some (r\<lparr>r_state := StatePending, r_attempt := r_attempt r + 1,
        r_next_retry_at := unixMilli (now (w_envs w n) + d), r_last_error := msg\<rparr>)"
    by (simp add: RetryUpload_def tx_calm c g row_of_upd_id r)
  show "row_of (jdb (snd (Fail (w_envs w n) (w_j w) (u_ID up) (Some msg)))) (u_ID up) =
      Some (r\<lparr>r_state := StateDead, r_last_error := msg\<rparr>)" "fst (Fail (w_envs w n) (w_j w) (u_ID up) (Some msg)) = Inr ()"
    using row_of_upd_id [of "\<lambda>r. r\<lparr>r_state := StateDead, r_last_error := msg\<rparr>" "u_ID up" "jdb (w_j w)" "u_ID up"] r
    by (simp_all add: Fail_def tx_calm c g row_of_def)
  show "row_of (jdb (snd (Drop (w_envs w n) (w_j w) (u_ID up)))) (u_ID up) = None"
    by (simp add: Drop_def Get_calm c r tx_calm drop_tx_def g row_of_drop_rows)
qed

section \<open>Starting over\<close>

text \<open>The rows of parts that still count.\<close>

definition counted :: "string \<Rightarrow> Journal \<Rightarrow> int set" where
  "counted uid j = {p_Index (pt_part q) | q. q \<in> set (upload_parts (jdb j)) \<and> pt_upload q = uid \<and> p_State (pt_part q) \<noteq> ''stale''}"

lemma put_stale:
  assumes "q \<in> set (put_part uid \<lparr>p_Index = i, p_ETag = e, p_State = ''stale''\<rparr> rs)" "pt_upload q = uid" "p_State (pt_part q) \<noteq> ''stale''"
  shows "q \<in> set rs \<and> p_Index (pt_part q) \<noteq> i"
proof -
  let ?p = "\<lparr>p_Index = i, p_ETag = e, p_State = ''stale''\<rparr>"
  let ?here = "\<lambda>x. pt_upload x = uid \<and> p_Index (pt_part x) = i"
  have new: "set (put_part uid ?p rs) \<subseteq> (\<lambda>x. if ?here x then x\<lparr>pt_part := ?p\<rparr> else x) ` set rs \<union> {\<lparr>pt_upload = uid, pt_part = ?p\<rparr>}"
    by (auto simp: put_part_def upd_where_def cnt_where_def filter_empty_conv image_iff Let_def)
  then consider "q = \<lparr>pt_upload = uid, pt_part = ?p\<rparr>" | x where "x \<in> set rs" "q = (if ?here x then x\<lparr>pt_part := ?p\<rparr> else x)"
    using assms(1) by blast
  then show ?thesis
  proof cases
    case (2 x)
    then show ?thesis using assms(2,3) by (cases "?here x") auto
  qed (use assms(3) in simp)
qed

lemma record_stale:
  assumes "running up r w" and w'_def: "w' = jdo up (\<lambda>env j. RecordPart env j (u_ID up) \<lparr>p_Index = i, p_ETag = [], p_State = ''stale''\<rparr>) w"
  shows "running up r w'" "counted (u_ID up) (w_j w') \<subseteq> counted (u_ID up) (w_j w) - {i}"
proof -
  have c: "dbf (w_envs w n) k = DBOk" for n k using assms(1) by (simp add: running_def)
  have j: "w_j w' = (w_j w)\<lparr>jdb := (jdb (w_j w))\<lparr>upload_parts :=
      put_part (u_ID up) \<lparr>p_Index = i, p_ETag = [], p_State = ''stale''\<rparr> (upload_parts (jdb (w_j w)))\<rparr>\<rparr>"
    using running_guards(2) [OF assms(1)] by (simp add: w'_def jdo_calm [OF assms(1)] RecordPart_def tx_calm c)
  have "row_of (jdb (w_j w')) (u_ID up) = Some r" using assms(1) by (simp add: j row_of_def running_def)
  then show "running up r w'"
    using assms(1) j unfolding w'_def jdo_calm [OF assms(1)] by (simp add: running_def ctx_over_def)
  show "counted (u_ID up) (w_j w') \<subseteq> counted (u_ID up) (w_j w) - {i}"
    using put_stale [of _ "u_ID up" i "[]" "upload_parts (jdb (w_j w))"] by (auto simp: counted_def j)
qed

lemma mark_stale_all:
  assumes "running up r w"
  shows "running up r (mark_stale up pts w) \<and>
    counted (u_ID up) (w_j (mark_stale up pts w)) \<subseteq> counted (u_ID up) (w_j w) - p_Index ` set pts"
  using assms
proof (induction pts arbitrary: w)
  case (Cons pt pts)
  note s = record_stale [OF Cons.prems refl, of "p_Index pt"]
  show ?case using Cons.IH [OF s(1)] s(2) by auto
qed simp

lemma noted_counted:
  assumes "dbf env 0 = DBOk"
  shows "Parts env j uid = Inr (noted uid j)" "counted uid j \<subseteq> p_Index ` set (noted uid j)"
    and "done_parts (noted uid j) i = Some t \<Longrightarrow> i \<in> counted uid j"
proof -
  show "Parts env j uid = Inr (noted uid j)" using assms by (simp add: Parts_def dbq_def noted_def)
  show "counted uid j \<subseteq> p_Index ` set (noted uid j)" by (auto simp: counted_def noted_def sel_where_def)
  show "i \<in> counted uid j" if "done_parts (noted uid j) i = Some t"
  proof -
    have "\<exists>p \<in> set (rev (noted uid j)). p_State p = ''done'' \<and> p_Index p = i"
      using that nth_mem [of _ "rev (noted uid j)"] by (auto simp: done_parts_def find_Some_iff)
    then show ?thesis by (auto simp: counted_def noted_def sel_where_def)
  qed
qed

lemma restart_outcome:
  assumes "running up r w"
  shows "\<exists>q. row_of (jdb (w_j (restart opt up err w))) (u_ID up) = Some q \<and> r_state q = StatePending \<and>
      r_attempt q = r_attempt r + 1 \<and> restoreSession (u_Session (scanUpload q)) = None \<and>
      (\<forall>i. done_parts (noted (u_ID up) (w_j (restart opt up err w))) i = None)"
proof -
  let ?r1 = "r\<lparr>r_session := Map.empty\<rparr>"
  define w1 where "w1 = jdo up (\<lambda>env j. SetSession env j (u_ID up) Map.empty) w"
  have c: "dbf (w_envs w n) k = DBOk" and row: "row_of (jdb (w_j w)) (u_ID up) = Some r" "r_state r = StateUploading" for n k
    using assms by (simp_all add: running_def)
  have r1: "running up ?r1 w1"
    unfolding w1_def by (rule running_jdo [OF assms])
      (simp_all add: SetSession_def tx_calm c running_guards [OF assms] row_of_upd_id row)
  have w1e: "dbf (w_envs w1 n) k = DBOk" "\<not> ctx_over w1 (u_ID up)" for n k using r1 by (simp_all add: running_def)
  define w2 where "w2 = w1\<lparr>w_pos := Suc (w_pos w1)\<rparr>"
  have p: "jread (ctx_over w1 (u_ID up)) (\<lambda>env j. Parts env j (u_ID up)) w1 = (Inr (noted (u_ID up) (w_j w1)), w2)"
    using w1e by (simp add: jread_def jcall_calm noted_counted(1) w2_def)
  have r2: "running up ?r1 w2" using r1 by (simp add: running_def w2_def ctx_over_def)
  define w3 where "w3 = mark_stale up (noted (u_ID up) (w_j w1)) w2"
  have r3: "running up ?r1 w3" and "counted (u_ID up) (w_j w3) \<subseteq> counted (u_ID up) (w_j w1) - p_Index ` set (noted (u_ID up) (w_j w1))"
    using mark_stale_all [OF r2, of "noted (u_ID up) (w_j w1)"] by (simp_all add: w3_def w2_def)
  then have none: "counted (u_ID up) (w_j w3) = {}" using noted_counted(2) [OF w1e(1), of "u_ID up" "w_j w1"] by blast
  have w4: "restart opt up err w = jdo up (\<lambda>env j. RetryUpload env j (u_ID up) (Some (op_text opt err)) 0) w3"
    by (simp add: restart_def w1_def [symmetric] p w3_def)
  have c3: "dbf (w_envs w3 n) k = DBOk" for n k using r3 by (simp add: running_def)
  have parts: "upload_parts (jdb (w_j (restart opt up err w))) = upload_parts (jdb (w_j w3))"
    by (simp add: w4 jdo_calm [OF r3] RetryUpload_def tx_calm c3 running_guards [OF r3] upd_id_def)
  then have "counted (u_ID up) (w_j (restart opt up err w)) = {}" using none by (simp add: counted_def)
  then have d: "done_parts (noted (u_ID up) (w_j (restart opt up err w))) i = None" for i
    using noted_counted(3) [OF c3, of "u_ID up" "w_j (restart opt up err w)" i] by (cases "done_parts (noted (u_ID up) (w_j (restart opt up err w))) i") auto
  show ?thesis
    using running_outcomes(2) [OF r3] d by (simp add: w4 jdo_calm [OF r3] restoreSession_def scanUpload_def)
qed

text \<open>
  C30. Starting over forgets the session: after a restart the upload is pending with one more
  attempt, there is no session to resume and no part counts as sent, so that the next attempt
  begins a new session with all its parts. (In particular the records of parts are true again.)
\<close>

theorem restart_forgets:
  assumes "running up r w"
  shows "\<exists>q. row_of (jdb (w_j (restart opt up err w))) (u_ID up) = Some q \<and> r_state q = StatePending \<and>
      r_attempt q = r_attempt r + 1 \<and> restoreSession (u_Session (scanUpload q)) = None \<and>
      (\<forall>i. done_parts (noted (u_ID up) (w_j (restart opt up err w))) i = None)"
  by (rule restart_outcome [OF assms])

definition running_upload :: Upload where
  "running_upload = scanUpload (sample_row 1 ''a'' StateUploading ''/j/objects/a'')"

definition running_world :: "store World" where
  "running_world = sample_world flaky_store
     (sample_restart\<lparr>jdb := (jdb sample_restart)\<lparr>upload_parts :=
        [\<lparr>pt_upload = ''a'', pt_part = \<lparr>p_Index = 0, p_ETag = ''e'', p_State = ''done''\<rparr>\<rparr>]\<rparr>\<rparr>)"

lemma sample_running: "running running_upload (sample_row 1 ''a'' StateUploading ''/j/objects/a'') running_world"
  by (simp add: running_def running_upload_def running_world_def sample_world_def sample_env_def ctx_over_def
    row_of_def sample_restart_def sample_journal_def)

lemma running_id: "u_ID running_upload = ''a''" by (simp add: running_upload_def)

theorem restart_forgets_witness:
  "done_parts (noted ''a'' (w_j running_world)) 0 \<noteq> None \<and>
   done_parts (noted ''a'' (w_j (restart sample_opt running_upload (sentinel_err ErrNotFound) running_world))) 0 = None"
proof
  show "done_parts (noted ''a'' (w_j running_world)) 0 \<noteq> None" by code_simp
  show "done_parts (noted ''a'' (w_j (restart sample_opt running_upload (sentinel_err ErrNotFound) running_world))) 0 = None"
    using restart_forgets [OF sample_running, of sample_opt "sentinel_err ErrNotFound"] unfolding running_id by blast
qed

section \<open>Failures\<close>

text \<open>The row that a settled failure leaves: deferred, to be tried again, or dead.\<close>

definition deferred :: "urow \<Rightarrow> urow \<Rightarrow> bool" where
  "deferred r q \<longleftrightarrow> r_state q = StatePending \<and> r_attempt q = r_attempt r"

definition retried :: "urow \<Rightarrow> urow \<Rightarrow> bool" where
  "retried r q \<longleftrightarrow> r_state q = StatePending \<and> r_attempt q = r_attempt r + 1"

definition buried :: "urow \<Rightarrow> urow \<Rightarrow> bool" where
  "buried r q \<longleftrightarrow> r_state q = StateDead \<and> r_attempt q = r_attempt r"

text \<open>A hook for dead letters that leaves the journal alone.\<close>

definition discreet :: "'r UOptions \<Rightarrow> bool" where
  "discreet opt \<longleftrightarrow> (\<forall>h up e w. hk_OnDead (op_Hooks opt) = Some h \<longrightarrow> w_j (h up e w) = w_j w)"

lemma dead_row:
  assumes "running up r w" "discreet opt"
  shows "\<exists>q. row_of (jdb (w_j (dead opt up cause w))) (u_ID up) = Some q \<and> buried r q"
proof -
  have o: "\<not> ctx_over w (u_ID up)" using assms(1) by (simp add: running_def)
  have "w_j (dead opt up cause w) = snd (Fail (w_envs w (w_pos w)) (w_j w) (u_ID up) (Some (op_text opt cause)))"
    using running_outcomes(4) [OF assms(1)] assms(2) o by (simp add: dead_def discreet_def jcall_calm split: option.split)
  then show ?thesis using running_outcomes(3) [OF assms(1)] by (simp add: buried_def)
qed

lemma retry_row:
  assumes "running up r w"
  shows "\<exists>q. row_of (jdb (w_j (jdo up (\<lambda>env j. RetryUpload env j (u_ID up) (Some msg) d) w))) (u_ID up) = Some q \<and> retried r q \<and>
    r_next_retry_at q = unixMilli (now (w_envs w (w_pos w)) + d)"
  using running_outcomes(2) [OF assms] by (simp add: jdo_calm [OF assms] retried_def)

lemma defer_row:
  assumes "running up r w"
  shows "\<exists>q. row_of (jdb (w_j (jdo up (\<lambda>env j. Defer env j (u_ID up) d msg) w))) (u_ID up) = Some q \<and> deferred r q"
    and "\<exists>q. row_of (jdb (w_j (snd (jcall False (\<lambda>env j. Defer env j (u_ID up) d msg) w)))) (u_ID up) = Some q \<and> deferred r q"
  using running_outcomes(1) [OF assms] by (simp_all add: jdo_calm [OF assms] jcall_calm deferred_def)

lemma restart_row:
  assumes "running up r w"
  shows "\<exists>q. row_of (jdb (w_j (restart opt up err w))) (u_ID up) = Some q \<and> retried r q"
  using restart_outcome [OF assms, of opt err] by (auto simp: retried_def)

lemma settle_canceled:
  assumes "\<not> err_is err ErrUnavailable" "\<not> (err_is err ErrNotFound \<and> goneLocally opt up w)"
  shows "Classify (Some err) = ClassCanceled \<Longrightarrow>
      settle_failure opt up err w = snd (jcall False (\<lambda>env j. Defer env j (u_ID up) 0 (op_text opt err)) w)"
  unfolding settle_failure_def if_not_P [OF assms(1)] if_not_P [OF assms(2)] by (cases "Classify (Some err)") simp_all

lemma settle_fatal:
  assumes "\<not> err_is err ErrUnavailable" "\<not> (err_is err ErrNotFound \<and> goneLocally opt up w)"
  shows "Classify (Some err) \<in> {ClassConflict, ClassTerminal} \<or> Classify (Some err) = ClassQuota \<and> \<not> err_is err ErrRestartUpload \<Longrightarrow>
      settle_failure opt up err w = dead opt up err w"
  unfolding settle_failure_def if_not_P [OF assms(1)] if_not_P [OF assms(2)] by (cases "Classify (Some err)") simp_all

lemma settle_exhausted:
  assumes "\<not> err_is err ErrUnavailable" "\<not> (err_is err ErrNotFound \<and> goneLocally opt up w)"
  shows "Classify (Some err) \<in> {ClassRetryable, ClassAuth, ClassRiskControl, ClassLinkExpired} \<or>
        Classify (Some err) = ClassQuota \<and> err_is err ErrRestartUpload \<Longrightarrow> u_Attempt up + 1 \<ge> op_MaxAttempts opt \<Longrightarrow>
      settle_failure opt up err w = dead opt up (give_up_err up err) w"
  unfolding settle_failure_def if_not_P [OF assms(1)] if_not_P [OF assms(2)] by (cases "Classify (Some err)") simp_all

lemma settle_anew:
  assumes "\<not> err_is err ErrUnavailable" "\<not> (err_is err ErrNotFound \<and> goneLocally opt up w)"
  shows "Classify (Some err) = ClassQuota \<Longrightarrow> err_is err ErrRestartUpload \<Longrightarrow> \<not> u_Attempt up + 1 \<ge> op_MaxAttempts opt \<Longrightarrow>
      settle_failure opt up err w = restart opt up err w"
  unfolding settle_failure_def if_not_P [OF assms(1)] if_not_P [OF assms(2)] by (cases "Classify (Some err)") simp_all

lemma settle_retry:
  assumes "\<not> err_is err ErrUnavailable" "\<not> (err_is err ErrNotFound \<and> goneLocally opt up w)"
  shows "Classify (Some err) \<in> {ClassRetryable, ClassAuth, ClassRiskControl, ClassLinkExpired} \<Longrightarrow>
        \<not> u_Attempt up + 1 \<ge> op_MaxAttempts opt \<Longrightarrow>
      settle_failure opt up err w = jdo up (\<lambda>env j. RetryUpload env j (u_ID up) (Some (op_text opt err))
        (retry_delay opt (rnd (w_dos w (w_pos w)) 0) up err)) w"
  unfolding settle_failure_def if_not_P [OF assms(1)] if_not_P [OF assms(2)] by (cases "Classify (Some err)") simp_all

lemmas settle_failure_cases = settle_canceled settle_fatal settle_exhausted settle_anew settle_retry

lemma retry_delay_risk: "Classify (Some err) = ClassRiskControl \<Longrightarrow> 30 * Second \<le> retry_delay opt rd up err"
  by (simp add: retry_delay_def Let_def)

text \<open>On an ended context the journal refuses every call of the worker but the one on a context of its own.\<close>

lemma ended_calls:
  "snd (Defer (ended_env env) j uid d msg) = j" "snd (RetryUpload (ended_env env) j uid c d) = j"
  "Fail (ended_env env) j uid c = (Inl EDb, j)" "snd (Drop (ended_env env) j uid) = j"
  "snd (SetSession (ended_env env) j uid s) = j" "Parts (ended_env env) j uid = Inl EDb"
  by (simp_all add: ended_env_def Defer_def RetryUpload_def Fail_def Drop_def SetSession_def Parts_def Get_def
    tx_def dbq_def Let_def)

lemma jdo_ended:
  assumes "ctx_over w (u_ID up)" and "\<And>env j. snd (f (ended_env env) j) = j"
  shows "jdo up f w = w\<lparr>w_pos := Suc (w_pos w)\<rparr>"
  using assms by (simp add: jdo_def jcall_def Let_def case_prod_beta)

lemma dead_ended: "ctx_over w (u_ID up) \<Longrightarrow> w_j (dead opt up cause w) = w_j w"
  by (simp add: dead_def jcall_def ended_calls)

lemma restart_ended:
  assumes "ctx_over w (u_ID up)"
  shows "w_j (restart opt up err w) = w_j w"
proof -
  have over: "ctx_over (w\<lparr>w_pos := n\<rparr>) (u_ID up)" for n using assms by (simp add: ctx_over_def)
  show ?thesis
    by (simp add: restart_def jdo_ended [OF assms] jdo_ended [OF over] over ended_calls jread_def jcall_def Let_def)
qed

lemma settle_ended:
  assumes "ctx_over w (u_ID up)"
    and "err_is err ErrUnavailable \<or> err_is err ErrNotFound \<and> goneLocally opt up w \<or> Classify (Some err) \<noteq> ClassCanceled"
  shows "w_j (settle_failure opt up err w) = w_j w"
proof (cases "err_is err ErrUnavailable \<or> err_is err ErrNotFound \<and> goneLocally opt up w")
  case True
  then show ?thesis
    by (cases "err_is err ErrUnavailable") (simp_all add: settle_failure_def jdo_ended [OF assms(1)] ended_calls)
next
  case False
  then have n: "\<not> err_is err ErrUnavailable" "\<not> (err_is err ErrNotFound \<and> goneLocally opt up w)" by auto
  have "Classify (Some err) \<noteq> ClassCanceled" using assms(2) False by blast
  then show ?thesis
    unfolding settle_failure_def if_not_P [OF n(1)] if_not_P [OF n(2)]
    by (cases "Classify (Some err)") (simp_all add: dead_ended [OF assms(1)] restart_ended [OF assms(1)] jdo_ended [OF assms(1)] ended_calls)
qed

lemma defer_claimed:
  assumes "claimed up r w"
  shows "\<exists>q. row_of (jdb (w_j (snd (jcall False (\<lambda>env j. Defer env j (u_ID up) d msg) w)))) (u_ID up) = Some q \<and> deferred r q"
proof -
  let ?w = "w\<lparr>w_stopped := False, w_ended := {}\<rparr>"
  have "running up r ?w" using assms by (simp add: claimed_def running_def ctx_over_def)
  from defer_row(2) [OF this, of d msg] show ?thesis by (simp add: jcall_calm)
qed

text \<open>The verdict on a live context.\<close>

lemma verdict_live:
  assumes "running up r w" and "u_Attempt up = r_attempt r" and "discreet opt"
  shows "case row_of (jdb (w_j (settle_failure opt up err w))) (u_ID up) of
     None \<Rightarrow> err_is err ErrNotFound \<and> \<not> err_is err ErrUnavailable \<and> goneLocally opt up w
   | Some q \<Rightarrow> \<not> (err_is err ErrNotFound \<and> \<not> err_is err ErrUnavailable \<and> goneLocally opt up w) \<and>
      (if err_is err ErrUnavailable \<or> Classify (Some err) = ClassCanceled then deferred r q
       else if Classify (Some err) \<in> {ClassConflict, ClassTerminal} \<or>
         Classify (Some err) = ClassQuota \<and> \<not> err_is err ErrRestartUpload \<or> r_attempt r + 1 \<ge> op_MaxAttempts opt
       then buried r q
       else retried r q \<and> r_attempt q < op_MaxAttempts opt \<and>
         (Classify (Some err) = ClassRiskControl \<longrightarrow>
            (\<exists>d \<ge> 30 * Second. r_next_retry_at q = unixMilli (now (w_envs w (w_pos w)) + d))))"
proof (cases "err_is err ErrUnavailable \<or> err_is err ErrNotFound \<and> goneLocally opt up w")
  case True
  have "row_of (jdb (w_j (jdo up (\<lambda>env j. Drop env j (u_ID up)) w))) (u_ID up) = None"
    using running_outcomes(5) [OF assms(1)] by (simp add: jdo_calm [OF assms(1)])
  moreover obtain q where "row_of (jdb (w_j (jdo up (\<lambda>env j. Defer env j (u_ID up) unavailableRetry (op_text opt err)) w))) (u_ID up) = Some q"
      "deferred r q"
    using defer_row(1) [OF assms(1)] by blast
  ultimately show ?thesis using True by (cases "err_is err ErrUnavailable") (simp_all add: settle_failure_def)
next
  case False
  then have n: "\<not> err_is err ErrUnavailable" "\<not> (err_is err ErrNotFound \<and> goneLocally opt up w)" by auto
  let ?c = "Classify (Some err)" and ?w' = "settle_failure opt up err w" and ?over = "r_attempt r + 1 \<ge> op_MaxAttempts opt"
  let ?fatal = "?c \<in> {ClassConflict, ClassTerminal} \<or> ?c = ClassQuota \<and> \<not> err_is err ErrRestartUpload"
  note s = settle_failure_cases [OF n, unfolded assms(2)] and d = dead_row [OF assms(1,3)]
  have "?c \<noteq> ClassOK" by simp
  then consider "?c = ClassCanceled" | "?fatal" | "\<not> ?fatal" "?c \<noteq> ClassCanceled" "?over"
    | "?c = ClassQuota" "err_is err ErrRestartUpload" "\<not> ?over"
    | "?c \<in> {ClassRetryable, ClassAuth, ClassRiskControl, ClassLinkExpired}" "\<not> ?over"
    by (cases ?c) auto
  then show ?thesis
  proof cases
    case 1
    obtain q where "row_of (jdb (w_j ?w')) (u_ID up) = Some q" "deferred r q"
      using defer_row(2) [OF assms(1), of 0 "op_text opt err"] s(1) [OF 1] by metis
    then show ?thesis using 1 n by simp
  next
    case 2
    obtain q where "row_of (jdb (w_j ?w')) (u_ID up) = Some q" "buried r q" using d [of err] s(2) [OF 2] by metis
    then show ?thesis using 2 n by auto
  next
    case 3
    have "?c \<in> {ClassRetryable, ClassAuth, ClassRiskControl, ClassLinkExpired} \<or> ?c = ClassQuota \<and> err_is err ErrRestartUpload"
      using 3(1,2) \<open>?c \<noteq> ClassOK\<close> by (cases ?c) auto
    then obtain q where "row_of (jdb (w_j ?w')) (u_ID up) = Some q" "buried r q"
      using d [of "give_up_err up err"] s(3) [OF _ 3(3)] by metis
    then show ?thesis using 3(2,3) n by simp
  next
    case 4
    obtain q where "row_of (jdb (w_j ?w')) (u_ID up) = Some q" "retried r q"
      using restart_row [OF assms(1), of opt err] s(4) [OF 4] by metis
    then show ?thesis using 4 n by (simp add: retried_def)
  next
    case 5
    define dl where "dl = retry_delay opt (rnd (w_dos w (w_pos w)) 0) up err"
    obtain q where q: "row_of (jdb (w_j ?w')) (u_ID up) = Some q" "retried r q"
        "r_next_retry_at q = unixMilli (now (w_envs w (w_pos w)) + dl)"
      using retry_row [OF assms(1), of "op_text opt err" dl] s(5) [OF 5] unfolding dl_def by metis
    have "?c = ClassRiskControl \<Longrightarrow> 30 * Second \<le> dl" unfolding dl_def by (rule retry_delay_risk)
    then show ?thesis using 5 n q by (auto simp: retried_def)
  qed
qed

text \<open>
  C28. The verdict on a failed transfer. On a live context the upload is dropped exactly when the
  backend does not find the file and it is gone here too. Otherwise an unavailable backend and a cancelled transfer
  cost no attempt; conflicts, terminal errors, a full remote and the last attempt end in the
  dead-letter queue; and every other failure is tried again with the attempt counted, so that a pending
  upload never reaches the limit, and after risk control no sooner than half a minute later. On a
  context that has ended only a cancelled transfer is written down, as deferred; the row of any other is
  left running, for the release of the transfer.
\<close>

theorem failure_verdict:
  assumes "claimed up r w" and "u_Attempt up = r_attempt r" and "discreet opt"
  shows "let row = row_of (jdb (w_j (settle_failure opt up err w))) (u_ID up);
      gone = (err_is err ErrNotFound \<and> \<not> err_is err ErrUnavailable \<and> goneLocally opt up w);
      cls = Classify (Some err) in
    if ctx_over w (u_ID up) then
      (if cls = ClassCanceled \<and> \<not> err_is err ErrUnavailable \<and> \<not> gone then \<exists>q. row = Some q \<and> deferred r q else row = Some r)
    else if gone then row = None
    else \<exists>q. row = Some q \<and>
      (if err_is err ErrUnavailable \<or> cls = ClassCanceled then deferred r q
       else if cls \<in> {ClassConflict, ClassTerminal} \<or> cls = ClassQuota \<and> \<not> err_is err ErrRestartUpload \<or>
         r_attempt r + 1 \<ge> op_MaxAttempts opt
       then buried r q
       else retried r q \<and> r_attempt q < op_MaxAttempts opt \<and>
         (cls = ClassRiskControl \<longrightarrow> (\<exists>d \<ge> 30 * Second. r_next_retry_at q = unixMilli (now (w_envs w (w_pos w)) + d))))"
proof (cases "ctx_over w (u_ID up)")
  case False
  then have "running up r w" using assms(1) by (simp add: running_claimed)
  from verdict_live [OF this assms(2,3), of err] show ?thesis
    unfolding Let_def if_not_P [OF False]
    by (cases "row_of (jdb (w_j (settle_failure opt up err w))) (u_ID up)") auto
next
  case True
  let ?gone = "err_is err ErrNotFound \<and> \<not> err_is err ErrUnavailable \<and> goneLocally opt up w"
  show ?thesis
  proof (cases "Classify (Some err) = ClassCanceled \<and> \<not> err_is err ErrUnavailable \<and> \<not> ?gone")
    case c: True
    then have "settle_failure opt up err w = snd (jcall False (\<lambda>env j. Defer env j (u_ID up) 0 (op_text opt err)) w)"
      by (intro settle_canceled) auto
    then show ?thesis
      using defer_claimed [OF assms(1), of 0 "op_text opt err"] unfolding Let_def if_P [OF True] if_P [OF c] by simp
  next
    case c: False
    then have "w_j (settle_failure opt up err w) = w_j w" by (intro settle_ended [OF True]) auto
    then show ?thesis using assms(1) unfolding Let_def if_P [OF True] if_not_P [OF c] by (simp add: claimed_def)
  qed
qed

text \<open>A transfer that ran into risk control, and one that was cancelled together with its context.\<close>

theorem failure_verdict_witness:
  "(\<exists>q. row_of (jdb (w_j (settle_failure sample_opt running_upload (sentinel_err ErrRiskControl) running_world))) ''a'' = Some q \<and>
     r_state q = StatePending \<and> r_attempt q = 1) \<and>
   (\<exists>q. row_of (jdb (w_j (settle_failure sample_opt running_upload (sentinel_err CtxCanceled)
       (running_world\<lparr>w_ended := {''a''}\<rparr>)))) ''a'' = Some q \<and> r_state q = StatePending \<and> r_attempt q = 0)"
proof -
  let ?r = "sample_row 1 ''a'' StateUploading ''/j/objects/a''" and ?e = "sentinel_err ErrRiskControl" and ?c = "sentinel_err CtxCanceled"
  let ?w = "running_world\<lparr>w_ended := {''a''}\<rparr>"
  have h: "u_Attempt running_upload = r_attempt ?r" "discreet sample_opt"
    by (simp_all add: running_upload_def discreet_def sample_opt_def)
  have live: "claimed running_upload ?r running_world" "\<not> ctx_over running_world (u_ID running_upload)"
    using sample_running by (simp_all add: running_claimed)
  then have over: "claimed running_upload ?r ?w" "ctx_over ?w (u_ID running_upload)"
    by (simp_all add: claimed_def ctx_over_def running_id)
  have r: "r_attempt ?r = 0" "op_MaxAttempts sample_opt = 8" "Classify (Some ?e) = ClassRiskControl" "Classify (Some ?c) = ClassCanceled"
      "\<not> err_is ?e ErrNotFound" "\<not> err_is ?e ErrUnavailable" "\<not> err_is ?c ErrNotFound" "\<not> err_is ?c ErrUnavailable"
    by (simp_all add: sample_row_def new_row_def sample_upload_def sample_opt_def Classify.simps)
  show ?thesis
    using failure_verdict [OF live(1) h, of ?e] failure_verdict [OF over(1) h, of ?c] live(2) over(2)
    unfolding running_id Let_def by (auto simp: r retried_def deferred_def simp del: One_nat_def)
qed

section \<open>Sessions\<close>

text \<open>
  C31. A stored session can be resumed: what the journal keeps of a session gives the session back,
  with its id, its part size and the state of the backend (apart from entries under the two keys the
  uploader reserves for itself). Only a session without an id is not resumed.
\<close>

theorem session_roundtrip:
  assumes "- 9223372036854775808 \<le> us_PartSize s" and "us_PartSize s \<le> 9223372036854775807"
  shows "restoreSession (persistSession s) =
    (if us_ID s = [] then None
     else Some (s\<lparr>us_RapidDone := False, us_Entry := None,
       us_Opaque := us_Opaque s |` (- {sessionIDKey, sessionPartSizeKey})\<rparr>))"
proof -
  have k: "sessionIDKey \<noteq> sessionPartSizeKey" by (simp add: sessionIDKey_def sessionPartSizeKey_def)
  have "(\<lambda>k. if k = sessionIDKey \<or> k = sessionPartSizeKey then None else persistSession s k) =
      us_Opaque s |` (- {sessionIDKey, sessionPartSizeKey})"
    by (auto simp: persistSession_def restrict_map_def)
  then show ?thesis using k Parse_Format [OF assms] by (simp add: restoreSession_def) (simp add: persistSession_def)
qed

theorem session_roundtrip_witness:
  "restoreSession (persistSession (no_session\<lparr>us_ID := ''s'', us_PartSize := 5, us_Opaque := [''url'' \<mapsto> ''u'']\<rparr>)) =
     Some (no_session\<lparr>us_ID := ''s'', us_PartSize := 5, us_Opaque := [''url'' \<mapsto> ''u'']\<rparr>)"
  using session_roundtrip [of "no_session\<lparr>us_ID := ''s'', us_PartSize := 5, us_Opaque := [''url'' \<mapsto> ''u'']\<rparr>"]
  by (simp add: no_session_def restrict_map_def sessionIDKey_def sessionPartSizeKey_def fun_eq_iff)

section \<open>Conflicts\<close>

text \<open>What the pages of a directory list, up to the last page or the first that fails.\<close>

inductive lists :: "(string \<Rightarrow> goerr + Entry list \<times> string) \<Rightarrow> string \<Rightarrow> Entry list \<Rightarrow> bool" for page where
  last: "page c = Inr (es, []) \<Longrightarrow> lists page c es"
| broken: "page c = Inl e \<Longrightarrow> lists page c []"
| more: "page c = Inr (es, nxt) \<Longrightarrow> nxt \<noteq> [] \<Longrightarrow> lists page nxt es' \<Longrightarrow> lists page c (es @ es')"

definition changed :: "Upload \<Rightarrow> string \<Rightarrow> Entry list \<Rightarrow> bool" where
  "changed up expd es =
     (case find (\<lambda>e. en_Name e = u_Name up) es of None \<Rightarrow> False | Some e \<Rightarrow> en_Version e \<noteq> [] \<and> en_Version e \<noteq> expd)"

lemma find_append: "find P (xs @ ys) = (case find P xs of None \<Rightarrow> find P ys | Some x \<Rightarrow> Some x)"
  by (induction xs) auto

lemma list_pages_whole:
  assumes "lists page c es" "\<And>c w. pv_List p (u_RemoteParentID up) c w = (page c, w)"
  shows "\<exists>r. list_pages p up expd c w = Some (r, w) \<and> (r = Inr True \<longleftrightarrow> changed up expd es)"
  using assms(1)
proof induction
  case (last c es)
  then show ?case by (subst list_pages.simps) (simp add: assms(2) changed_def split: option.split)
next
  case (broken c e)
  then show ?case by (subst list_pages.simps) (simp add: assms(2) changed_def)
next
  case (more c es nxt es')
  then show ?case by (subst list_pages.simps) (simp add: assms(2) changed_def find_append split: option.splits)
qed

lemma conflictName_longer: "length name < length (conflictName host date name)"
  by (auto simp: conflictName_def Let_def min_def split: option.split)


definition sample_pages :: "string \<Rightarrow> goerr + Entry list \<times> string" where
  "sample_pages c =
     (if c = [] then Inr ([no_entry\<lparr>en_Name := ''m'', en_Version := ''1''\<rparr>], ''2'')
      else if c = ''2'' then Inr ([no_entry\<lparr>en_Name := ''n'', en_Version := ''9''\<rparr>], ''3'')
      else Inl (sentinel_err ErrUnavailable))"

definition sample_lister :: "store Provider" where
  "sample_lister = sample_backend\<lparr>pv_List := (\<lambda>d c w. (if d = u_RemoteParentID (sample_upload ''a'' ''/j/objects/a'')
     then sample_pages c else Inl (sentinel_err ErrNotFound), w))\<rparr>"


end
