(* ===== verification/Spec2Isabelle.thy ===== *)
theory Spec2Isabelle
  imports ProxyRules PathGlob ResumeRace UploaderVerdicts
begin

text \<open>
  CloudFS mounts cloud drives as a local file system. This development verifies the part of it that
  must not lose data: the durable upload journal (\<open>internal/journal\<close>), the worker that drains it to the
  backends (\<open>internal/upload\<close>), and the network policy they rest on (\<open>internal/net\<close>), with the
  path globs (\<open>internal/pathglob\<close>) beside them.

  \<^bold>\<open>How the parts interact.\<close> A write goes to a staging file; committing it makes a
  content-addressed object and a row in the upload queue. Copies between remotes prepare their
  bytes in a private file and enter the same queue. A worker claims a due row, sends the payload
  through the limiter and the retry policy to the backend, and settles the row: finished, pending again
  or dead. A user may stop an upload at any time, and then discard or resume it. After a crash
  \<open>Recover\<close> puts the rows and the files in order.

  \<^bold>\<open>Modelling.\<close> State is passed explicitly. A SQLite table is the list of its rows; a transaction
  (\<open>tx\<close>) applies a function on all tables or leaves them alone. An operation takes an environment
  (\<open>env\<close>: clock, faults of the database and of the operating system, end of the context) and the
  \<open>Journal\<close>, and returns a sum of error and result with the journal after it; theorems that do not restrict
  the environment hold under every fault. Files are an explicit store of names, inodes and bytes
  (\<open>osfs\<close>), so that hard links and unlinked open files behave as they do. Durations and times are nanoseconds; the shift
  in the backoff is computed at 64 bits; rates are exact rationals where Go has \<open>float64\<close>,
  and waits and part counts are unbounded integers where Go has 64 bits (they differ only for waits above
  292 years and for part sizes near \<open>2 ^ 63\<close>). Digests, UUID
  syntax, package \<open>net\<close>, the backends and the hooks of the uploader are arguments.

  \<^bold>\<open>Theories.\<close>
  \<^item> \<open>Prelude\<close>, \<open>GoStd\<close>, \<open>GoStrconv\<close>: tables as lists; the standard library functions the sources use.
  \<^item> \<open>Retry\<close> (\<open>retry.go\<close>), \<open>RateLimit\<close> (\<open>ratelimit.go\<close>), \<open>ProxyRules\<close> (\<open>rules.go\<close>), \<open>PathGlob\<close> (\<open>glob.go\<close>):
    classification, backoff and retry loop; token bucket, breaker and registry; rule routing; globs. Shown are
    the exact backoff delay, bounds on attempts and on admission under any mix of events, when a breaker is
    open, the sharing of limiters, routing by the first line that applies, and that the two matchers agree
    with a declarative meaning.
  \<^item> \<open>OsFS\<close>, \<open>JournalDB\<close>, \<open>JournalGC\<close>: the file system, the tables with the invariant \<open>db_inv\<close>, and the collection of
    payloads nobody needs (\<open>removeBlobIfUnreferenced\<close>).
  \<^item> \<open>JournalQueue\<close> (\<open>journal.go\<close>, \<open>group.go\<close>, \<open>cancel.go\<close>, \<open>publication.go\<close>, \<open>list.go\<close>) with \<open>QueueProps\<close> and \<open>QueueOutcomes\<close>:
    commits alone and in groups, claims, outcomes, stops and drops. Shown are exclusive claims in commit order, one
    true verdict per group-committed request, group commit as sequential commit, and what success
    and drops do to rows and payloads. \<open>Paging\<close> is the contract of cursor paging, a locale that
    both paged listings interpret; a client's scan is shown to end.
  \<^item> \<open>JournalCleanup\<close> (\<open>cleanup_upload.go\<close>, \<open>resume_upload.go\<close>) with \<open>CleanupProps\<close>: discarding and resuming.
    A failed cleanup keeps its intent, and a resume starts from a verified payload.
  \<^item> \<open>Staging\<close> (\<open>staging.go\<close>, \<open>link_staging.go\<close>) with \<open>StagingProps\<close>: streamed digests are those of the bytes, writes
    read back, and an object waiting for its row survives collection.
  \<^item> \<open>CopyJobs\<close>, \<open>CopyCleanup\<close> (\<open>copy.go\<close>, \<open>copy_cleanup.go\<close>, \<open>server_copy.go\<close>) with \<open>CopyProps\<close> and \<open>CopyOutcomes\<close>: a copy is
    submitted once, reopened with exactly its checkpointed bytes, also after a crash, and a cancellation
    wins over every handle; server-side copies reserve their destination.
  \<^item> \<open>JournalRecover\<close> (\<open>Recover\<close>, \<open>copy_recovery.go\<close>, \<open>orphans.go\<close>) with \<open>RecoverProps\<close> and \<open>RecoverFiles\<close>: a restart settles every
    row by the check of its payload and removes no payload that a row names.
  \<^item> \<open>LifeCycle\<close>, \<open>JournalSystem\<close>: the abstract life cycle of one upload as a labelled transition system, all
    operations as calls, steps and traces. Every step refines the life cycle and keeps \<open>db_inv\<close>. The locale
    \<open>upload_view\<close> carries what operations on copies leave alone. \<open>ResumeRace\<close>: revisions only grow while
    a row stays, so that a stop wins for good over a resume prepared before it.
  \<^item> \<open>Uploader\<close> (\<open>uploader.go\<close>, \<open>cancel.go\<close>, \<open>flush.go\<close>) with \<open>UploaderProps\<close>, \<open>UploaderContent\<close>, \<open>UploaderVerdicts\<close>: one
    claim from registration to release, as a function on the world of the worker. The locale \<open>journal_op\<close> is what
    the worker needs of a journal operation. Shown are that no claim is stranded and no stop lost,
    that a successful transfer has stored the payload, what each class of failure comes to on a live and on
    an ended context, that sessions survive storage, and when data goes under another name.

  This theory states what holds of the journal as a whole.

  \<^bold>\<open>Loops.\<close> Loops over lists are structural; \<open>do_loop\<close>, \<open>hash_loop\<close>, \<open>prefix_loop\<close> and the glob matchers have termination
  proofs. A listing of a backend and \<open>DrainAll\<close> need not end and are partial functions; that \<open>process\<close>
  returns is proved for backends whose cursors run out. Fuel appears three times: following symbolic
  links (as the limit of the system, and more gives the same node), \<open>path.Match\<close> (the length of the pattern
  is enough, since each round consumes a byte of it), and a client's scan over pages (a scan that runs out of
  it has no result; one round more than there are rows is proved to give one).

  \<^bold>\<open>Assumptions about concurrency.\<close> Operations of the journal are atomic steps, as its locks and
  transactions make them; other goroutines act between them. For the worker that means: whatever the
  others do while a call of the backend or of a hook runs is part of what that call does to the world.

  \<^bold>\<open>Not modelled\<close> are the text of the SQL schema with its migrations and file locks, the goroutines of
  \<open>Start\<close>, \<open>Stop\<close> and \<open>worker\<close>, the timed loop of \<open>Flush\<close> around its verdict, dialling, the backend drivers, the storage pool,
  the virtual file system with its caches and adapters, and the servers, indexes and commands above
  it. Those are input and output, or use the journal through the operations here.
\<close>

section \<open>The journal as a whole\<close>

text \<open>
  C1. The journal refines the life cycle. Whatever a step does to the tables, for every upload id
  it is a step of the abstract life cycle with the same label: for instance an outcome never revives a
  stopped upload, which can only be purged, discarded or resumed, and a restart puts
  running uploads back without touching the rest.
\<close>

theorem journal_refines_life:
  assumes "db_inv (jdb j)" and "jstep l j j'"
  shows "life l (phase_of (jdb j) x) (phase_of (jdb j') x)"
  using assms(2,1) by (rule jstep_refines(1))

theorem journal_refines_life_witness:
  "life LRecover (phase_of (jdb sample_restart) ''g'') (phase_of (jdb (exec sample_env JRecover sample_restart)) ''g'')"
proof -
  have "jstep (label_of JRecover) sample_restart (exec sample_env JRecover sample_restart)" by (rule jstep.call)
  moreover have "db_inv (jdb sample_restart)" unfolding sample_restart_def by (rule sample_inv) simp_all
  ultimately show ?thesis using journal_refines_life [of sample_restart "label_of JRecover"] by (simp del: life_from)
qed

text \<open>
  C27. Every reachable journal is well formed. Starting from empty tables, after any sequence of
  calls, with any faults, restarts and changes of files in between, keys are unique, a row is
  purging exactly when it has a cleanup intent, discarded ids have no row, and no two active
  copies share a destination.
\<close>

theorem reachable_well_formed:
  assumes "trace ls j j'" and "jdb j = empty_db"
  shows "db_inv (jdb j')"
  using trace_inv [OF assms(1)] assms(2) empty_db_inv by simp

theorem reachable_well_formed_witness:
  "db_inv (jdb (exec sample_env (JCommit (sample_upload ''a'' ''/j/objects/a'')) (sample_journal [])))"
proof -
  have "trace ([] @ [label_of (JCommit u)]) j (exec sample_env (JCommit u) j)" for u j
    by (rule trace.snoc [OF trace.nil jstep.call])
  moreover have "jdb (sample_journal []) = empty_db" by (simp add: sample_journal_def empty_db_def)
  ultimately show ?thesis using reachable_well_formed by blast
qed

text \<open>
  C2. A stopped upload stays stopped. Once an upload is cancelling, cancelled, being purged or
  discarded, no sequence of calls without a resume, and no restart or change of files in between,
  brings it back: no claim hands it to a worker. A discarded id stays discarded through
  resumes as well.
\<close>

theorem stop_sticks:
  assumes "db_inv (jdb j)" and "trace ls j j'" and "held (phase_of (jdb j) x)"
  shows "(LResume \<notin> set ls \<longrightarrow> held (phase_of (jdb j') x) \<and>
      (\<forall>env remote n us j''. Claim env j' remote n = (Inr us, j'') \<longrightarrow> x \<notin> set (map u_ID us))) \<and>
    (phase_of (jdb j) x = Discarded \<longrightarrow> phase_of (jdb j') x = Discarded)"
proof (intro conjI impI)
  assume no: "LResume \<notin> set ls"
  have "held (phase_of (jdb j') x)"
    using trace_invariant [OF assms(2,1), where P = held, OF assms(3)] life_held no by metis
  then show "held (phase_of (jdb j') x)"
    "\<forall>env remote n us j''. Claim env j' remote n = (Inr us, j'') \<longrightarrow> x \<notin> set (map u_ID us)"
    using Claim_not_held [OF trace_inv [OF assms(2,1)]] by blast+
next
  assume "phase_of (jdb j) x = Discarded"
  then show "phase_of (jdb j') x = Discarded"
    using trace_invariant [OF assms(2,1), where P = "\<lambda>p. p = Discarded"] life_discarded by metis
qed

theorem stop_sticks_witness:
  "held (phase_of (jdb (exec sample_env (JRetry ''c'' None 0) sample_restart)) ''c'')"
proof -
  let ?j = "exec sample_env (JRetry ''c'' None 0) sample_restart"
  have "trace ([] @ [label_of (JRetry ''c'' None 0)]) sample_restart ?j" by (rule trace.snoc [OF trace.nil jstep.call])
  moreover have "db_inv (jdb sample_restart)" unfolding sample_restart_def by (rule sample_inv) simp_all
  moreover have "held (phase_of (jdb sample_restart) ''c'')"
    by (simp add: held_def halted_def phase_of_def row_of_def sample_restart_def sample_journal_def empty_db_def)
  ultimately show ?thesis using stop_sticks [of sample_restart "[LRetry]" ?j "''c''"] by simp
qed

end
